(* ===== verification/Prelude.thy ===== *)
theory Prelude
  imports Main "HOL-Library.Word" "HOL-Library.Monad_Syntax" "HOL-Library.Code_Target_Nat"
begin

text \<open>
  The shared vocabulary of the development: the integer types of the C code, C memory accesses
  with an explicit failure for every access outside an object, big-endian words, C strings, and
  the list and word lemmas that the components share.

  A C buffer is a list of bytes. A read or write outside the list is undefined behaviour in C;
  here it is the value \<open>None\<close>, so that "this function never touches memory outside its
  buffers" is the theorem that it returns \<open>Some\<close>. A \<open>size_t\<close> that measures an object in
  memory is a \<open>nat\<close>; where the code tests a \<open>size_t\<close> sum for wrap-around, the sum is
  \<open>size_add\<close>, which wraps at \<open>2 ^ 64\<close>.
\<close>

unbundle bit_operations_syntax

type_synonym u8 = "8 word"
type_synonym u16 = "16 word"
type_synonym u32 = "32 word"
type_synonym u64 = "64 word"
type_synonym bytes = "8 word list"

named_theorems mem_simps \<open>facts about reads and writes of C objects\<close>
named_theorems inv_intros \<open>every operation keeps the invariant of its component\<close>
named_theorems word_values \<open>the numbers that words stand for\<close>

section \<open>C memory\<close>

definition rd :: "'a list \<Rightarrow> nat \<Rightarrow> 'a option" where
  "rd xs i = (if i < length xs then Some (xs ! i) else None)"

definition rd_slice :: "'a list \<Rightarrow> nat \<Rightarrow> nat \<Rightarrow> 'a list option" where
  "rd_slice xs i n = (if i + n \<le> length xs then Some (take n (drop i xs)) else None)"

definition wr :: "'a list \<Rightarrow> nat \<Rightarrow> 'a \<Rightarrow> 'a list option" where
  "wr xs i y = (if i < length xs then Some (xs[i := y]) else None)"

definition blit :: "'a list \<Rightarrow> nat \<Rightarrow> 'a list \<Rightarrow> 'a list option" where
  "blit xs i ys =
     (if i + length ys \<le> length xs
      then Some (take i xs @ ys @ drop (i + length ys) xs) else None)"

definition size_add :: "nat \<Rightarrow> nat \<Rightarrow> nat" where
  "size_add a b = (a + b) mod 2 ^ 64"

definition size_sub :: "nat \<Rightarrow> nat \<Rightarrow> nat" where
  "size_sub a b = (if b \<le> a then a - b else a + 2 ^ 64 - b)"

text \<open>
  \<open>malloc\<close> is a parameter: for a size it gives a block or NULL. Its documented behaviour is that
  a block has the size asked for; the contents are arbitrary.
\<close>

type_synonym allocator = "nat \<Rightarrow> bytes option"

definition allocator_ok :: "allocator \<Rightarrow> bool" where
  "allocator_ok m \<longleftrightarrow> (\<forall>n b. m n = Some b \<longrightarrow> length b = n)"

definition ex_malloc :: allocator where
  "ex_malloc n = Some (replicate n 0)"

lemma ex_malloc_ok [simp]: "allocator_ok ex_malloc"
  by (simp add: allocator_ok_def ex_malloc_def)

lemma rd_eq_Some [mem_simps]: "rd xs i = Some x \<longleftrightarrow> i < length xs \<and> x = xs ! i"
  by (auto simp: rd_def)

lemma rd_in [mem_simps]: "i < length xs \<Longrightarrow> rd xs i = Some (xs ! i)"
  by (simp add: rd_def)

lemma rd_slice_in [mem_simps]: "i + n \<le> length xs \<Longrightarrow> rd_slice xs i n = Some (take n (drop i xs))"
  by (simp add: rd_slice_def)

lemma rd_slice_eq_Some:
  "rd_slice xs i n = Some ys \<longleftrightarrow> i + n \<le> length xs \<and> ys = take n (drop i xs)"
  by (auto simp: rd_slice_def)

lemma wr_in [mem_simps]: "i < length xs \<Longrightarrow> wr xs i y = Some (xs[i := y])"
  by (simp add: wr_def)

lemma wr_length: "wr xs i y = Some zs \<Longrightarrow> length zs = length xs"
  by (auto simp: wr_def split: if_splits)

lemma blit_in [mem_simps]:
  "i + length ys \<le> length xs \<Longrightarrow> blit xs i ys = Some (take i xs @ ys @ drop (i + length ys) xs)"
  by (simp add: blit_def)

lemma blit_length: "blit xs i ys = Some zs \<Longrightarrow> length zs = length xs"
  by (auto simp: blit_def split: if_splits)

lemma rd_drop [simp]: "i \<le> length xs \<Longrightarrow> rd (drop i xs) j = rd xs (i + j)"
  by (auto simp: rd_def add.commute)

lemma size_sub_le [simp]: "b \<le> a \<Longrightarrow> size_sub a b = a - b"
  by (simp add: size_sub_def)

lemma allocator_okD: "allocator_ok m \<Longrightarrow> m n = Some b \<Longrightarrow> length b = n"
  by (simp add: allocator_ok_def)

lemma size_add_small: "a + b < 2 ^ 64 \<Longrightarrow> size_add a b = a + b"
  by (simp add: size_add_def)

section \<open>Big-endian words\<close>

definition be16 :: "u8 \<Rightarrow> u8 \<Rightarrow> u16" where
  "be16 hi lo = push_bit 8 (ucast hi) OR ucast lo"

definition be32 :: "u8 \<Rightarrow> u8 \<Rightarrow> u8 \<Rightarrow> u8 \<Rightarrow> u32" where
  "be32 a b c d =
     push_bit 24 (ucast a) OR push_bit 16 (ucast b) OR push_bit 8 (ucast c) OR ucast d"

definition hi8 :: "u16 \<Rightarrow> u8" where "hi8 w = ucast (drop_bit 8 w)"
definition lo8 :: "u16 \<Rightarrow> u8" where "lo8 w = ucast w"

lemma be16_hi_lo [simp]: "be16 (hi8 w) (lo8 w) = w"
  by (rule bit_word_eqI) (auto simp: be16_def hi8_def lo8_def bit_simps)

lemma hi8_be16 [simp]: "hi8 (be16 a b) = a"
  by (rule bit_word_eqI) (auto simp: be16_def hi8_def bit_simps dest: bit_imp_le_length)

lemma lo8_be16 [simp]: "lo8 (be16 a b) = b"
  by (rule bit_word_eqI) (auto simp: be16_def lo8_def bit_simps)

lemma uint_u8_less: "uint (a :: u8) < 256"
  using uint_lt2p[of a] by simp

lemma unat_u8_less [simp]: "unat (a :: u8) < 256"
  by (rule order_less_le_trans [OF unsigned_less]) simp

lemma unat_u16_less [simp]: "unat (a :: u16) < 65536"
  by (rule order_less_le_trans [OF unsigned_less]) simp

lemma unat_u32_less [simp]: "unat (a :: u32) < 4294967296"
  by (rule order_less_le_trans [OF unsigned_less]) simp

lemma len64: "LENGTH(64) = 64" by simp

lemma unat_ucast_u32 [simp]: "unat (ucast (w :: u32) :: u64) = unat w"
proof -
  have "unat w < 4294967296" by simp
  then have "unat w < 2 ^ 64" by (rule order.strict_trans) simp
  then show ?thesis by (simp only: unsigned_ucast_eq len64 take_bit_nat_eq_self)
qed

lemma unat_be16 [word_values]: "unat (be16 a b) = 256 * unat a + unat b"
proof -
  have "be16 a b = push_bit 8 (ucast a) + ucast b"
    unfolding be16_def
    by (rule disjunctive_add_eq_or [symmetric], rule bit_word_eqI) (auto simp: bit_simps dest: bit_imp_le_length)
  moreover have "push_bit 8 (ucast a :: u16) = 256 * ucast a"
    by (simp add: push_bit_eq_mult)
  moreover have "unat a < 256" "unat b < 256" by simp_all
  then have "256 * unat a + unat b < 65536" by linarith
  ultimately show ?thesis
    by (simp add: unat_word_ariths unsigned_ucast_eq take_bit_nat_eq_self)
qed

end
