(* ===== verification/Stream_Buffer.thy ===== *)
theory Stream_Buffer
  imports Prelude
begin

text \<open>
  \<open>src/stream_buffer.c\<close> and \<open>include/stream_buffer.h\<close>: the bounded byte window of one flow
  direction. The locale \<open>bounded_fifo\<close> is the contract its clients use: a queue of bytes with a
  fixed capacity, appended to at the end and consumed at the front. The stream buffer, with its
  logical consumption and its compaction, is one implementation of it.
\<close>

section \<open>The contract: a bounded queue of bytes\<close>

locale bounded_fifo =
  fixes view :: "'b \<Rightarrow> bytes"
    and ok :: "'b \<Rightarrow> bool"
    and cap :: "'b \<Rightarrow> nat"
    and append :: "'b \<Rightarrow> bytes \<Rightarrow> nat \<Rightarrow> (bool \<times> 'b) option"
    and consume :: "'b \<Rightarrow> nat \<Rightarrow> 'b option"
  assumes view_le_cap: "ok b \<Longrightarrow> length (view b) \<le> cap b"
    and append_fits: "ok b \<Longrightarrow> n \<le> length d \<Longrightarrow> length (view b) + n \<le> cap b \<Longrightarrow>
      \<exists>b'. append b d n = Some (True, b') \<and> ok b' \<and> view b' = view b @ take n d \<and> cap b' = cap b"
    and append_full: "ok b \<Longrightarrow> n \<le> length d \<Longrightarrow> cap b < length (view b) + n \<Longrightarrow>
      \<exists>b'. append b d n = Some (False, b') \<and> ok b' \<and> view b' = view b \<and> cap b' = cap b"
    and consume_view: "ok b \<Longrightarrow>
      \<exists>b'. consume b n = Some b' \<and> ok b' \<and> view b' = drop n (view b) \<and> cap b' = cap b"
begin

lemma append_defined:
  assumes "ok b" "n \<le> length d"
  shows "\<exists>r b'. append b d n = Some (r, b') \<and> ok b' \<and> cap b' = cap b \<and>
    view b' = (if r then view b @ take n d else view b)"
  using append_fits [OF assms] append_full [OF assms]
  by (cases "length (view b) + n \<le> cap b") (auto simp: not_le)

lemma append_Some:
  assumes "ok b" "n \<le> length d" "append b d n = Some (r, b')"
  shows "ok b' \<and> cap b' = cap b \<and> r = (length (view b) + n \<le> cap b) \<and>
    view b' = (if r then view b @ take n d else view b)"
  using append_fits [OF assms(1,2)] append_full [OF assms(1,2)] assms(3)
  by (cases "length (view b) + n \<le> cap b") (auto simp: not_le)

lemma append_prefix:
  assumes "ok b" "n \<le> length d"
  defines "k \<equiv> min n (cap b - length (view b))"
  shows "\<exists>b'. append b d k = Some (True, b') \<and> ok b' \<and> view b' = view b @ take k d \<and> cap b' = cap b"
  using append_fits [of b k d] assms view_le_cap [of b] by (auto simp: k_def)

end

section \<open>The stream buffer\<close>

record stream_buffer =
  sb_data :: "bytes option"
  sb_length :: nat
  sb_consumed :: nat
  sb_capacity :: nat

definition stream_buffer_zero :: stream_buffer where
  "stream_buffer_zero = \<lparr>sb_data = None, sb_length = 0, sb_consumed = 0, sb_capacity = 0\<rparr>"

definition compact_buffer :: "stream_buffer \<Rightarrow> stream_buffer option" where
  "compact_buffer b =
     (if sb_consumed b = 0 then Some b
      else if sb_consumed b \<ge> sb_length b then Some (b\<lparr>sb_length := 0, sb_consumed := 0\<rparr>)
      else do {
        d \<leftarrow> sb_data b;
        src \<leftarrow> rd_slice d (sb_consumed b) (sb_length b - sb_consumed b);
        d' \<leftarrow> blit d 0 src;
        Some (b\<lparr>sb_data := Some d', sb_length := sb_length b - sb_consumed b, sb_consumed := 0\<rparr>)
      })"

definition stream_buffer_init :: "allocator \<Rightarrow> stream_buffer \<Rightarrow> nat \<Rightarrow> bool \<times> stream_buffer" where
  "stream_buffer_init malloc b capacity =
     (if capacity = 0 then (False, b)
      else case malloc capacity of
        None \<Rightarrow> (False, stream_buffer_zero)
      | Some d \<Rightarrow> (True, stream_buffer_zero\<lparr>sb_data := Some d, sb_capacity := capacity\<rparr>))"

definition stream_buffer_cleanup :: "stream_buffer \<Rightarrow> stream_buffer" where
  "stream_buffer_cleanup b = stream_buffer_zero"

definition stream_buffer_length :: "stream_buffer \<Rightarrow> nat" where
  "stream_buffer_length b =
     (if sb_consumed b \<ge> sb_length b then 0 else sb_length b - sb_consumed b)"

definition stream_buffer_data :: "stream_buffer \<Rightarrow> bytes option" where
  "stream_buffer_data b =
     (case sb_data b of None \<Rightarrow> None
      | Some d \<Rightarrow> if sb_consumed b \<ge> sb_length b then None else Some (drop (sb_consumed b) d))"

definition stream_buffer_append ::
    "stream_buffer \<Rightarrow> bytes option \<Rightarrow> nat \<Rightarrow> (bool \<times> stream_buffer) option" where
  "stream_buffer_append b data len =
     (if sb_data b = None then Some (False, b)
      else if len = 0 then Some (True, b)
      else if data = None \<or> len > sb_capacity b then Some (False, b)
      else do {
        b1 \<leftarrow> (if len > size_sub (sb_capacity b) (sb_length b) then compact_buffer b else Some b);
        if len > size_sub (sb_capacity b1) (sb_length b1) then Some (False, b1)
        else do {
          d \<leftarrow> sb_data b1;
          p \<leftarrow> data;
          src \<leftarrow> rd_slice p 0 len;
          d' \<leftarrow> blit d (sb_length b1) src;
          Some (True, b1\<lparr>sb_data := Some d', sb_length := sb_length b1 + len\<rparr>)
        }
      })"

definition stream_buffer_consume :: "stream_buffer \<Rightarrow> nat \<Rightarrow> stream_buffer option" where
  "stream_buffer_consume b len =
     (let readable = stream_buffer_length b in
      if len \<ge> readable then Some (b\<lparr>sb_length := 0, sb_consumed := 0\<rparr>)
      else
        let b1 = b\<lparr>sb_consumed := sb_consumed b + len\<rparr> in
        if sb_consumed b1 > sb_capacity b1 div 2 then compact_buffer b1 else Some b1)"

definition stream_buffer_clear :: "stream_buffer \<Rightarrow> stream_buffer" where
  "stream_buffer_clear b = b\<lparr>sb_length := 0, sb_consumed := 0\<rparr>"

section \<open>Invariant and abstraction\<close>

definition sb_ok :: "stream_buffer \<Rightarrow> bool" where
  "sb_ok b = (case sb_data b of
       None \<Rightarrow> sb_length b = 0 \<and> sb_consumed b = 0 \<and> sb_capacity b = 0
     | Some d \<Rightarrow> length d = sb_capacity b \<and> sb_consumed b \<le> sb_length b \<and>
         sb_length b \<le> sb_capacity b)"

definition sb_live :: "stream_buffer \<Rightarrow> bool" where
  "sb_live b \<longleftrightarrow> sb_ok b \<and> sb_data b \<noteq> None"

definition sb_view :: "stream_buffer \<Rightarrow> bytes" where
  "sb_view b = (case sb_data b of None \<Rightarrow> []
     | Some d \<Rightarrow> take (sb_length b - sb_consumed b) (drop (sb_consumed b) d))"

lemma sb_live_ok: "sb_live b \<Longrightarrow> sb_ok b"
  by (simp add: sb_live_def)

lemma sb_live_iff: "sb_live b \<longleftrightarrow> (\<exists>d. sb_data b = Some d \<and> length d = sb_capacity b \<and>
    sb_consumed b \<le> sb_length b \<and> sb_length b \<le> sb_capacity b)"
  by (auto simp: sb_live_def sb_ok_def)

lemma sb_ok_zero [simp]: "sb_ok stream_buffer_zero"
  by (simp add: sb_ok_def stream_buffer_zero_def)

lemma sb_view_zero [simp]: "sb_view stream_buffer_zero = []"
  by (simp add: sb_view_def stream_buffer_zero_def)

lemma stream_buffer_zero_data [simp]: "sb_data stream_buffer_zero = None"
  "sb_capacity stream_buffer_zero = 0"
  by (simp_all add: stream_buffer_zero_def)

lemma length_sb_view: "sb_ok b \<Longrightarrow> length (sb_view b) = stream_buffer_length b"
  by (auto simp: sb_ok_def sb_view_def stream_buffer_length_def split: option.splits)

lemma sb_view_le_capacity: "sb_ok b \<Longrightarrow> length (sb_view b) \<le> sb_capacity b"
  by (auto simp: sb_ok_def sb_view_def split: option.splits)

lemma stream_buffer_data_view:
  "sb_ok b \<Longrightarrow> (case stream_buffer_data b of None \<Rightarrow> sb_view b = []
     | Some d \<Rightarrow> sb_view b \<noteq> [] \<and> stream_buffer_length b \<le> length d \<and>
         take (stream_buffer_length b) d = sb_view b)"
  by (auto simp: sb_ok_def sb_view_def stream_buffer_data_def stream_buffer_length_def
      split: option.splits)

lemma compact_live:
  assumes "sb_live b"
  shows "\<exists>b'. compact_buffer b = Some b' \<and> sb_live b' \<and> sb_view b' = sb_view b \<and>
    sb_capacity b' = sb_capacity b \<and> sb_length b' = length (sb_view b)"
proof -
  obtain d where d: "sb_data b = Some d" "length d = sb_capacity b" "sb_consumed b \<le> sb_length b"
    "sb_length b \<le> sb_capacity b" using assms by (auto simp: sb_live_iff)
  consider "sb_consumed b = 0" | "0 < sb_consumed b" "sb_consumed b = sb_length b"
    | "0 < sb_consumed b" "sb_consumed b < sb_length b" using d(3) by linarith
  then show ?thesis
    using d by cases (auto simp: compact_buffer_def sb_view_def sb_live_iff mem_simps)
qed

lemma init_live:
  assumes "allocator_ok m" "stream_buffer_init m b c = (True, b')"
  shows "sb_live b' \<and> sb_view b' = [] \<and> sb_capacity b' = c \<and> 0 < c"
  using assms by (auto simp: stream_buffer_init_def sb_live_iff sb_view_def stream_buffer_zero_def
      dest: allocator_okD split: if_splits option.splits)

interpretation sbf: bounded_fifo sb_view sb_live sb_capacity
  "\<lambda>b d n. stream_buffer_append b (Some d) n" stream_buffer_consume
proof
  fix b :: stream_buffer and d :: bytes and n
  assume b: "sb_live b" and n: "n \<le> length d"
  obtain e where e: "sb_data b = Some e" "length e = sb_capacity b" "sb_consumed b \<le> sb_length b"
    "sb_length b \<le> sb_capacity b" using b by (auto simp: sb_live_iff)
  obtain c where c: "compact_buffer b = Some c" "sb_live c" "sb_view c = sb_view b"
    "sb_capacity c = sb_capacity b" "sb_length c = length (sb_view b)"
    using compact_live [OF b] by auto
  obtain f where f: "sb_data c = Some f" "length f = sb_capacity b" "sb_consumed c \<le> sb_length c"
    "sb_length c \<le> sb_capacity b" using c by (auto simp: sb_live_iff)
  have len: "length (sb_view b) = sb_length b - sb_consumed b"
    using e by (simp add: sb_view_def)
  show "\<exists>b'. stream_buffer_append b (Some d) n = Some (True, b') \<and> sb_live b' \<and>
      sb_view b' = sb_view b @ take n d \<and> sb_capacity b' = sb_capacity b"
    if fits: "length (sb_view b) + n \<le> sb_capacity b"
  proof -
    have pos: "sb_view (x\<lparr>sb_data := Some (take (sb_length x) g @ take n d @ drop (sb_length x + n) g),
        sb_length := sb_length x + n\<rparr>) = sb_view x @ take n d"
      if "sb_data x = Some g" "sb_consumed x \<le> sb_length x" "sb_length x + n \<le> length g" for x g
      using that n by (simp add: sb_view_def take_drop)
    show ?thesis
    proof (cases "n = 0")
      case True
      then show ?thesis using b e by (simp add: stream_buffer_append_def)
    next
      case False
      have ncap: "n \<le> sb_capacity b" using fits by simp
      show ?thesis
      proof (cases "n \<le> sb_capacity b - sb_length b")
        case True
        then have r: "sb_length b + n \<le> sb_capacity b" using e by simp
        then show ?thesis
          using False ncap n e pos [OF e(1,3)]
          by (auto simp add: stream_buffer_append_def mem_simps sb_live_iff)
      next
        case raw: False
        have r: "sb_length c + n \<le> sb_capacity b" using fits c by simp
        then show ?thesis
          using False raw ncap n e(1,4) c(1,3,4) f pos [OF f(1,3)]
          by (simp add: stream_buffer_append_def mem_simps sb_live_iff)
      qed
    qed
  qed
  show "\<exists>b'. stream_buffer_append b (Some d) n = Some (False, b') \<and> sb_live b' \<and>
      sb_view b' = sb_view b \<and> sb_capacity b' = sb_capacity b"
    if full: "sb_capacity b < length (sb_view b) + n"
    using b n e c f full len by (auto simp: stream_buffer_append_def)
next
  fix b :: stream_buffer and n
  assume b: "sb_live b"
  obtain e where e: "sb_data b = Some e" "length e = sb_capacity b" "sb_consumed b \<le> sb_length b"
    "sb_length b \<le> sb_capacity b" using b by (auto simp: sb_live_iff)
  define c where "c = b\<lparr>sb_consumed := sb_consumed b + n\<rparr>"
  have len: "stream_buffer_length b = sb_length b - sb_consumed b"
    using e by (auto simp: stream_buffer_length_def)
  have c: "sb_live c \<and> sb_view c = drop n (sb_view b) \<and> sb_capacity c = sb_capacity b"
    if "n < stream_buffer_length b"
    using that e len by (auto simp: c_def sb_live_iff sb_view_def drop_take add.commute)
  have def: "stream_buffer_consume b n =
      (if n \<ge> stream_buffer_length b then Some (b\<lparr>sb_length := 0, sb_consumed := 0\<rparr>)
       else if sb_consumed c > sb_capacity c div 2 then compact_buffer c else Some c)"
    by (simp add: stream_buffer_consume_def c_def Let_def)
  show "\<exists>b'. stream_buffer_consume b n = Some b' \<and> sb_live b' \<and> sb_view b' = drop n (sb_view b) \<and>
      sb_capacity b' = sb_capacity b"
    unfolding def using c compact_live [of c] e len
    by (auto simp: sb_live_iff sb_view_def not_le)
qed (simp add: sb_view_le_capacity sb_live_ok)

section \<open>Runs of operations against the abstract queue\<close>

datatype sb_op = SB_Append bytes | SB_Consume nat | SB_Clear

text \<open>A run gives the answers of its appends and the buffer at the end.\<close>

fun sb_run :: "stream_buffer \<Rightarrow> sb_op list \<Rightarrow> (bool list \<times> stream_buffer) option" where
  "sb_run b [] = Some ([], b)"
| "sb_run b (SB_Append xs # ops) = do {
     (r, b') \<leftarrow> stream_buffer_append b (Some xs) (length xs);
     (rs, b'') \<leftarrow> sb_run b' ops;
     Some (r # rs, b'')
   }"
| "sb_run b (SB_Consume n # ops) = do { b' \<leftarrow> stream_buffer_consume b n; sb_run b' ops }"
| "sb_run b (SB_Clear # ops) = sb_run (stream_buffer_clear b) ops"

text \<open>The queue the buffer promises to be: bytes in order, an append that does not fit refused.\<close>

fun queue_run :: "nat \<Rightarrow> bytes \<Rightarrow> sb_op list \<Rightarrow> bool list \<times> bytes" where
  "queue_run cap q [] = ([], q)"
| "queue_run cap q (SB_Append xs # ops) =
     (if length q + length xs \<le> cap
      then apfst (Cons True) (queue_run cap (q @ xs) ops)
      else apfst (Cons False) (queue_run cap q ops))"
| "queue_run cap q (SB_Consume n # ops) = queue_run cap (drop n q) ops"
| "queue_run cap q (SB_Clear # ops) = queue_run cap [] ops"

lemma clear_live: "sb_live b \<Longrightarrow>
    sb_live (stream_buffer_clear b) \<and> sb_view (stream_buffer_clear b) = [] \<and>
    sb_capacity (stream_buffer_clear b) = sb_capacity b"
  by (auto simp: sb_live_iff sb_view_def stream_buffer_clear_def split: option.splits)

lemma sb_run_queue:
  "sb_live b \<Longrightarrow> \<exists>rs b'. sb_run b ops = Some (rs, b') \<and> sb_live b' \<and>
     sb_capacity b' = sb_capacity b \<and> queue_run (sb_capacity b) (sb_view b) ops = (rs, sb_view b')"
proof (induction ops arbitrary: b)
  case (Cons x ops)
  show ?case
  proof (cases x)
    case (SB_Append xs)
    obtain r b1 where a: "stream_buffer_append b (Some xs) (length xs) = Some (r, b1)"
      using sbf.append_defined [OF Cons.prems, of "length xs" xs] by auto
    then show ?thesis
      using Cons.IH [of b1] sbf.append_Some [OF Cons.prems order_refl a] SB_Append by auto
  next
    case (SB_Consume n)
    then show ?thesis
      using sbf.consume_view [OF Cons.prems, of n] Cons.IH by fastforce
  next
    case SB_Clear
    then show ?thesis
      using clear_live [OF Cons.prems] Cons.IH [of "stream_buffer_clear b"] by auto
  qed
qed auto

lemma readable_view: "sb_live b \<Longrightarrow> stream_buffer_length b = length (sb_view b) \<and>
    (case stream_buffer_data b of None \<Rightarrow> sb_view b = []
       | Some d \<Rightarrow> take (stream_buffer_length b) d = sb_view b)"
  by (auto simp: sb_live_iff sb_view_def stream_buffer_length_def stream_buffer_data_def)

section \<open>Properties\<close>

text \<open>C7. A stream buffer is a bounded queue. After \<open>stream_buffer_init\<close> has succeeded, every
  sequence of appends, consumes and clears stays inside the allocation, answers each append as a
  queue of that capacity would (true exactly when the bytes fit after what is still unread), and
  shows through \<open>stream_buffer_data\<close> and \<open>stream_buffer_length\<close> exactly the queue's bytes,
  however consumption was deferred and the storage compacted on the way.\<close>

theorem stream_buffer_refines_queue:
  assumes "allocator_ok al" "stream_buffer_init al b0 cap = (True, b)"
  shows "\<exists>rs b' q. sb_run b ops = Some (rs, b') \<and> queue_run cap [] ops = (rs, q) \<and>
    stream_buffer_length b' = length q \<and> length q \<le> cap \<and>
    (case stream_buffer_data b' of None \<Rightarrow> q = [] | Some d \<Rightarrow> take (length q) d = q)"
proof -
  have b: "sb_live b" "sb_view b = []" "sb_capacity b = cap"
    using init_live [OF assms] by auto
  obtain rs b' where r: "sb_run b ops = Some (rs, b')" "sb_live b'" "sb_capacity b' = cap"
    "queue_run cap [] ops = (rs, sb_view b')"
    using sb_run_queue [OF b(1), of ops] b by auto
  show ?thesis
    using readable_view [OF r(2)] sbf.view_le_cap [OF r(2)] r
    by (auto split: option.splits)
qed

text \<open>Six bytes through a buffer of four, with one refused append and one compaction.\<close>

theorem stream_buffer_refines_queue_witness:
  "\<exists>rs b' q. sb_run (stream_buffer_zero\<lparr>sb_data := Some [0, 0, 0, 0], sb_capacity := 4\<rparr>)
      [SB_Append [1, 2, 3], SB_Append [4, 5], SB_Consume 2, SB_Append [6, 7, 8]] = Some (rs, b') \<and>
    queue_run 4 [] [SB_Append [1, 2, 3], SB_Append [4, 5], SB_Consume 2, SB_Append [6, 7, 8]] = (rs, q) \<and>
    stream_buffer_length b' = length q \<and> length q \<le> 4 \<and>
    (case stream_buffer_data b' of None \<Rightarrow> q = [] | Some d \<Rightarrow> take (length q) d = q)"
proof -
  have "stream_buffer_init ex_malloc stream_buffer_zero 4 =
      (True, stream_buffer_zero\<lparr>sb_data := Some [0, 0, 0, 0], sb_capacity := 4\<rparr>)"
    by (simp add: stream_buffer_init_def ex_malloc_def eval_nat_numeral)
  from stream_buffer_refines_queue [OF ex_malloc_ok this] show ?thesis by blast
qed

end
