(* ===== verification/Tcp_Reassembly.thy ===== *)
theory Tcp_Reassembly
  imports Stream_Buffer
begin

text \<open>
  \<open>src/tcp_reassembly.c\<close> and \<open>include/tcp_reassembly.h\<close>: the sequence state, the contiguous stream
  and the bounded store of out-of-order segments of one direction of a TCP flow. The array
  \<open>pending\<close> with its \<open>pending_count\<close> is the list of its live entries.
\<close>

abbreviation (input) TCP_REASSEMBLY_MAX_PENDING_SEGMENTS :: nat where
  "TCP_REASSEMBLY_MAX_PENDING_SEGMENTS \<equiv> 8"

abbreviation (input) TCP_FLAG_FIN :: u8 where "TCP_FLAG_FIN \<equiv> 1"
abbreviation (input) TCP_FLAG_SYN :: u8 where "TCP_FLAG_SYN \<equiv> 2"
abbreviation (input) TCP_FLAG_RST :: u8 where "TCP_FLAG_RST \<equiv> 4"

datatype tcp_result = TCP_ACCEPTED | TCP_BUFFERED | TCP_IGNORED | TCP_DROPPED

record tcp_segment =
  seg_sequence :: u32
  seg_length :: nat
  seg_data :: bytes

record tcp_direction =
  next_sequence :: u32
  initial_sequence_known :: bool
  fin_seen :: bool
  rst_seen :: bool
  unusable :: bool
  out_of_order_segments :: u64
  retransmissions :: u64
  overlapping_segments :: u64
  gaps :: u64
  stream :: stream_buffer
  pending :: "tcp_segment list"
  pending_bytes :: nat
  pending_byte_cap :: nat

definition tcp_direction_zero :: tcp_direction where
  "tcp_direction_zero = \<lparr>next_sequence = 0, initial_sequence_known = False, fin_seen = False,
     rst_seen = False, unusable = False, out_of_order_segments = 0, retransmissions = 0,
     overlapping_segments = 0, gaps = 0, stream = stream_buffer_zero, pending = [],
     pending_bytes = 0, pending_byte_cap = 0\<rparr>"

definition payload_sequence :: "u32 \<Rightarrow> u8 \<Rightarrow> u32" where
  "payload_sequence s flags = (if flags AND TCP_FLAG_SYN \<noteq> 0 then s + 1 else s)"

definition sequence_before :: "u32 \<Rightarrow> u32 \<Rightarrow> bool" where
  "sequence_before left right \<longleftrightarrow> sint (left - right) < 0"

definition sequence_before_or_equal :: "u32 \<Rightarrow> u32 \<Rightarrow> bool" where
  "sequence_before_or_equal left right \<longleftrightarrow> left = right \<or> sequence_before left right"

definition remove_pending_at :: "tcp_direction \<Rightarrow> nat \<Rightarrow> tcp_direction" where
  "remove_pending_at st i =
     (if i \<ge> length (pending st) then st
      else st\<lparr>pending_bytes :=
                (if seg_length (pending st ! i) \<le> pending_bytes st
                 then pending_bytes st - seg_length (pending st ! i) else 0),
              pending := take i (pending st) @ drop (Suc i) (pending st)\<rparr>)"

definition append_stream_data ::
    "tcp_direction \<Rightarrow> bytes \<Rightarrow> nat \<Rightarrow> (bool \<times> tcp_direction) option" where
  "append_stream_data st data len =
     do { (r, b) \<leftarrow> stream_buffer_append (stream st) (Some data) len; Some (r, st\<lparr>stream := b\<rparr>) }"

definition append_stream_best_effort ::
    "tcp_direction \<Rightarrow> bytes \<Rightarrow> nat \<Rightarrow> (nat \<times> tcp_direction) option" where
  "append_stream_best_effort st data len =
     (let room = size_sub (sb_capacity (stream st)) (stream_buffer_length (stream st));
          take = (if len < room then len else room)
      in if take = 0 then Some (0, st)
         else do {
           (r, st') \<leftarrow> append_stream_data st data take;
           Some (if \<not> r then 0 else take, st')
         })"

text \<open>
  One pass of the inner loop of \<open>flush_pending_segments\<close>, from index \<open>i\<close>: it stops at the first
  segment it can retire or use (\<open>break\<close>), at a full stream (\<open>return false\<close>) or at the end.
\<close>

datatype flush_outcome = Flush_Advanced | Flush_Stuck | Flush_Failed

function flush_scan :: "tcp_direction \<Rightarrow> nat \<Rightarrow> (flush_outcome \<times> tcp_direction) option" where
  "flush_scan st i =
     (if i < length (pending st) then
        let segment = pending st ! i;
            segment_end = seg_sequence segment + of_nat (seg_length segment)
        in if sequence_before_or_equal segment_end (next_sequence st) then
             Some (Flush_Advanced,
               remove_pending_at (st\<lparr>retransmissions := retransmissions st + 1\<rparr>) i)
           else if sequence_before_or_equal (seg_sequence segment) (next_sequence st) then
             let trim = unat (next_sequence st - seg_sequence segment);
                 st1 = (if trim > 0
                        then st\<lparr>overlapping_segments := overlapping_segments st + 1\<rparr> else st)
             in do {
               (r, st2) \<leftarrow> append_stream_data st1 (drop trim (seg_data segment))
                             (size_sub (seg_length segment) trim);
               if \<not> r then Some (Flush_Failed, st2\<lparr>unusable := True\<rparr>)
               else Some (Flush_Advanced, remove_pending_at (st2\<lparr>next_sequence := segment_end\<rparr>) i)
             }
           else flush_scan st (Suc i)
      else Some (Flush_Stuck, st))"
  by pat_completeness auto
termination
  by (relation "measure (\<lambda>(st, i). length (pending st) - i)") auto

declare flush_scan.simps [simp del]

lemma length_remove_pending:
  "i < length (pending st) \<Longrightarrow> length (pending (remove_pending_at st i)) < length (pending st)"
  by (simp add: remove_pending_at_def)

lemma append_stream_data_frame:
  "append_stream_data st d n = Some (r, st') \<Longrightarrow> \<exists>b. st' = st\<lparr>stream := b\<rparr>"
  by (cases "stream_buffer_append (stream st) (Some d) n") (auto simp: append_stream_data_def)

lemma flush_scan_advanced_shorter:
  "flush_scan st i = Some (Flush_Advanced, st') \<Longrightarrow> length (pending st') < length (pending st)"
proof (induction st i rule: flush_scan.induct)
  case (1 st i)
  have rem: "length (pending (remove_pending_at x i)) < length (pending st)"
    if "pending x = pending st" "i < length (pending st)" for x
    using length_remove_pending [of i x] that by simp
  show ?case
    using 1 rem by (subst (asm) (2) flush_scan.simps)
      (fastforce simp: Let_def bind_eq_Some_conv split: if_splits dest: append_stream_data_frame)
qed

function flush_pending_segments :: "tcp_direction \<Rightarrow> (bool \<times> tcp_direction) option" where
  "flush_pending_segments st =
     (case flush_scan st 0 of
        None \<Rightarrow> None
      | Some (outcome, st') \<Rightarrow>
          (case outcome of
             Flush_Advanced \<Rightarrow> flush_pending_segments st'
           | Flush_Stuck \<Rightarrow> Some (True, st')
           | Flush_Failed \<Rightarrow> Some (False, st')))"
  by pat_completeness auto
termination
  by (relation "measure (\<lambda>st. length (pending st))") (auto dest: flush_scan_advanced_shorter)

declare flush_pending_segments.simps [simp del]

definition store_out_of_order_segment ::
    "allocator \<Rightarrow> tcp_direction \<Rightarrow> u32 \<Rightarrow> bytes option \<Rightarrow> nat \<Rightarrow> (bool \<times> tcp_direction) option" where
  "store_out_of_order_segment malloc st s payload payload_length =
     (if length (pending st) \<ge> TCP_REASSEMBLY_MAX_PENDING_SEGMENTS \<or> payload = None \<or>
         payload_length = 0 \<or> payload_length > pending_byte_cap st \<or>
         payload_length > size_sub (pending_byte_cap st) (pending_bytes st)
      then Some (False, st)
      else case malloc payload_length of
        None \<Rightarrow> Some (False, st)
      | Some block \<Rightarrow> do {
          p \<leftarrow> payload;
          src \<leftarrow> rd_slice p 0 payload_length;
          copied \<leftarrow> blit block 0 src;
          Some (True, st\<lparr>pending := pending st @
                     [\<lparr>seg_sequence = s, seg_length = payload_length, seg_data = copied\<rparr>],
                   pending_bytes := pending_bytes st + payload_length\<rparr>)
        })"

definition tcp_reassembly_direction_init ::
    "allocator \<Rightarrow> tcp_direction \<Rightarrow> nat \<Rightarrow> bool \<times> tcp_direction" where
  "tcp_reassembly_direction_init malloc st stream_buffer_bytes =
     (if stream_buffer_bytes = 0 then (False, st)
      else let (r, b) = stream_buffer_init malloc (stream tcp_direction_zero) stream_buffer_bytes
           in if \<not> r then (False, tcp_direction_zero\<lparr>stream := b\<rparr>)
              else (True, tcp_direction_zero\<lparr>stream := b, pending_byte_cap := stream_buffer_bytes\<rparr>))"

definition tcp_reassembly_direction_cleanup :: "tcp_direction \<Rightarrow> tcp_direction" where
  "tcp_reassembly_direction_cleanup st = tcp_direction_zero"

definition tcp_reassembly_track_flags :: "tcp_direction \<Rightarrow> u8 \<Rightarrow> tcp_direction" where
  "tcp_reassembly_track_flags st flags =
     (let st1 = (if flags AND TCP_FLAG_RST \<noteq> 0 then st\<lparr>rst_seen := True\<rparr> else st)
      in if flags AND TCP_FLAG_FIN \<noteq> 0 then st1\<lparr>fin_seen := True\<rparr> else st1)"

definition tcp_reassembly_direction_release_buffers :: "tcp_direction \<Rightarrow> tcp_direction" where
  "tcp_reassembly_direction_release_buffers st =
     st\<lparr>pending := [], pending_bytes := 0, stream := stream_buffer_cleanup (stream st)\<rparr>"

text \<open>
  The tail of \<open>tcp_reassembly_process_segment\<close>, from the block that appends in-order bytes: the
  arguments are the trimmed payload and its sequence number.
\<close>

definition accept_in_order ::
    "tcp_direction \<Rightarrow> u32 \<Rightarrow> u8 \<Rightarrow> bytes \<Rightarrow> nat \<Rightarrow> (tcp_result \<times> tcp_direction) option" where
  "accept_in_order st data_sequence flags payload payload_length =
     do {
       (appended, st1) \<leftarrow> append_stream_best_effort st payload payload_length;
       if appended < payload_length then
         Some (if appended > 0 then TCP_ACCEPTED else TCP_DROPPED, st1\<lparr>unusable := True\<rparr>)
       else do {
         let st2 = st1\<lparr>next_sequence := data_sequence + of_nat payload_length\<rparr>;
         let st3 = (if flags AND TCP_FLAG_FIN \<noteq> 0
                    then st2\<lparr>next_sequence := next_sequence st2 + 1\<rparr> else st2);
         (flushed, st4) \<leftarrow> flush_pending_segments st3;
         Some (if \<not> flushed then TCP_DROPPED else TCP_ACCEPTED, st4)
       }
     }"

definition tcp_reassembly_process_segment ::
    "allocator \<Rightarrow> tcp_direction \<Rightarrow> u32 \<Rightarrow> u8 \<Rightarrow> bytes option \<Rightarrow> nat \<Rightarrow>
       (tcp_result \<times> tcp_direction) option" where
  "tcp_reassembly_process_segment malloc st0 s flags payload payload_length =
     (if unusable st0 then Some (TCP_DROPPED, st0)
      else
        let st1 = tcp_reassembly_track_flags st0 flags;
            st2 = (if \<not> initial_sequence_known st1
                   then st1\<lparr>next_sequence := payload_sequence s flags,
                            initial_sequence_known := True\<rparr> else st1)
        in if payload_length = 0 then
             Some (TCP_ACCEPTED,
               if flags AND TCP_FLAG_FIN \<noteq> 0 \<and> next_sequence st2 = payload_sequence s flags
               then st2\<lparr>next_sequence := next_sequence st2 + 1\<rparr> else st2)
           else if payload = None \<or> payload_length > 4294967295 then
             Some (TCP_DROPPED, st2\<lparr>unusable := True\<rparr>)
           else
             let data_sequence = payload_sequence s flags;
                 segment_end = data_sequence + of_nat payload_length
             in if sequence_before_or_equal segment_end (next_sequence st2) then
                  Some (TCP_IGNORED, st2\<lparr>retransmissions := retransmissions st2 + 1\<rparr>)
                else if sequence_before (next_sequence st2) data_sequence then do {
                  let st3 = st2\<lparr>out_of_order_segments := out_of_order_segments st2 + 1,
                                gaps := gaps st2 + 1\<rparr>;
                  (stored, st4) \<leftarrow> store_out_of_order_segment malloc st3 data_sequence
                                     payload payload_length;
                  Some (if \<not> stored then TCP_DROPPED else TCP_BUFFERED, st4)
                }
                else do {
                  p \<leftarrow> payload;
                  if sequence_before data_sequence (next_sequence st2) then
                    let trim = unat (next_sequence st2 - data_sequence);
                        st3 = st2\<lparr>overlapping_segments := overlapping_segments st2 + 1\<rparr>
                    in if trim \<ge> payload_length then
                         Some (TCP_IGNORED, st3\<lparr>retransmissions := retransmissions st3 + 1\<rparr>)
                       else accept_in_order st3 (next_sequence st3) flags (drop trim p)
                              (payload_length - trim)
                  else accept_in_order st2 data_sequence flags p payload_length
                })"

section \<open>Serial-number arithmetic\<close>


lemma sint_of_int32: "- 2147483648 \<le> k \<Longrightarrow> k < 2147483648 \<Longrightarrow> sint (word_of_int k :: u32) = k"
  by (simp add: signed_of_int signed_take_bit_int_eq_self)

lemma word_diff_of_int: "(x + of_nat a) - (x + of_nat b) = (word_of_int (int a - int b) :: u32)"
  by simp

lemma sequence_before_offset:
  assumes "a < 2147483648" "b < 2147483648"
  shows "sequence_before (isn + of_nat a) (isn + of_nat b) \<longleftrightarrow> a < b"
proof -
  have "sint ((isn + of_nat a) - (isn + of_nat b)) = int a - int b"
    unfolding word_diff_of_int using assms by (intro sint_of_int32) auto
  then show ?thesis by (auto simp: sequence_before_def)
qed

lemma offset_eq_iff:
  assumes "a < 4294967296" "b < 4294967296"
  shows "isn + of_nat a = (isn + of_nat b :: u32) \<longleftrightarrow> a = b"
proof -
  have "isn + of_nat a = isn + of_nat b \<longleftrightarrow> (of_nat a :: u32) = of_nat b" by simp
  also have "\<dots> \<longleftrightarrow> a = b"
    using assms by (auto simp: word_of_nat_eq_iff take_bit_nat_eq_self)
  finally show ?thesis .
qed

lemma serial_trim:
  fixes n s :: u32
  assumes len: "len < 2147483648"
    and "\<not> sequence_before_or_equal (s + of_nat len) n" and "sequence_before_or_equal s n"
  shows "unat (n - s) < len"
proof -
  define d where "d = unat (n - s)"
  have n: "n = s + of_nat d" by (simp add: d_def)
  have d32: "d < 4294967296" by (simp add: d_def)
  have end_n: "(s + of_nat len) - n = word_of_int (int len - int d)" "s - n = word_of_int (- int d)"
    by (simp_all add: n)
  show ?thesis
  proof (rule ccontr)
    assume "\<not> ?thesis"
    then have ge: "len \<le> d" by (simp add: d_def)
    have "d \<noteq> len" using assms(2) n by (auto simp: sequence_before_or_equal_def)
    have "d \<le> 2147483648"
    proof (rule ccontr)
      assume "\<not> ?thesis"
      then have "sint (word_of_int (4294967296 - int d) :: u32) = 4294967296 - int d"
        using d32 by (intro sint_of_int32) auto
      moreover have "(word_of_int (4294967296 - int d) :: u32) = s - n" by (simp add: n)
      ultimately have "sint (s - n) \<ge> 0" using d32 by simp
      then have "s = n" using assms(3) by (simp add: sequence_before_or_equal_def sequence_before_def)
      then show False using \<open>\<not> d \<le> 2147483648\<close> by (simp add: d_def)
    qed
    then have "sint ((s + of_nat len) - n) = int len - int d"
      unfolding end_n using ge by (intro sint_of_int32) auto
    then show False
      using assms(2) ge \<open>d \<noteq> len\<close> by (simp add: sequence_before_or_equal_def sequence_before_def)
  qed
qed

section \<open>Invariant\<close>

definition seg_ok :: "nat \<Rightarrow> tcp_segment \<Rightarrow> bool" where
  "seg_ok cap s \<longleftrightarrow> length (seg_data s) = seg_length s \<and> 0 < seg_length s \<and> seg_length s \<le> cap"

definition tcp_ok :: "tcp_direction \<Rightarrow> bool" where
  "tcp_ok st \<longleftrightarrow> sb_ok (stream st) \<and>
     (sb_data (stream st) \<noteq> None \<longrightarrow> sb_capacity (stream st) = pending_byte_cap st) \<and>
     length (pending st) \<le> TCP_REASSEMBLY_MAX_PENDING_SEGMENTS \<and>
     pending_bytes st = sum_list (map seg_length (pending st)) \<and>
     pending_bytes st \<le> pending_byte_cap st \<and>
     (\<forall>s \<in> set (pending st). seg_ok (pending_byte_cap st) s) \<and>
     pending_byte_cap st < 2147483648"

lemma append_stream_data_ok:
  assumes "tcp_ok st" "n \<le> length d"
  shows "\<exists>r b. append_stream_data st d n = Some (r, st\<lparr>stream := b\<rparr>) \<and> tcp_ok (st\<lparr>stream := b\<rparr>) \<and>
    sb_view b = (if r then sb_view (stream st) @ take n d else sb_view (stream st)) \<and>
    (sb_data (stream st) \<noteq> None \<longrightarrow> sb_data b \<noteq> None \<and>
      r = (length (sb_view (stream st)) + n \<le> pending_byte_cap st))"
proof (cases "sb_data (stream st)")
  case None
  then show ?thesis using assms(1)
    by (intro exI [of _ False] exI [of _ "stream st"])
       (simp add: append_stream_data_def stream_buffer_append_def)
next
  case (Some e)
  then have live: "sb_live (stream st)" using assms(1) by (simp add: tcp_ok_def sb_live_def)
  obtain r b where a: "stream_buffer_append (stream st) (Some d) n = Some (r, b)"
    using sbf.append_defined [OF live assms(2)] by auto
  from sbf.append_Some [OF live assms(2) a] assms(1) Some show ?thesis
    by (intro exI [of _ r] exI [of _ b]) (auto simp: append_stream_data_def a tcp_ok_def sb_live_def)
qed

lemma sum_list_remove:
  "i < length xs \<Longrightarrow> sum_list (map f (take i xs @ drop (Suc i) xs)) + f (xs ! i) = sum_list (map f xs)"
  for f :: "'a \<Rightarrow> nat"
  by (subst (4) id_take_nth_drop [of i xs]) (simp_all add: ac_simps)

lemma remove_pending_ok:
  assumes "tcp_ok st"
  shows "tcp_ok (remove_pending_at st i)"
proof (cases "i < length (pending st)")
  case True
  have "sum_list (map seg_length (take i (pending st) @ drop (Suc i) (pending st))) +
      seg_length (pending st ! i) = pending_bytes st"
    using sum_list_remove [OF True, of seg_length] assms by (simp add: tcp_ok_def)
  moreover have "set (take i (pending st) @ drop (Suc i) (pending st)) \<subseteq> set (pending st)"
    using set_take_subset set_drop_subset by fastforce
  ultimately show ?thesis
    using assms True by (auto simp: tcp_ok_def remove_pending_at_def)
qed (use assms in \<open>simp add: remove_pending_at_def\<close>)


lemma tcp_ok_counters [simp]:
  "tcp_ok (st\<lparr>retransmissions := x\<rparr>) = tcp_ok st" "tcp_ok (st\<lparr>overlapping_segments := x\<rparr>) = tcp_ok st"
  "tcp_ok (st\<lparr>out_of_order_segments := x\<rparr>) = tcp_ok st" "tcp_ok (st\<lparr>gaps := x\<rparr>) = tcp_ok st"
  "tcp_ok (st\<lparr>next_sequence := n\<rparr>) = tcp_ok st" "tcp_ok (st\<lparr>initial_sequence_known := t\<rparr>) = tcp_ok st"
  "tcp_ok (st\<lparr>unusable := t\<rparr>) = tcp_ok st" "tcp_ok (st\<lparr>fin_seen := t\<rparr>) = tcp_ok st"
  "tcp_ok (st\<lparr>rst_seen := t\<rparr>) = tcp_ok st"
  by (simp_all add: tcp_ok_def)

lemma tcp_ok_pending: "tcp_ok st \<Longrightarrow> i < length (pending st) \<Longrightarrow>
    length (seg_data (pending st ! i)) = seg_length (pending st ! i) \<and>
    seg_length (pending st ! i) < 2147483648"
  by (fastforce simp: tcp_ok_def seg_ok_def dest: nth_mem)

lemma flush_scan_ok:
  "tcp_ok st \<Longrightarrow> \<exists>out st'. flush_scan st i = Some (out, st') \<and> tcp_ok st' \<and>
     pending_byte_cap st' = pending_byte_cap st"
proof (induction st i rule: flush_scan.induct)
  case (1 st i)
  show ?case
  proof (cases "i < length (pending st) \<and>
      \<not> sequence_before_or_equal (seg_sequence (pending st ! i) + of_nat (seg_length (pending st ! i)))
          (next_sequence st) \<and>
      sequence_before_or_equal (seg_sequence (pending st ! i)) (next_sequence st)")
    case True
    define trim where "trim = unat (next_sequence st - seg_sequence (pending st ! i))"
    define st1 where "st1 = (if trim > 0
      then st\<lparr>overlapping_segments := overlapping_segments st + 1\<rparr> else st)"
    have "trim < seg_length (pending st ! i)"
      unfolding trim_def using True tcp_ok_pending [OF "1.prems"] by (intro serial_trim) auto
    moreover have "tcp_ok st1" using "1.prems" by (simp add: st1_def)
    ultimately obtain r b where a: "append_stream_data st1 (drop trim (seg_data (pending st ! i)))
        (seg_length (pending st ! i) - trim) = Some (r, st1\<lparr>stream := b\<rparr>)" "tcp_ok (st1\<lparr>stream := b\<rparr>)"
      using append_stream_data_ok [of st1 "seg_length (pending st ! i) - trim"
          "drop trim (seg_data (pending st ! i))"] tcp_ok_pending [OF "1.prems", of i] True by auto
    have "pending_byte_cap st1 = pending_byte_cap st" by (simp add: st1_def)
    then show ?thesis
      using True a \<open>trim < _\<close> remove_pending_ok [of "st1\<lparr>stream := b, next_sequence := x\<rparr>" i for x]
      by (subst flush_scan.simps)
         (auto simp: Let_def trim_def [symmetric] st1_def [symmetric] remove_pending_at_def)
  next
    case False
    then show ?thesis
      using 1 remove_pending_ok [of "st\<lparr>retransmissions := x\<rparr>" i for x]
      by (subst flush_scan.simps) (auto simp: Let_def remove_pending_at_def)
  qed
qed

lemma flush_pending_ok:
  "tcp_ok st \<Longrightarrow> \<exists>r st'. flush_pending_segments st = Some (r, st') \<and> tcp_ok st' \<and>
     pending_byte_cap st' = pending_byte_cap st"
proof (induction st rule: flush_pending_segments.induct)
  case (1 st)
  obtain out st1 where s: "flush_scan st 0 = Some (out, st1)" "tcp_ok st1"
    "pending_byte_cap st1 = pending_byte_cap st"
    using flush_scan_ok [OF "1.prems", of 0] by auto
  with 1 show ?case
    by (cases out) (auto simp: flush_pending_segments.simps [of st])
qed

lemma tcp_ok_store:
  assumes "tcp_ok st" "length (pending st) < TCP_REASSEMBLY_MAX_PENDING_SEGMENTS" "0 < n"
    "pending_bytes st + n \<le> pending_byte_cap st" "length d = n"
  shows "tcp_ok (st\<lparr>pending := pending st @ [\<lparr>seg_sequence = q, seg_length = n, seg_data = d\<rparr>],
    pending_bytes := pending_bytes st + n\<rparr>)"
  using assms by (auto simp: tcp_ok_def seg_ok_def)

lemma store_out_of_order_ok:
  assumes "tcp_ok st" "allocator_ok m" "\<forall>p. payload = Some p \<longrightarrow> n \<le> length p"
  shows "\<exists>r st'. store_out_of_order_segment m st q payload n = Some (r, st') \<and> tcp_ok st' \<and>
    pending_byte_cap st' = pending_byte_cap st \<and>
    (if r then \<exists>p. payload = Some p \<and> st' = st\<lparr>pending := pending st @
         [\<lparr>seg_sequence = q, seg_length = n, seg_data = take n p\<rparr>], pending_bytes := pending_bytes st + n\<rparr>
     else st' = st)"
proof -
  have le: "pending_bytes st \<le> pending_byte_cap st" using assms(1) by (simp add: tcp_ok_def)
  show ?thesis
  proof (cases "length (pending st) \<ge> TCP_REASSEMBLY_MAX_PENDING_SEGMENTS \<or> payload = None \<or>
      n = 0 \<or> n > pending_byte_cap st \<or> n > pending_byte_cap st - pending_bytes st \<or> m n = None")
    case True
    then show ?thesis using assms(1) le
      by (intro exI [of _ False] exI [of _ st]) (auto simp: store_out_of_order_segment_def)
  next
    case False
    then obtain p blk where p: "payload = Some p" "m n = Some blk" by auto
    then have len: "n \<le> length p" "length blk = n" using assms by (auto dest: allocator_okD)
    have "tcp_ok (st\<lparr>pending := pending st @ [\<lparr>seg_sequence = q, seg_length = n,
        seg_data = take n p\<rparr>], pending_bytes := pending_bytes st + n\<rparr>)"
      using False assms(1) le len by (intro tcp_ok_store) auto
    then show ?thesis using False p len le
      by (intro exI [of _ True]) (simp add: store_out_of_order_segment_def mem_simps)
  qed
qed

lemma track_flags_ok [simp]: "tcp_ok (tcp_reassembly_track_flags st f) = tcp_ok st"
  by (simp add: tcp_reassembly_track_flags_def Let_def)

lemma track_flags_frame [simp]:
  "next_sequence (tcp_reassembly_track_flags st f) = next_sequence st"
  "initial_sequence_known (tcp_reassembly_track_flags st f) = initial_sequence_known st"
  "stream (tcp_reassembly_track_flags st f) = stream st"
  "pending (tcp_reassembly_track_flags st f) = pending st"
  "pending_bytes (tcp_reassembly_track_flags st f) = pending_bytes st"
  "pending_byte_cap (tcp_reassembly_track_flags st f) = pending_byte_cap st"
  "unusable (tcp_reassembly_track_flags st f) = unusable st"
  by (simp_all add: tcp_reassembly_track_flags_def Let_def)

lemma stream_room:
  assumes "tcp_ok st"
  shows "size_sub (sb_capacity (stream st)) (stream_buffer_length (stream st)) =
    sb_capacity (stream st) - length (sb_view (stream st))"
  using assms sb_view_le_capacity [of "stream st"] length_sb_view [of "stream st"]
  by (simp add: tcp_ok_def)

lemma append_best_effort_ok:
  assumes "tcp_ok st" "n \<le> length d"
  shows "\<exists>k b. append_stream_best_effort st d n = Some (k, st\<lparr>stream := b\<rparr>) \<and>
    tcp_ok (st\<lparr>stream := b\<rparr>) \<and> k \<le> n \<and> sb_view b = sb_view (stream st) @ take k d \<and>
    (sb_data (stream st) \<noteq> None \<longrightarrow> sb_data b \<noteq> None \<and>
       k = min n (pending_byte_cap st - length (sb_view (stream st))))"
proof -
  define room where "room = sb_capacity (stream st) - length (sb_view (stream st))"
  define k where "k = (if n < room then n else room)"
  show ?thesis
  proof (cases "k = 0")
    case True
    then show ?thesis using assms
      by (intro exI [of _ 0] exI [of _ "stream st"])
        (auto simp: append_stream_best_effort_def stream_room Let_def room_def k_def tcp_ok_def min_def
          split: if_splits)
  next
    case False
    have "k \<le> length d" using assms(2) by (simp add: k_def)
    from append_stream_data_ok [OF assms(1) this] obtain r b where
      a: "append_stream_data st d k = Some (r, st\<lparr>stream := b\<rparr>)" "tcp_ok (st\<lparr>stream := b\<rparr>)"
      "sb_view b = (if r then sb_view (stream st) @ take k d else sb_view (stream st))"
      "sb_data (stream st) \<noteq> None \<longrightarrow> sb_data b \<noteq> None \<and>
         r = (length (sb_view (stream st)) + k \<le> pending_byte_cap st)" by auto
    have r: "sb_data (stream st) \<noteq> None \<longrightarrow> r"
      using a(4) False assms(1) by (auto simp: k_def room_def tcp_ok_def split: if_splits)
    have def: "append_stream_best_effort st d n = Some (if \<not> r then 0 else k, st\<lparr>stream := b\<rparr>)"
      using False a(1)
      by (simp add: append_stream_best_effort_def stream_room [OF assms(1)] Let_def
          room_def [symmetric] k_def [symmetric])
    have room: "sb_data (stream st) \<noteq> None \<longrightarrow>
        room = pending_byte_cap st - length (sb_view (stream st))"
      using assms(1) by (simp add: room_def tcp_ok_def)
    have "k \<le> n" "k = min n room" by (simp_all add: k_def)
    with a(2-4) r room
    have "tcp_ok (st\<lparr>stream := b\<rparr>) \<and> (if \<not> r then 0 else k) \<le> n \<and>
        sb_view b = sb_view (stream st) @ take (if \<not> r then 0 else k) d \<and>
        (sb_data (stream st) \<noteq> None \<longrightarrow> sb_data b \<noteq> None \<and> (if \<not> r then 0 else k) =
          min n (pending_byte_cap st - length (sb_view (stream st))))"
      by (cases r) simp_all
    with def show ?thesis by blast
  qed
qed



lemma accept_in_order_ok:
  assumes "tcp_ok st" "n \<le> length d"
  shows "\<exists>r st'. accept_in_order st q f d n = Some (r, st') \<and> tcp_ok st' \<and>
    pending_byte_cap st' = pending_byte_cap st"
proof -
  obtain k b where a: "append_stream_best_effort st d n = Some (k, st\<lparr>stream := b\<rparr>)"
    "tcp_ok (st\<lparr>stream := b\<rparr>)"
    using append_best_effort_ok [OF assms] by auto
  have flush: "\<exists>r st'. flush_pending_segments (st\<lparr>stream := b, next_sequence := x\<rparr>) = Some (r, st') \<and>
      tcp_ok st' \<and> pending_byte_cap st' = pending_byte_cap st" for x
    using flush_pending_ok [of "st\<lparr>stream := b, next_sequence := x\<rparr>"] a(2) by simp
  show ?thesis
    using a flush [of "q + of_nat n"] flush [of "q + of_nat n + 1"]
    by (auto simp: accept_in_order_def Let_def)
qed

definition tcp_baseline :: "tcp_direction \<Rightarrow> u32 \<Rightarrow> u8 \<Rightarrow> tcp_direction" where
  "tcp_baseline st0 s flags =
     (let st1 = tcp_reassembly_track_flags st0 flags
      in if \<not> initial_sequence_known st1
         then st1\<lparr>next_sequence := payload_sequence s flags, initial_sequence_known := True\<rparr> else st1)"

lemma tcp_baseline_ok [simp]: "tcp_ok (tcp_baseline st s f) = tcp_ok st"
  by (simp add: tcp_baseline_def Let_def)

lemma tcp_baseline_frame [simp]:
  "stream (tcp_baseline st s f) = stream st"
  "pending (tcp_baseline st s f) = pending st"
  "pending_byte_cap (tcp_baseline st s f) = pending_byte_cap st"
  "unusable (tcp_baseline st s f) = unusable st"
  "initial_sequence_known (tcp_baseline st s f)"
  "initial_sequence_known st \<Longrightarrow> next_sequence (tcp_baseline st s f) = next_sequence st"
  "\<not> initial_sequence_known st \<Longrightarrow> next_sequence (tcp_baseline st s f) = payload_sequence s f"
  by (simp_all add: tcp_baseline_def Let_def)

text \<open>The branches of \<open>tcp_reassembly_process_segment\<close> after the baseline is set.\<close>

lemma process_segment_branches:
  fixes st s f
  assumes "\<not> unusable st" "0 < n" "n \<le> 4294967295" "payload = Some p"
  defines "b \<equiv> tcp_baseline st s f"
    and "q \<equiv> payload_sequence s f"
  shows "tcp_reassembly_process_segment m st s f payload n =
    (if sequence_before_or_equal (q + of_nat n) (next_sequence b) then
       Some (TCP_IGNORED, b\<lparr>retransmissions := retransmissions b + 1\<rparr>)
     else if sequence_before (next_sequence b) q then
       map_option (\<lambda>(r, st'). (if r then TCP_BUFFERED else TCP_DROPPED, st'))
         (store_out_of_order_segment m (b\<lparr>out_of_order_segments := out_of_order_segments b + 1,
            gaps := gaps b + 1\<rparr>) q payload n)
     else if sequence_before q (next_sequence b) then
       (let trim = unat (next_sequence b - q);
            b1 = b\<lparr>overlapping_segments := overlapping_segments b + 1\<rparr>
        in if trim \<ge> n then Some (TCP_IGNORED, b1\<lparr>retransmissions := retransmissions b1 + 1\<rparr>)
           else accept_in_order b1 (next_sequence b1) f (drop trim p) (n - trim))
     else accept_in_order b q f p n)"
  using assms(1-4)
  by (cases "store_out_of_order_segment m (b\<lparr>out_of_order_segments := out_of_order_segments b + 1,
            gaps := gaps b + 1\<rparr>) q payload n")
     (auto simp: tcp_reassembly_process_segment_def b_def q_def tcp_baseline_def Let_def)

lemma process_segment_ok [inv_intros]:
  assumes "tcp_ok st" "allocator_ok m" "\<forall>p. payload = Some p \<longrightarrow> n \<le> length p"
  shows "\<exists>r st'. tcp_reassembly_process_segment m st s f payload n = Some (r, st') \<and> tcp_ok st' \<and>
    pending_byte_cap st' = pending_byte_cap st"
proof (cases "unusable st \<or> n = 0 \<or> payload = None \<or> 4294967295 < n")
  case True
  then show ?thesis using assms(1)
    by (auto simp: tcp_reassembly_process_segment_def Let_def)
next
  case False
  then obtain p where p: "payload = Some p" "n \<le> length p" using assms(3) by auto
  define b where "b = tcp_baseline st s f"
  have b: "tcp_ok b" "pending_byte_cap b = pending_byte_cap st" using assms(1) by (simp_all add: b_def)
  have acc: "\<exists>r st'. accept_in_order (b\<lparr>overlapping_segments := x\<rparr>) q f (drop t p) (n - t) = Some (r, st') \<and>
      tcp_ok st' \<and> pending_byte_cap st' = pending_byte_cap st" for x q t
    using accept_in_order_ok [of "b\<lparr>overlapping_segments := x\<rparr>" "n - t" "drop t p" q f] b p by simp
  have acc0: "\<exists>r st'. accept_in_order b q f p n = Some (r, st') \<and>
      tcp_ok st' \<and> pending_byte_cap st' = pending_byte_cap st" for q
    using accept_in_order_ok [of b n p q f] b p by simp
  obtain r1 s1 where st: "store_out_of_order_segment m (b\<lparr>out_of_order_segments :=
      out_of_order_segments b + 1, gaps := gaps b + 1\<rparr>) (payload_sequence s f) payload n = Some (r1, s1)"
    "tcp_ok s1" "pending_byte_cap s1 = pending_byte_cap st"
    using store_out_of_order_ok [of "b\<lparr>out_of_order_segments := out_of_order_segments b + 1,
        gaps := gaps b + 1\<rparr>" m payload n "payload_sequence s f"] b assms by auto
  show ?thesis
    using False p acc acc0 st b
    by (subst process_segment_branches [where p = p])
       (auto simp: b_def [symmetric] Let_def)
qed

lemma direction_init_ok [inv_intros]:
  assumes "allocator_ok m" "n < 2147483648" "tcp_reassembly_direction_init m st n = (True, st')"
  shows "tcp_ok st' \<and> pending_byte_cap st' = n \<and> sb_data (stream st') \<noteq> None \<and>
    sb_view (stream st') = [] \<and> pending st' = [] \<and> \<not> unusable st' \<and> \<not> initial_sequence_known st'"
proof -
  obtain b where b: "stream_buffer_init m stream_buffer_zero n = (True, b)"
    and st': "st' = tcp_direction_zero\<lparr>stream := b, pending_byte_cap := n\<rparr>"
    using assms(3) by (auto simp: tcp_reassembly_direction_init_def tcp_direction_zero_def
        split: if_splits prod.splits)
  show ?thesis
    using init_live [OF assms(1) b] assms(2) st'
    by (auto simp: tcp_ok_def tcp_direction_zero_def sb_live_def)
qed

lemma tcp_ok_zero [simp]: "tcp_ok tcp_direction_zero"
  by (simp add: tcp_ok_def tcp_direction_zero_def)

lemma direction_init_any:
  assumes "allocator_ok m" "n < 2147483648" "tcp_reassembly_direction_init m st n = (r, st')" "tcp_ok st"
  shows "tcp_ok st'"
proof (cases r)
  case True
  then show ?thesis using direction_init_ok [OF assms(1,2)] assms(3) by simp
next
  case False
  then have "st' = st \<or> (\<exists>b. st' = tcp_direction_zero\<lparr>stream := b\<rparr> \<and> b = stream_buffer_zero)"
    using assms(3) by (auto simp: tcp_reassembly_direction_init_def stream_buffer_init_def
        tcp_direction_zero_def split: if_splits option.splits)
  then show ?thesis using assms(4) by (auto simp: tcp_ok_def tcp_direction_zero_def)
qed

lemma release_buffers_ok [inv_intros]:
  "tcp_ok st \<Longrightarrow> tcp_ok (tcp_reassembly_direction_release_buffers st)"
  by (simp add: tcp_ok_def tcp_reassembly_direction_release_buffers_def stream_buffer_cleanup_def)

lemma cleanup_ok: "tcp_ok (tcp_reassembly_direction_cleanup st)"
  by (simp add: tcp_reassembly_direction_cleanup_def)

section \<open>The stream against the sender's bytes\<close>


text \<open>
  The specification speaks of the byte stream \<open>S\<close> that the sender wrote, whose first byte has
  sequence number \<open>isn\<close> (any 32-bit number, so the sequence space wraps). \<open>seg_off isn s\<close> is the
  offset of a stored segment in \<open>S\<close>. \<open>tracks isn S b m st\<close> says that the direction, whose baseline
  is offset \<open>b\<close>, expects offset \<open>m\<close> next, that its stream is the part of \<open>S\<close> from \<open>b\<close> up to \<open>m\<close>, and
  that every stored segment is a part of \<open>S\<close>. A FIN occupies the offset after the last byte, so
  \<open>m\<close> is at most \<open>length S + 1\<close>.
\<close>

definition seg_off :: "u32 \<Rightarrow> tcp_segment \<Rightarrow> nat" where
  "seg_off isn s = unat (seg_sequence s - isn)"

definition seg_of :: "u32 \<Rightarrow> bytes \<Rightarrow> tcp_segment \<Rightarrow> bool" where
  "seg_of isn S s \<longleftrightarrow> seg_off isn s + seg_length s \<le> length S \<and>
     seg_data s = take (seg_length s) (drop (seg_off isn s) S)"

definition tracks :: "u32 \<Rightarrow> bytes \<Rightarrow> nat \<Rightarrow> nat \<Rightarrow> tcp_direction \<Rightarrow> bool" where
  "tracks isn S b m st \<longleftrightarrow> length S < 2147483647 \<and> b \<le> m \<and> m \<le> length S + 1 \<and>
     next_sequence st = isn + of_nat m \<and> initial_sequence_known st \<and>
     sb_data (stream st) \<noteq> None \<and> sb_view (stream st) = drop b (take m S) \<and>
     (\<forall>s \<in> set (pending st). seg_of isn S s)"

lemma seg_sequence_off: "seg_sequence s = isn + of_nat (seg_off isn s)"
  by (simp add: seg_off_def)

lemma tracks_counters [simp]:
  "tracks isn S b m (st\<lparr>retransmissions := x\<rparr>) = tracks isn S b m st"
  "tracks isn S b m (st\<lparr>overlapping_segments := x\<rparr>) = tracks isn S b m st"
  "tracks isn S b m (st\<lparr>out_of_order_segments := x\<rparr>) = tracks isn S b m st"
  "tracks isn S b m (st\<lparr>gaps := x\<rparr>) = tracks isn S b m st"
  "tracks isn S b m (st\<lparr>fin_seen := t\<rparr>) = tracks isn S b m st"
  "tracks isn S b m (st\<lparr>rst_seen := t\<rparr>) = tracks isn S b m st"
  "tracks isn S b m (st\<lparr>pending_bytes := n\<rparr>) = tracks isn S b m st"
  by (simp_all add: tracks_def)

lemma serial_order:
  assumes "length S < 2147483647" "a \<le> length S + 1" "c \<le> length S + 1"
  shows "sequence_before (isn + of_nat a) (isn + of_nat c) \<longleftrightarrow> a < c"
    and "sequence_before_or_equal (isn + of_nat a) (isn + of_nat c) \<longleftrightarrow> a \<le> c"
    and "c \<le> a \<Longrightarrow> unat ((isn + of_nat a) - (isn + of_nat c) :: u32) = a - c"
proof -
  show lt: "sequence_before (isn + of_nat a) (isn + of_nat c) \<longleftrightarrow> a < c"
    using assms by (intro sequence_before_offset) auto
  have "isn + of_nat a = (isn + of_nat c :: u32) \<longleftrightarrow> a = c"
    using assms by (intro offset_eq_iff) auto
  with lt show "sequence_before_or_equal (isn + of_nat a) (isn + of_nat c) \<longleftrightarrow> a \<le> c"
    by (auto simp: sequence_before_or_equal_def)
  show "unat ((isn + of_nat a) - (isn + of_nat c) :: u32) = a - c" if "c \<le> a"
  proof -
    have "(isn + of_nat a) - (isn + of_nat c) = (of_nat (a - c) :: u32)"
      using that by (simp add: of_nat_diff)
    moreover have "a - c < 4294967296" using assms by simp
    ultimately show ?thesis by (simp add: unat_of_nat take_bit_nat_eq_self)
  qed
qed

lemma set_remove_pending: "set (pending (remove_pending_at st i)) \<subseteq> set (pending st)"
  by (auto simp: remove_pending_at_def dest: in_set_takeD in_set_dropD)

lemma remove_pending_frame [simp]:
  "next_sequence (remove_pending_at st i) = next_sequence st"
  "initial_sequence_known (remove_pending_at st i) = initial_sequence_known st"
  "stream (remove_pending_at st i) = stream st"
  "unusable (remove_pending_at st i) = unusable st"
  "pending_byte_cap (remove_pending_at st i) = pending_byte_cap st"
  by (simp_all add: remove_pending_at_def)

lemma remove_pending_keeps:
  "i < length (pending st) \<Longrightarrow> s \<in> set (pending st) \<Longrightarrow>
     s \<in> set (pending (remove_pending_at st i)) \<or> s = pending st ! i"
  using id_take_nth_drop [of i "pending st"]
  by (auto simp: remove_pending_at_def) (metis Un_iff list.set_intros set_ConsD set_append)

lemma tracks_remove: "tracks isn S b m st \<Longrightarrow> tracks isn S b m (remove_pending_at st i)"
  using set_remove_pending [of st i] by (auto simp: tracks_def)

lemma drop_take_extend:
  assumes "b \<le> m" "m \<le> length S"
  shows "drop b (take m S) @ take k (drop m S) = drop b (take (m + k) S)"
  using assms by (simp add: take_add)

text \<open>
  The effect of an in-order append on \<open>tracks\<close>: \<open>off\<close> is the segment's offset, its first \<open>m - off\<close>
  bytes are already in the stream.
\<close>

lemma seg_tail:
  assumes "seg_of isn S s" "seg_off isn s \<le> m" "m \<le> seg_off isn s + seg_length s"
  shows "drop (m - seg_off isn s) (seg_data s) =
    take (seg_off isn s + seg_length s - m) (drop m S)"
  using assms by (simp add: seg_of_def drop_take add.commute)

lemma flush_guards:
  assumes "tracks isn S b m st" "seg_of isn S s"
  shows "sequence_before_or_equal (seg_sequence s + of_nat (seg_length s)) (next_sequence st)
      \<longleftrightarrow> seg_off isn s + seg_length s \<le> m" (is ?e)
    and "sequence_before_or_equal (seg_sequence s) (next_sequence st) \<longleftrightarrow> seg_off isn s \<le> m" (is ?s)
    and "seg_off isn s \<le> m \<Longrightarrow> unat (next_sequence st - seg_sequence s) = m - seg_off isn s"
    and "seg_sequence s + of_nat (seg_length s) = isn + of_nat (seg_off isn s + seg_length s)"
proof -
  define off where "off = seg_off isn s"
  have b: "length S < 2147483647" "m \<le> length S + 1" "off + seg_length s \<le> length S"
    "next_sequence st = isn + of_nat m"
    using assms by (simp_all add: tracks_def seg_of_def off_def)
  have q: "seg_sequence s = isn + of_nat off" using seg_sequence_off [of s isn] by (simp add: off_def)
  show end_eq: "seg_sequence s + of_nat (seg_length s) = isn + of_nat (seg_off isn s + seg_length s)"
    by (simp add: q off_def)
  show ?e unfolding end_eq b(4) off_def [symmetric] using b by (intro serial_order(2) [of S]) auto
  show ?s using q b serial_order(2) [of S off m isn] by (simp add: off_def)
  show "unat (next_sequence st - seg_sequence s) = m - seg_off isn s" if "seg_off isn s \<le> m"
    using q b that serial_order(3) [of S m off isn] by (simp add: off_def)
qed

lemma append_segment_tracks:
  assumes "tcp_ok st" "tracks isn S b m st" "seg_of isn S s" "length (seg_data s) = seg_length s"
    "seg_off isn s \<le> m" "m < seg_off isn s + seg_length s"
  obtains r bf where
    "append_stream_data st (drop (m - seg_off isn s) (seg_data s))
       (seg_length s - (m - seg_off isn s)) = Some (r, st\<lparr>stream := bf\<rparr>)"
    "if r then tracks isn S b (seg_off isn s + seg_length s)
         (st\<lparr>stream := bf, next_sequence := seg_sequence s + of_nat (seg_length s)\<rparr>)
     else sb_view bf = sb_view (stream st)"
proof -
  define off where "off = seg_off isn s"
  obtain r bf where a: "append_stream_data st (drop (m - off) (seg_data s))
      (seg_length s - (m - off)) = Some (r, st\<lparr>stream := bf\<rparr>)"
    "sb_view bf = (if r then sb_view (stream st) @ drop (m - off) (seg_data s) else sb_view (stream st))"
    "sb_data bf \<noteq> None"
    using append_stream_data_ok [OF assms(1), of "seg_length s - (m - off)"
        "drop (m - off) (seg_data s)"] assms(2,4) by (auto simp: tracks_def)
  have mS: "b \<le> m" "m \<le> length S" "off + seg_length s \<le> length S"
    using assms by (simp_all add: tracks_def seg_of_def off_def)
  have "tracks isn S b (off + seg_length s)
      (st\<lparr>stream := bf, next_sequence := seg_sequence s + of_nat (seg_length s)\<rparr>)" if r
    using that a(2,3) assms seg_tail [OF assms(3), of m] mS
      drop_take_extend [of b m S "off + seg_length s - m"] flush_guards(4) [OF assms(2,3)]
    by (simp add: tracks_def off_def)
  then show thesis
    using that [of r bf] a by (cases r) (simp_all add: off_def)
qed

lemma flush_scan_tracks:
  assumes "tcp_ok st" "tracks isn S b m st" "flush_scan st i = Some (out, st')"
  shows "(case out of
      Flush_Advanced \<Rightarrow> (\<exists>m'. m \<le> m' \<and> tracks isn S b m' st' \<and>
        (\<forall>s \<in> set (pending st). s \<in> set (pending st') \<or> seg_off isn s + seg_length s \<le> m'))
    | Flush_Stuck \<Rightarrow> st' = st \<and> (\<forall>j. i \<le> j \<longrightarrow> j < length (pending st) \<longrightarrow>
        m < seg_off isn (pending st ! j))
    | Flush_Failed \<Rightarrow> sb_view (stream st') = sb_view (stream st)) \<and>
    unusable st' = (if out = Flush_Failed then True else unusable st)"
  using assms
proof (induction st i rule: flush_scan.induct)
  case (1 st i)
  define s where "s = pending st ! i"
  define off where "off = seg_off isn s"
  consider (last) "\<not> i < length (pending st)"
    | (old) "i < length (pending st)" "off + seg_length s \<le> m"
    | (later) "i < length (pending st)" "m < off"
    | (use) "i < length (pending st)" "off \<le> m" "m < off + seg_length s"
    by linarith
  then show ?case
  proof cases
    case last
    then show ?thesis using "1.prems" by (simp add: flush_scan.simps [of st i])
  next
    case old
    then have so: "seg_of isn S s" using "1.prems"(2) by (simp add: tracks_def s_def)
    define st1 where "st1 = st\<lparr>retransmissions := retransmissions st + 1\<rparr>"
    have res: "out = Flush_Advanced" "st' = remove_pending_at st1 i"
      using "1.prems"(3) old flush_guards(1) [OF "1.prems"(2) so]
      by (auto simp: flush_scan.simps [of st i] Let_def s_def [symmetric] off_def st1_def)
    have "s' \<in> set (pending st') \<or> seg_off isn s' + seg_length s' \<le> m" if "s' \<in> set (pending st)" for s'
      using remove_pending_keeps [of i st1 s'] that res(2) old
      by (auto simp: s_def [symmetric] off_def [symmetric] st1_def)
    then show ?thesis
      using res "1.prems"(2) tracks_remove by (auto simp: st1_def intro!: exI [of _ m])
  next
    case later
    then have so: "seg_of isn S s" using "1.prems"(2) by (simp add: tracks_def s_def)
    note g = flush_guards [OF "1.prems"(2) so]
    have "flush_scan st i = flush_scan st (Suc i)"
      using later g(1,2) by (simp add: flush_scan.simps [of st i] Let_def s_def [symmetric] off_def)
    moreover have "m < seg_off isn (pending st ! i)" using later by (simp add: off_def s_def)
    moreover have "i \<le> j \<longleftrightarrow> j = i \<or> Suc i \<le> j" for j by auto
    ultimately show ?thesis
      using "1.IH" [OF later(1) s_def refl] later g(1,2) "1.prems"
      by (auto simp: off_def split: flush_outcome.splits)
  next
    case use
    then have so: "seg_of isn S s" using "1.prems"(2) by (simp add: tracks_def s_def)
    note g = flush_guards [OF "1.prems"(2) so]
    define st1 where "st1 = (if m - off > 0
      then st\<lparr>overlapping_segments := overlapping_segments st + 1\<rparr> else st)"
    have st1: "tcp_ok st1" "tracks isn S b m st1" "pending st1 = pending st"
      "stream st1 = stream st" "unusable st1 = unusable st"
      using "1.prems" by (simp_all add: st1_def)
    have "length (seg_data s) = seg_length s"
      using tcp_ok_pending [OF "1.prems"(1) use(1)] by (simp add: s_def)
    then obtain r bf where a: "append_stream_data st1 (drop (m - off) (seg_data s))
        (seg_length s - (m - off)) = Some (r, st1\<lparr>stream := bf\<rparr>)"
      "if r then tracks isn S b (off + seg_length s)
         (st1\<lparr>stream := bf, next_sequence := seg_sequence s + of_nat (seg_length s)\<rparr>)
       else sb_view bf = sb_view (stream st1)"
      using append_segment_tracks [OF st1(1,2) so] use unfolding off_def by blast
    define st2 where "st2 = st1\<lparr>stream := bf, next_sequence := seg_sequence s + of_nat (seg_length s)\<rparr>"
    have "flush_scan st i = do {
        (r, st2) \<leftarrow> append_stream_data st1 (drop (m - off) (seg_data s)) (seg_length s - (m - off));
        if \<not> r then Some (Flush_Failed, st2\<lparr>unusable := True\<rparr>)
        else Some (Flush_Advanced, remove_pending_at (st2\<lparr>next_sequence :=
          seg_sequence s + of_nat (seg_length s)\<rparr>) i) }"
      using use g(1-3)
      by (simp add: flush_scan.simps [of st i] Let_def s_def [symmetric] off_def [symmetric] st1_def)
    then have res: "(out, st') = (if \<not> r then (Flush_Failed, st1\<lparr>stream := bf, unusable := True\<rparr>)
        else (Flush_Advanced, remove_pending_at st2 i))"
      using "1.prems"(3) a(1) by (simp add: st2_def split: if_splits)
    have "s' \<in> set (pending (remove_pending_at st2 i)) \<or> seg_off isn s' + seg_length s' \<le> off + seg_length s"
      if "s' \<in> set (pending st)" for s'
      using remove_pending_keeps [of i st2 s'] that use st1(3)
      by (auto simp: s_def [symmetric] off_def [symmetric] st2_def)
    then show ?thesis
      using a(2) res use st1 tracks_remove [of isn S b "off + seg_length s" st2 i]
      by (cases r) (auto simp: st2_def intro!: exI [of _ "off + seg_length s"])
  qed
qed



definition waiting :: "u32 \<Rightarrow> nat \<Rightarrow> tcp_direction \<Rightarrow> bool" where
  "waiting isn m st \<longleftrightarrow> (\<forall>s \<in> set (pending st). m < seg_off isn s)"

text \<open>No stored segment is lost: it is still stored, or its bytes are before offset \<open>m\<close>.\<close>

definition kept :: "u32 \<Rightarrow> tcp_segment list \<Rightarrow> nat \<Rightarrow> tcp_direction \<Rightarrow> bool" where
  "kept isn segs m st \<longleftrightarrow>
     (\<forall>s \<in> set segs. s \<in> set (pending st) \<or> seg_off isn s + seg_length s \<le> m)"

lemma kept_trans:
  "kept isn segs m st \<Longrightarrow> kept isn (pending st) m' st' \<Longrightarrow> m \<le> m' \<Longrightarrow> kept isn segs m' st'"
  by (fastforce simp: kept_def)

lemma flush_pending_tracks:
  assumes "tcp_ok st" "tracks isn S b m st" "flush_pending_segments st = Some (r, st')"
  shows "\<exists>m'. m \<le> m' \<and> sb_view (stream st') = drop b (take m' S) \<and>
    (if r then tracks isn S b m' st' \<and> waiting isn m' st' \<and> kept isn (pending st) m' st' \<and>
       unusable st' = unusable st else unusable st')"
  using assms
proof (induction st arbitrary: m rule: flush_pending_segments.induct)
  case (1 st)
  obtain out st1 where s: "flush_scan st 0 = Some (out, st1)" "tcp_ok st1"
    using flush_scan_ok [OF "1.prems"(1), of 0] by auto
  note t = flush_scan_tracks [OF "1.prems"(1,2) s(1)]
  show ?case
  proof (cases out)
    case Flush_Advanced
    then obtain m1 where m1: "m \<le> m1" "tracks isn S b m1 st1" "kept isn (pending st) m1 st1"
      "unusable st1 = unusable st" using t by (auto simp: kept_def)
    have "flush_pending_segments st1 = Some (r, st')"
      using "1.prems"(3) s Flush_Advanced by (simp add: flush_pending_segments.simps [of st])
    then obtain m' where "m1 \<le> m'" "sb_view (stream st') = drop b (take m' S)"
      "if r then tracks isn S b m' st' \<and> waiting isn m' st' \<and> kept isn (pending st1) m' st' \<and>
        unusable st' = unusable st1 else unusable st'"
      using "1.IH" [OF s(1) refl Flush_Advanced s(2) m1(2)] by blast
    then show ?thesis using m1 kept_trans [OF m1(3)]
      by (intro exI [of _ m']) auto
  next
    case Flush_Stuck
    then have "r" "st' = st" "waiting isn m st"
      using "1.prems"(3) s t by (auto simp: flush_pending_segments.simps [of st] waiting_def in_set_conv_nth)
    then show ?thesis using "1.prems"(2)
      by (intro exI [of _ m]) (auto simp: kept_def tracks_def)
  next
    case Flush_Failed
    then have "\<not> r" "st' = st1" "sb_view (stream st1) = sb_view (stream st)" "unusable st1"
      using "1.prems"(3) s t by (auto simp: flush_pending_segments.simps [of st])
    then show ?thesis using "1.prems"(2)
      by (intro exI [of _ m]) (auto simp: tracks_def)
  qed
qed

lemma accept_in_order_tracks:
  assumes ok: "tcp_ok st" and tr: "tracks isn S b m st" and us: "\<not> unusable st"
    and n: "0 < n" "n \<le> length d" "take n d = take n (drop m S)" "m + n \<le> length S"
    and fin: "f AND TCP_FLAG_FIN \<noteq> 0 \<Longrightarrow> m + n = length S"
    and acc: "accept_in_order st (isn + of_nat m) f d n = Some (r, st')"
  shows "\<exists>m'. m \<le> m' \<and> sb_view (stream st') = drop b (take m' S) \<and>
    (\<not> unusable st' \<longrightarrow> tracks isn S b m' st' \<and> waiting isn m' st' \<and>
       kept isn (pending st) m' st' \<and> m + n \<le> m')"
proof -
  obtain k bf where a: "append_stream_best_effort st d n = Some (k, st\<lparr>stream := bf\<rparr>)"
    "tcp_ok (st\<lparr>stream := bf\<rparr>)" "k \<le> n" "sb_view bf = sb_view (stream st) @ take k d"
    "sb_data bf \<noteq> None"
    using append_best_effort_ok [OF ok n(2)] tr by (auto simp: tracks_def)
  have "take k d = take k (drop m S)" using n(3) a(3) by (metis min.absorb1 take_take)
  then have view: "sb_view bf = drop b (take (m + k) S)"
    using a(4) tr n(4) drop_take_extend [of b m S k] by (simp add: tracks_def)
  show ?thesis
  proof (cases "k < n")
    case True
    then have "unusable st'" "sb_view (stream st') = drop b (take (m + k) S)"
      using acc a(1) view by (auto simp: accept_in_order_def split: if_splits)
    then show ?thesis by (intro exI [of _ "m + k"]) simp
  next
    case False
    then have k: "k = n" using a(3) by simp
    define e where "e = (if f AND TCP_FLAG_FIN \<noteq> 0 then m + n + 1 else m + n)"
    define st3 where "st3 = st\<lparr>stream := bf, next_sequence := isn + of_nat e\<rparr>"
    have "sb_view bf = drop b (take e S)"
      using view k fin by (auto simp: e_def)
    moreover have "m \<le> e" "m + n \<le> e" "e \<le> length S + 1" using n(4) fin by (auto simp: e_def)
    ultimately have tr3: "tracks isn S b e st3"
      using tr a(5) by (auto simp: tracks_def st3_def)
    have ok3: "tcp_ok st3" using a(2) by (simp add: st3_def)
    have pre: "append_stream_best_effort st d n = Some (n, st\<lparr>stream := bf\<rparr>)" using a(1) k by simp
    have fl: "flush_pending_segments st3 = Some (\<not> (r = TCP_DROPPED), st')"
      using acc pre
      by (cases "f AND TCP_FLAG_FIN = 0")
        (auto simp: accept_in_order_def Let_def st3_def e_def bind_eq_Some_conv ac_simps split: if_splits)
    obtain m' where "e \<le> m'" "sb_view (stream st') = drop b (take m' S)"
      "if r \<noteq> TCP_DROPPED then tracks isn S b m' st' \<and> waiting isn m' st' \<and>
         kept isn (pending st3) m' st' \<and> unusable st' = unusable st3 else unusable st'"
      using flush_pending_tracks [OF ok3 tr3 fl] by blast
    then show ?thesis
      using us \<open>m \<le> e\<close> \<open>m + n \<le> e\<close>
      by (intro exI [of _ m']) (auto simp: st3_def split: if_splits)
  qed
qed

text \<open>
  A segment of the sender: \<open>ev_off\<close> is the offset of its first data byte. Its payload is a part of
  \<open>S\<close>; a FIN comes only with the end of the stream, and a bare segment may follow the FIN.
\<close>

type_synonym tcp_event = "u32 \<times> u8 \<times> bytes"

fun ev_off :: "u32 \<Rightarrow> tcp_event \<Rightarrow> nat" where
  "ev_off isn (s, f, p) = unat (payload_sequence s f - isn)"

fun sent_by :: "u32 \<Rightarrow> bytes \<Rightarrow> tcp_event \<Rightarrow> bool" where
  "sent_by isn S (s, f, p) \<longleftrightarrow>
     (let off = ev_off isn (s, f, p) in
      (if p = [] \<and> f AND TCP_FLAG_FIN = 0 then off \<le> length S + 1
       else off + length p \<le> length S) \<and>
      p = take (length p) (drop off S) \<and>
      (f AND TCP_FLAG_FIN \<noteq> 0 \<longrightarrow> off + length p = length S))"

fun tcp_run :: "allocator \<Rightarrow> tcp_direction \<Rightarrow> tcp_event list \<Rightarrow>
    (tcp_result list \<times> tcp_direction) option" where
  "tcp_run m st [] = Some ([], st)"
| "tcp_run m st ((s, f, p) # evs) = do {
     (r, st1) \<leftarrow> tcp_reassembly_process_segment m st s f (Some p) (length p);
     (rs, st2) \<leftarrow> tcp_run m st1 evs;
     Some (r # rs, st2)
   }"

text \<open>
  The invariant of a run: \<open>R\<close> holds the data segments that were not dropped. Each is delivered, or
  still stored behind a gap.
\<close>

definition accounted :: "u32 \<Rightarrow> tcp_event set \<Rightarrow> nat \<Rightarrow> tcp_direction \<Rightarrow> bool" where
  "accounted isn R m st \<longleftrightarrow> (\<forall>ev \<in> R. ev_off isn ev + length (snd (snd ev)) \<le> m \<or>
     (\<exists>s \<in> set (pending st). seg_off isn s = ev_off isn ev \<and> seg_length s = length (snd (snd ev))))"

definition tcp_run_inv :: "u32 \<Rightarrow> bytes \<Rightarrow> nat \<Rightarrow> tcp_event set \<Rightarrow> tcp_direction \<Rightarrow> bool" where
  "tcp_run_inv isn S b R st \<longleftrightarrow> tcp_ok st \<and> length S < 2147483647 \<and>
     (\<exists>m. b \<le> m \<and> sb_view (stream st) = drop b (take m S) \<and>
       (\<not> unusable st \<longrightarrow> tracks isn S b m st \<and> waiting isn m st \<and> accounted isn R m st))"

text \<open>A direction just initialised: nothing received, so the next segment is its baseline.\<close>

definition tcp_fresh :: "tcp_direction \<Rightarrow> bool" where
  "tcp_fresh st \<longleftrightarrow> tcp_ok st \<and> \<not> initial_sequence_known st \<and> \<not> unusable st \<and> pending st = [] \<and>
     sb_view (stream st) = [] \<and> sb_data (stream st) \<noteq> None"

text \<open>The state in which a segment is judged: the baseline is set, with \<open>k\<close> the offset expected.\<close>

definition tcp_ready :: "u32 \<Rightarrow> bytes \<Rightarrow> nat \<Rightarrow> tcp_event set \<Rightarrow> nat \<Rightarrow> tcp_direction \<Rightarrow> bool" where
  "tcp_ready isn S b R k c \<longleftrightarrow> tcp_ok c \<and> \<not> unusable c \<and> tracks isn S b k c \<and> waiting isn k c \<and>
     accounted isn R k c"

lemma accounted_kept:
  assumes "accounted isn R m st" "kept isn (pending st) m' st'" "m \<le> m'"
  shows "accounted isn R m' st'"
  unfolding accounted_def
proof
  fix ev assume "ev \<in> R"
  then consider "ev_off isn ev + length (snd (snd ev)) \<le> m"
    | s where "s \<in> set (pending st)" "seg_off isn s = ev_off isn ev" "seg_length s = length (snd (snd ev))"
    using assms(1) unfolding accounted_def by blast
  then show "ev_off isn ev + length (snd (snd ev)) \<le> m' \<or> (\<exists>s \<in> set (pending st').
      seg_off isn s = ev_off isn ev \<and> seg_length s = length (snd (snd ev)))"
    using assms(2,3) unfolding kept_def by cases auto
qed

lemma accounted_insert:
  "ev_off isn ev + length (snd (snd ev)) \<le> m \<Longrightarrow> accounted isn R m st \<Longrightarrow> accounted isn (insert ev R) m st"
  by (simp add: accounted_def)

lemma tracks_cong:
  assumes "tracks isn S b m st" "next_sequence st' = next_sequence st" "initial_sequence_known st'"
    "stream st' = stream st" "pending st' = pending st"
  shows "tracks isn S b m st'"
  using assms by (simp add: tracks_def)

lemma tcp_run_invI:
  assumes "tcp_ok st" "tracks isn S b m st" "waiting isn m st" "accounted isn R m st"
  shows "tcp_run_inv isn S b R st"
  unfolding tcp_run_inv_def using assms
  by (intro conjI exI [of _ m]) (simp_all add: tracks_def)

lemma ready_from_inv:
  assumes inv: "tcp_run_inv isn S b R st" and us: "\<not> unusable st"
  shows "\<exists>k. tcp_ready isn S b R k (tcp_baseline st s f)"
proof -
  obtain m where t: "tracks isn S b m st" "waiting isn m st" "accounted isn R m st" "tcp_ok st"
    using inv us unfolding tcp_run_inv_def by auto
  then have "initial_sequence_known st" by (simp add: tracks_def)
  then have "tracks isn S b m (tcp_baseline st s f)"
    by (intro tracks_cong [OF t(1)]) simp_all
  with t(2-4) us have "tcp_ready isn S b R m (tcp_baseline st s f)"
    by (auto simp: tcp_ready_def waiting_def accounted_def)
  then show ?thesis ..
qed

lemma ready_from_fresh:
  assumes fr: "tcp_fresh st" and ev: "sent_by isn S (s, f, p)" and len: "length S < 2147483647"
  shows "tcp_ready isn S (ev_off isn (s, f, p)) {} (ev_off isn (s, f, p)) (tcp_baseline st s f)"
proof -
  define m where "m = ev_off isn (s, f, p)"
  have "payload_sequence s f = isn + of_nat m" by (simp add: m_def)
  moreover have "m \<le> length S + 1" using ev by (auto simp: m_def Let_def split: if_splits)
  ultimately show ?thesis unfolding m_def [symmetric]
    using fr len by (simp add: tcp_ready_def tcp_fresh_def tracks_def waiting_def accounted_def)
qed

text \<open>One bare segment: only FIN moves the expected offset, past the end of the stream.\<close>

lemma bare_segment_inv:
  assumes rd: "tcp_ready isn S b R k (tcp_baseline st s f)" and us: "\<not> unusable st"
    and ev: "sent_by isn S (s, f, [])"
    and pr: "tcp_reassembly_process_segment m st s f (Some []) 0 = Some (r, st')"
  shows "tcp_run_inv isn S b R st'"
proof -
  have t: "tracks isn S b k (tcp_baseline st s f)" "waiting isn k (tcp_baseline st s f)"
    "accounted isn R k (tcp_baseline st s f)" using rd by (simp_all add: tcp_ready_def)
  define c where "c = tcp_baseline st s f"
  define q where "q = payload_sequence s f"
  have st': "st' = (if f AND TCP_FLAG_FIN \<noteq> 0 \<and> next_sequence c = q
      then c\<lparr>next_sequence := next_sequence c + 1\<rparr> else c)"
    using pr us by (auto simp: tcp_reassembly_process_segment_def Let_def tcp_baseline_def c_def q_def
        split: if_splits)
  have c: "tcp_ok c" using rd by (simp add: c_def tcp_ready_def)
  show ?thesis
  proof (cases "f AND TCP_FLAG_FIN \<noteq> 0 \<and> next_sequence c = q")
    case False
    then have "st' = c" using st' by auto
    then show ?thesis using tcp_run_invI c t unfolding c_def by blast
  next
    case True
    have "q = isn + of_nat (ev_off isn (s, f, []))" by (simp add: q_def)
    moreover have "ev_off isn (s, f, []) = length S" using ev True by (simp add: Let_def)
    ultimately have "isn + of_nat k = isn + of_nat (length S)"
      using t(1) True unfolding tracks_def c_def [symmetric] by metis
    then have k: "k = length S"
      using t(1) offset_eq_iff [of k "length S" isn] by (simp add: tracks_def)
    have "waiting isn (length S + 1) c"
      using t(1,2) k by (fastforce simp: waiting_def tracks_def seg_of_def c_def [symmetric])
    moreover have "tracks isn S b (length S + 1) st'"
      using st' True t(1) k by (simp add: tracks_def c_def [symmetric])
    ultimately show ?thesis using st' True c t(3) k
      by (intro tcp_run_invI [of st' isn S b "length S + 1"])
        (auto simp: waiting_def accounted_def c_def [symmetric])
  qed
qed



lemma accept_inv:
  assumes "tcp_ok c" "tracks isn S b k c" "accounted isn R k c" "\<not> unusable c"
    "0 < n" "n \<le> length d" "take n d = take n (drop k S)" "k + n \<le> length S"
    "f AND TCP_FLAG_FIN \<noteq> 0 \<Longrightarrow> k + n = length S"
    "accept_in_order c (isn + of_nat k) f d n = Some (r, st')"
    "ev_off isn ev + length (snd (snd ev)) = k + n"
  shows "tcp_run_inv isn S b (insert ev R) st'"
proof -
  obtain m' where m': "k \<le> m'" "sb_view (stream st') = drop b (take m' S)"
    "\<not> unusable st' \<longrightarrow> tracks isn S b m' st' \<and> waiting isn m' st' \<and>
       kept isn (pending c) m' st' \<and> k + n \<le> m'"
    using accept_in_order_tracks [OF assms(1,2,4-10)] by blast
  have "tcp_ok st'" using accept_in_order_ok [OF assms(1,6), of "isn + of_nat k" f] assms(10) by auto
  moreover have "\<not> unusable st' \<Longrightarrow> accounted isn (insert ev R) m' st'"
    using m' assms(11) accounted_kept [OF assms(3) _ m'(1)] by (intro accounted_insert) auto
  moreover have "length S < 2147483647" "b \<le> m'" using assms(2) m'(1) by (simp_all add: tracks_def)
  ultimately show ?thesis
    using m' tcp_run_invI [of st' isn S b m' "insert ev R"]
    by (cases "unusable st'") (unfold tcp_run_inv_def, blast+)
qed

lemma tcp_run_inv_mono:
  assumes inv: "tcp_run_inv isn S b R' st" and sub: "R \<subseteq> R'"
  shows "tcp_run_inv isn S b R st"
proof -
  have "accounted isn R' m st \<Longrightarrow> accounted isn R m st" for m using sub by (auto simp: accounted_def)
  with inv show ?thesis unfolding tcp_run_inv_def by blast
qed

lemma store_inv:
  assumes c: "tcp_ok c" "tracks isn S b k c" "waiting isn k c" "accounted isn R k c"
    and al: "allocator_ok al"
    and off: "q = isn + of_nat off" "off + length p \<le> length S" "p = take (length p) (drop off S)" "k < off"
    and st: "store_out_of_order_segment al c q (Some p) (length p) = Some (stored, st')"
    and ev: "ev_off isn ev = off" "snd (snd ev) = p"
  shows "tcp_run_inv isn S b (if stored then insert ev R else R) st'"
proof -
  define s where "s = \<lparr>seg_sequence = q, seg_length = length p, seg_data = p\<rparr>"
  have r: "tcp_ok st'" "if stored then st' = c\<lparr>pending := pending c @ [s],
      pending_bytes := pending_bytes c + length p\<rparr> else st' = c"
    using store_out_of_order_ok [OF c(1) al, of "Some p" "length p" q] st by (auto simp: s_def)
  have "length S < 2147483647" using c(2) by (simp add: tracks_def)
  then have so: "seg_off isn s = off"
    using off(1,2) by (simp add: seg_off_def s_def unat_of_nat take_bit_nat_eq_self)
  show ?thesis
  proof (cases stored)
    case False
    then show ?thesis using r c by (simp add: tcp_run_invI)
  next
    case True
    then have st': "st' = c\<lparr>pending := pending c @ [s], pending_bytes := pending_bytes c + length p\<rparr>"
      using r by simp
    have seg: "seg_of isn S s" using so off(2,3) by (simp add: seg_of_def s_def)
    have "tracks isn S b k st'" using c(2) seg by (auto simp: tracks_def st')
    moreover have "waiting isn k st'" using c(3) so off(4) by (auto simp: waiting_def st')
    moreover have "accounted isn (insert ev R) k st'"
      using c(4) so ev by (auto simp: accounted_def st' s_def)
    ultimately show ?thesis using True r(1) tcp_run_invI by simp
  qed
qed

lemma data_segment_inv:
  assumes rd: "tcp_ready isn S b R k (tcp_baseline st s f)" and us: "\<not> unusable st"
    and ev: "sent_by isn S (s, f, p)" and p: "p \<noteq> []" and al: "allocator_ok al"
    and pr: "tcp_reassembly_process_segment al st s f (Some p) (length p) = Some (r, st')"
  shows "tcp_run_inv isn S b (if r = TCP_DROPPED then R else insert (s, f, p) R) st'"
proof -
  define off where "off = ev_off isn (s, f, p)"
  define c where "c = tcp_baseline st s f"
  have t: "tracks isn S b k c" "waiting isn k c" "accounted isn R k c"
    using rd unfolding c_def tcp_ready_def by simp_all
  have ok: "tcp_ok c" "\<not> unusable c" "length S < 2147483647"
    using rd by (simp_all add: c_def tcp_ready_def tracks_def)
  have e: "off + length p \<le> length S" "p = take (length p) (drop off S)"
    "f AND TCP_FLAG_FIN \<noteq> 0 \<Longrightarrow> off + length p = length S"
    using ev p by (auto simp: off_def Let_def split: if_splits)
  have q: "payload_sequence s f = isn + of_nat off" by (simp add: off_def)
  have k: "next_sequence c = isn + of_nat k" "k \<le> length S + 1" using t(1) by (simp_all add: tracks_def)
  have n: "0 < length p" "length p \<le> 4294967295" using p e(1) ok(3) by auto
  have end_eq: "isn + of_nat off + of_nat (length p) = isn + of_nat (off + length p)" by simp
  have c1: "sequence_before_or_equal (isn + of_nat off + of_nat (length p)) (isn + of_nat k)
      \<longleftrightarrow> off + length p \<le> k"
    unfolding end_eq using serial_order(2) [OF ok(3), of "off + length p" k] e(1) k(2) by simp
  have c2: "sequence_before (isn + of_nat k) (isn + of_nat off) \<longleftrightarrow> k < off"
    and c3: "sequence_before (isn + of_nat off) (isn + of_nat k) \<longleftrightarrow> off < k"
    using serial_order(1) [OF ok(3)] e(1) k(2) by simp_all
  have trim: "off < k \<Longrightarrow> unat ((isn + of_nat k) - (isn + of_nat off)) = k - off"
    using serial_order(3) [OF ok(3) k(2), of off isn] e(1) by simp
  note br = process_segment_branches [OF us n refl, of al s f p, unfolded c_def [symmetric] q k(1) c1 c2 c3 pr]
  consider (old) "off + length p \<le> k" | (gap) "k < off" | (over) "off < k" "k < off + length p"
    | (exact) "off = k" by linarith
  then show ?thesis
  proof cases
    case old
    then have "r = TCP_IGNORED" "st' = c\<lparr>retransmissions := retransmissions c + 1\<rparr>"
      using br by simp_all
    then show ?thesis
      using t ok(1) old accounted_insert [of isn "(s, f, p)" k R c]
        tcp_run_invI [of st' isn S b k "insert (s, f, p) R"]
      by (simp add: waiting_def accounted_def off_def del: ev_off.simps)
  next
    case gap
    define c1 where "c1 = c\<lparr>out_of_order_segments := out_of_order_segments c + 1, gaps := gaps c + 1\<rparr>"
    obtain sd where sd: "store_out_of_order_segment al c1 (isn + of_nat off) (Some p) (length p) = Some (sd, st')"
      "r = (if sd then TCP_BUFFERED else TCP_DROPPED)"
      using br gap e(1)
      by (cases "store_out_of_order_segment al c1 (isn + of_nat off) (Some p) (length p)")
        (auto simp: c1_def [symmetric])
    have "tcp_run_inv isn S b (if sd then insert (s, f, p) R else R) st'"
      using t ok(1) gap e(1,2) off_def
      by (intro store_inv [OF _ _ _ _ al refl _ _ _ sd(1), where b = b and k = k])
        (simp_all add: c1_def waiting_def accounted_def del: ev_off.simps)
    then show ?thesis using sd(2) by auto
  next
    case over
    define c1 where "c1 = c\<lparr>overlapping_segments := overlapping_segments c + 1\<rparr>"
    have acc: "accept_in_order c1 (isn + of_nat k) f (drop (k - off) p) (length p - (k - off)) = Some (r, st')"
    proof -
      have "next_sequence c1 = isn + of_nat k" "\<not> length p \<le> k - off" using k(1) over by (auto simp: c1_def)
      then show ?thesis using br over trim by (simp add: c1_def [symmetric] Let_def)
    qed
    have "drop (k - off) p = take (length p - (k - off)) (drop k S)"
      using over by (subst e(2)) (simp add: drop_take)
    then have "tcp_run_inv isn S b (insert (s, f, p) R) st'"
      using t ok over e off_def
      by (intro accept_inv [OF _ _ _ _ _ _ _ _ _ acc, where b = b and R = R])
        (simp_all add: c1_def accounted_def del: ev_off.simps)
    then show ?thesis by (auto intro: tcp_run_inv_mono)
  next
    case exact
    have "accept_in_order c (isn + of_nat k) f p (length p) = Some (r, st')"
      using br exact p by simp
    then have "tcp_run_inv isn S b (insert (s, f, p) R) st'"
      using t ok exact e n
      by (intro accept_inv [where b = b and R = R and d = p]) (simp_all add: off_def del: ev_off.simps)
    then show ?thesis by (auto intro: tcp_run_inv_mono)
  qed
qed

section \<open>Runs of segments\<close>


lemma process_unusable: "unusable st \<Longrightarrow>
    tcp_reassembly_process_segment m st s f p n = Some (TCP_DROPPED, st)"
  by (simp add: tcp_reassembly_process_segment_def)

text \<open>One segment of the sender, in either state.\<close>

lemma segment_inv:
  assumes "tcp_ready isn S b R k (tcp_baseline st s f)" "\<not> unusable st" "sent_by isn S (s, f, p)"
    "allocator_ok al" "tcp_reassembly_process_segment al st s f (Some p) (length p) = Some (r, st')"
  shows "tcp_run_inv isn S b (if r = TCP_DROPPED \<or> p = [] then R else insert (s, f, p) R) st'"
  using bare_segment_inv [of isn S b R k st s f al r st'] data_segment_inv [OF assms(1-3)] assms
  by (cases "p = []") auto

text \<open>The data segments of a run that were accepted, stored or ignored.\<close>

fun not_dropped :: "tcp_event list \<Rightarrow> tcp_result list \<Rightarrow> tcp_event list" where
  "not_dropped (ev # evs) (r # rs) =
     (if r = TCP_DROPPED \<or> snd (snd ev) = [] then not_dropped evs rs else ev # not_dropped evs rs)"
| "not_dropped _ _ = []"

lemma tcp_run_from_inv:
  assumes "allocator_ok al"
  shows "tcp_run_inv isn S b R st \<Longrightarrow> \<forall>ev \<in> set evs. sent_by isn S ev \<Longrightarrow>
    \<exists>rs st'. tcp_run al st evs = Some (rs, st') \<and> pending_byte_cap st' = pending_byte_cap st \<and>
      tcp_run_inv isn S b (R \<union> set (not_dropped evs rs)) st'"
proof (induction evs arbitrary: st R)
  case (Cons ev evs)
  obtain s f p where ev: "ev = (s, f, p)" by (cases ev) auto
  have ok: "tcp_ok st" using Cons.prems(1) by (simp add: tcp_run_inv_def)
  obtain r st1 where pr: "tcp_reassembly_process_segment al st s f (Some p) (length p) = Some (r, st1)"
    "pending_byte_cap st1 = pending_byte_cap st"
    using process_segment_ok [OF ok assms, of "Some p" "length p" s f] by auto
  define R1 where "R1 = (if r = TCP_DROPPED \<or> p = [] then R else insert (s, f, p) R)"
  have "tcp_run_inv isn S b R1 st1"
  proof (cases "unusable st")
    case True
    then show ?thesis using pr process_unusable [OF True] Cons.prems(1) by (simp add: R1_def)
  next
    case False
    obtain k where "tcp_ready isn S b R k (tcp_baseline st s f)"
      using ready_from_inv [OF Cons.prems(1) False] by blast
    then show ?thesis unfolding R1_def
      using segment_inv [OF _ False _ assms pr(1)] Cons.prems(2) ev by simp
  qed
  then obtain rs st' where "tcp_run al st1 evs = Some (rs, st')" "pending_byte_cap st' = pending_byte_cap st1"
    "tcp_run_inv isn S b (R1 \<union> set (not_dropped evs rs)) st'"
    using Cons.IH [of R1 st1] Cons.prems(2) by auto
  then show ?case using pr by (auto simp: ev R1_def)
qed auto

lemma tcp_run_from_fresh:
  assumes al: "allocator_ok al" and fr: "tcp_fresh st" and len: "length S < 2147483647"
    and evs: "\<forall>ev \<in> set (ev # evs). sent_by isn S ev"
  shows "\<exists>rs st'. tcp_run al st (ev # evs) = Some (rs, st') \<and>
    pending_byte_cap st' = pending_byte_cap st \<and>
    tcp_run_inv isn S (ev_off isn ev) (set (not_dropped (ev # evs) rs)) st'"
proof -
  obtain s f p where ev: "ev = (s, f, p)" by (cases ev) auto
  define b where "b = ev_off isn ev"
  have ok: "tcp_ok st" "\<not> unusable st" using fr by (simp_all add: tcp_fresh_def)
  obtain r st1 where pr: "tcp_reassembly_process_segment al st s f (Some p) (length p) = Some (r, st1)"
    "pending_byte_cap st1 = pending_byte_cap st"
    using process_segment_ok [OF ok(1) al, of "Some p" "length p" s f] by auto
  have se: "sent_by isn S (s, f, p)" using evs ev by simp
  have "tcp_run_inv isn S b (if r = TCP_DROPPED \<or> p = [] then {} else {(s, f, p)}) st1"
    using segment_inv [OF ready_from_fresh [OF fr se len] ok(2) se al pr(1)] by (simp add: b_def ev)
  then obtain rs st' where "tcp_run al st1 evs = Some (rs, st')" "pending_byte_cap st' = pending_byte_cap st1"
    "tcp_run_inv isn S b ((if r = TCP_DROPPED \<or> p = [] then {} else {(s, f, p)}) \<union> set (not_dropped evs rs)) st'"
    using tcp_run_from_inv [OF al, of isn S b _ st1 evs] evs by fastforce
  then show ?thesis using pr unfolding ev b_def
    by (auto simp del: ev_off.simps split: if_splits)
qed

lemma init_fresh:
  assumes "allocator_ok m" "n < 2147483648" "tcp_reassembly_direction_init m st0 n = (True, st)"
  shows "tcp_fresh st \<and> pending_byte_cap st = n"
  using direction_init_ok [OF assms] by (simp add: tcp_fresh_def)



lemma remove_pending_flags [simp]:
  "fin_seen (remove_pending_at st i) = fin_seen st" "rst_seen (remove_pending_at st i) = rst_seen st"
  by (simp_all add: remove_pending_at_def)










section \<open>Properties\<close>

text \<open>C8. Stream integrity, for a sent stream \<open>S\<close> of fewer than \<open>2 ^ 31 - 1\<close> bytes (the range in which
  serial-number comparison is meaningful) and a cap below \<open>2 ^ 31\<close>. Whatever segments of \<open>S\<close> arrive, in any order,
  repeated, overlapping or lost, with any initial sequence number (so across the wrap of the 32-bit
  sequence space), processing them never leaves a buffer, and the bytes handed to the decoders are
  one contiguous part of \<open>S\<close>, no longer than the configured cap: no byte is spliced across a
  gap, duplicated or reordered. The bound on \<open>S\<close> is needed: \<open>long_stream_spliced\<close> below.\<close>

theorem tcp_stream_contiguous:
  assumes "allocator_ok al" "tcp_reassembly_direction_init al st0 cap = (True, st)"
    "cap < 2147483648" "length S < 2147483647" "\<forall>ev \<in> set evs. sent_by isn S ev"
  shows "\<exists>rs st' b e. tcp_run al st evs = Some (rs, st') \<and> b \<le> e \<and>
    sb_view (stream st') = drop b (take e S) \<and> length (sb_view (stream st')) \<le> cap"
proof -
  have fr: "tcp_fresh st" "pending_byte_cap st = cap" using init_fresh [OF assms(1,3,2)] by auto
  show ?thesis
  proof (cases evs)
    case Nil
    then show ?thesis using fr by (auto simp: tcp_fresh_def intro!: exI [of _ 0])
  next
    case (Cons ev evs')
    obtain rs st' where r: "tcp_run al st evs = Some (rs, st')" "pending_byte_cap st' = cap"
      "tcp_run_inv isn S (ev_off isn ev) (set (not_dropped evs rs)) st'"
      using tcp_run_from_fresh [OF assms(1) fr(1) assms(4), of ev evs' isn] assms(5) fr(2) Cons by auto
    moreover have "length (sb_view (stream st')) \<le> cap"
      using r(2,3) sb_view_le_capacity [of "stream st'"]
      by (cases "sb_data (stream st')") (auto simp: tcp_run_inv_def tcp_ok_def sb_view_def)
    ultimately show ?thesis unfolding tcp_run_inv_def by blast
  qed
qed

text \<open>C9. Completeness, for a sent stream of fewer than \<open>2 ^ 31 - 1\<close> bytes. If the direction did not overflow and
  every byte from the first segment on lies in some segment that was not dropped, then the stream is all of
  the sender's bytes from that point: out-of-order arrival loses nothing.\<close>

theorem tcp_stream_complete:
  assumes "allocator_ok al" "tcp_reassembly_direction_init al st0 cap = (True, st)"
    "cap < 2147483648" "length S < 2147483647" "\<forall>ev \<in> set (ev # evs). sent_by isn S ev"
    "tcp_run al st (ev # evs) = Some (rs, st')" "\<not> unusable st'"
    "\<forall>x. ev_off isn ev \<le> x \<and> x < length S \<longrightarrow> (\<exists>e \<in> set (not_dropped (ev # evs) rs).
       ev_off isn e \<le> x \<and> x < ev_off isn e + length (snd (snd e)))"
  shows "sb_view (stream st') = drop (ev_off isn ev) S"
proof -
  have fr: "tcp_fresh st" "pending_byte_cap st = cap" using init_fresh [OF assms(1,3,2)] by auto
  define R where "R = set (not_dropped (ev # evs) rs)"
  have "tcp_run_inv isn S (ev_off isn ev) R st'"
    using tcp_run_from_fresh [OF assms(1) fr(1) assms(4,5)] assms(6) by (auto simp: R_def)
  then obtain m where m: "ev_off isn ev \<le> m" "sb_view (stream st') = drop (ev_off isn ev) (take m S)"
    "waiting isn m st'" "accounted isn R m st'"
    using assms(7) unfolding tcp_run_inv_def by auto
  have "length S \<le> m"
  proof (rule ccontr)
    assume "\<not> ?thesis"
    then obtain e where "e \<in> R" "ev_off isn e \<le> m" "m < ev_off isn e + length (snd (snd e))"
      using assms(8) m(1) unfolding R_def by (meson not_le)
    then show False using m(3,4) unfolding accounted_def waiting_def by fastforce
  qed
  then show ?thesis using m(2) by simp
qed

text \<open>C10. Bounded memory. Whatever segments arrive, also ones that contradict each other, the
  direction stays well formed: it never touches memory outside its buffers, stores at most eight
  segments, and holds at most twice the configured cap.\<close>

theorem tcp_direction_bounded:
  assumes "allocator_ok al" "tcp_reassembly_direction_init al st0 cap = (True, st)" "cap < 2147483648"
  shows "\<exists>rs st'. tcp_run al st evs = Some (rs, st') \<and>
    length (pending st') \<le> TCP_REASSEMBLY_MAX_PENDING_SEGMENTS \<and>
    length (sb_view (stream st')) + sum_list (map (length \<circ> seg_data) (pending st')) \<le> 2 * cap"
proof -
  have run: "tcp_ok st1 \<Longrightarrow> \<exists>rs st'. tcp_run al st1 evs = Some (rs, st') \<and> tcp_ok st' \<and>
      pending_byte_cap st' = pending_byte_cap st1" for st1
  proof (induction evs arbitrary: st1)
    case (Cons ev evs)
    obtain s f p where ev: "ev = (s, f, p)" by (cases ev) auto
    show ?case
      using process_segment_ok [OF Cons.prems assms(1), of "Some p" "length p" s f] Cons.IH
      by (fastforce simp: ev)
  qed auto
  have "tcp_ok st" "pending_byte_cap st = cap"
    using init_fresh [OF assms(1,3,2)] by (auto simp: tcp_fresh_def)
  then obtain rs st' where r: "tcp_run al st evs = Some (rs, st')" "tcp_ok st'" "pending_byte_cap st' = cap"
    using run by metis
  have eq: "map (length \<circ> seg_data) (pending st') = map seg_length (pending st')"
    using r(2) by (simp add: tcp_ok_def seg_ok_def)
  have "sum_list (map seg_length (pending st')) \<le> cap"
    "length (pending st') \<le> TCP_REASSEMBLY_MAX_PENDING_SEGMENTS"
    using r(2,3) by (auto simp: tcp_ok_def)
  moreover have "length (sb_view (stream st')) \<le> cap"
    using r(2,3) sb_view_le_capacity [of "stream st'"]
    by (cases "sb_data (stream st')") (auto simp: tcp_ok_def sb_view_def)
  ultimately have "length (sb_view (stream st')) + sum_list (map (length \<circ> seg_data) (pending st')) \<le> 2 * cap"
    unfolding eq by linarith
  then show ?thesis using r(1) \<open>length (pending st') \<le> _\<close> by blast
qed


section \<open>A concrete run\<close>

text \<open>Four bytes sent from sequence number \<open>2 ^ 32 - 1\<close>: the third and fourth arrive before the
  second, and a retransmission with FIN comes last.\<close>

definition ex_dir :: tcp_direction where
  "ex_dir = snd (tcp_reassembly_direction_init ex_malloc tcp_direction_zero 16)"

definition ex_evs :: "tcp_event list" where
  "ex_evs = [(4294967295, 0, [1]), (1, 0, [3, 4]), (0, 0, [2]), (0, 1, [2, 3, 4])]"

lemma ex_dir_init: "tcp_reassembly_direction_init ex_malloc tcp_direction_zero 16 = (True, ex_dir)"
  by (simp add: ex_dir_def tcp_reassembly_direction_init_def stream_buffer_init_def ex_malloc_def
      split: prod.splits)

lemma ex_evs_sent: "\<forall>ev \<in> set ex_evs. sent_by 4294967295 [1, 2, 3, 4] ev"
  by code_simp

lemma ex_run: "map_option (\<lambda>(rs, st). (rs, unusable st)) (tcp_run ex_malloc ex_dir ex_evs) =
    Some ([TCP_ACCEPTED, TCP_BUFFERED, TCP_ACCEPTED, TCP_IGNORED], False)"
  by code_simp

theorem tcp_stream_contiguous_witness:
  "\<exists>rs st' b e. tcp_run ex_malloc ex_dir ex_evs = Some (rs, st') \<and> b \<le> e \<and>
    sb_view (stream st') = drop b (take e [1, 2, 3, 4]) \<and> length (sb_view (stream st')) \<le> 16"
  by (rule tcp_stream_contiguous [OF ex_malloc_ok ex_dir_init, where isn = 4294967295])
    (use ex_evs_sent in simp_all)

lemma ex_covered:
  "\<forall>x \<in> set [0..<4]. \<exists>e \<in> set (not_dropped ex_evs [TCP_ACCEPTED, TCP_BUFFERED, TCP_ACCEPTED, TCP_IGNORED]).
     ev_off 4294967295 e \<le> x \<and> x < ev_off 4294967295 e + length (snd (snd e))"
  by code_simp

theorem tcp_stream_complete_witness:
  "\<exists>rs st'. tcp_run ex_malloc ex_dir ex_evs = Some (rs, st') \<and> sb_view (stream st') = [1, 2, 3, 4]"
proof -
  obtain st' where r: "tcp_run ex_malloc ex_dir ex_evs =
      Some ([TCP_ACCEPTED, TCP_BUFFERED, TCP_ACCEPTED, TCP_IGNORED], st')" "\<not> unusable st'"
    using ex_run by (auto simp: map_option_case split: option.splits prod.splits)
  have evs: "ex_evs = (4294967295, 0, [1]) # tl ex_evs" by (simp add: ex_evs_def)
  have off: "ev_off 4294967295 (4294967295, 0, [1]) = 0" by (simp add: payload_sequence_def)
  have cov: "\<forall>x. ev_off 4294967295 (4294967295, 0, [1]) \<le> x \<and> x < length [1, 2, 3, 4 :: u8] \<longrightarrow>
     (\<exists>e \<in> set (not_dropped ex_evs [TCP_ACCEPTED, TCP_BUFFERED, TCP_ACCEPTED, TCP_IGNORED]).
        ev_off 4294967295 e \<le> x \<and> x < ev_off 4294967295 e + length (snd (snd e)))"
  proof (intro allI impI)
    fix x assume "ev_off 4294967295 (4294967295, 0, [1]) \<le> x \<and> x < length [1, 2, 3, 4 :: u8]"
    then have "x \<in> set [0..<4]" by auto
    then show "\<exists>e \<in> set (not_dropped ex_evs [TCP_ACCEPTED, TCP_BUFFERED, TCP_ACCEPTED, TCP_IGNORED]).
        ev_off 4294967295 e \<le> x \<and> x < ev_off 4294967295 e + length (snd (snd e))"
      by (rule ex_covered [rule_format])
  qed
  have "sb_view (stream st') = drop (ev_off 4294967295 (4294967295, 0, [1])) [1, 2, 3, 4]"
  proof (rule tcp_stream_complete [OF ex_malloc_ok ex_dir_init])
    show "\<forall>ev \<in> set ((4294967295, 0, [1]) # tl ex_evs). sent_by 4294967295 [1, 2, 3, 4] ev"
      unfolding evs [symmetric] by (rule ex_evs_sent)
    show "tcp_run ex_malloc ex_dir ((4294967295, 0, [1]) # tl ex_evs) =
        Some ([TCP_ACCEPTED, TCP_BUFFERED, TCP_ACCEPTED, TCP_IGNORED], st')"
      unfolding evs [symmetric] by (rule r(1))
    show "\<not> unusable st'" by (rule r(2))
  qed (simp, simp, unfold evs [symmetric], rule cov)
  then show ?thesis using r off by auto
qed

theorem tcp_direction_bounded_witness:
  "\<exists>rs st'. tcp_run ex_malloc ex_dir ex_evs = Some (rs, st') \<and>
    length (pending st') \<le> TCP_REASSEMBLY_MAX_PENDING_SEGMENTS \<and>
    length (sb_view (stream st')) + sum_list (map (length \<circ> seg_data) (pending st')) \<le> 2 * 16"
  by (rule tcp_direction_bounded [OF ex_malloc_ok ex_dir_init]) simp


section \<open>A stream longer than the sequence space\<close>

text \<open>
  Sequence numbers repeat after \<open>2 ^ 32\<close> bytes. When everything between two segments that far apart was lost,
  the later one continues the stream as if nothing were missing.
\<close>

lemma not_adjacent:
  assumes "0 < n"
  shows "drop b (take e (1 # replicate n 3 @ [2])) \<noteq> [1, 2 :: u8]"
proof
  let ?S = "1 # replicate n 3 @ [2 :: u8]"
  assume d: "drop b (take e ?S) = [1, 2]"
  then have "length (drop b (take e ?S)) = 2" by simp
  then have l: "b + 2 \<le> e" "b + 2 \<le> n + 2" by auto
  have "?S ! (b + i) = [1, 2] ! i" if "i < 2" for i
    using that l d [symmetric] by (simp del: nth_Cons_Suc)
  from this [of 0] this [of 1] show False using assms l by (auto simp: nth_Cons' nth_append split: if_splits)
qed

lemma ex_spliced:
  "map_option (\<lambda>(rs, st). sb_view (stream st)) (tcp_run ex_malloc ex_dir [(0, 0, [1]), (1, 0, [2])]) = Some [1, 2]"
  by code_simp

lemma long_stream_spliced:
  fixes S :: bytes
  assumes S: "S = 1 # replicate (2 ^ 32) 3 @ [2]"
  shows "\<exists>rs st'. tcp_run ex_malloc ex_dir [(0, 0, take 1 S), (of_nat (2 ^ 32 + 1), 0, drop (2 ^ 32 + 1) S)] = Some (rs, st') \<and>
    sb_view (stream st') = [1, 2] \<and> (\<forall>b e. drop b (take e S) \<noteq> [1, 2])"
proof -
  have "drop (n + 1) (1 # replicate n 3 @ [2]) = [2 :: u8]" for n by simp
  from this [of "2 ^ 32"] have d: "drop (2 ^ 32 + 1) S = [2]" unfolding S .
  have t: "take 1 S = [1]" by (simp add: S)
  have q: "of_nat (2 ^ 32 + 1) = (1 :: u32)" by simp
  have "\<forall>b e. drop b (take e S) \<noteq> [1, 2]" unfolding S using not_adjacent [of "2 ^ 32"] by simp
  then show ?thesis unfolding d t q using ex_spliced by (auto simp: map_option_case split: option.splits)
qed

end
