(* ===== verification/Byte_Reader.thy ===== *)
theory Byte_Reader
  imports Prelude
begin

text \<open>
  \<open>src/byte_reader.c\<close> and \<open>include/byte_reader.h\<close>: a bounded reader over caller-owned bytes.
  A read returns \<open>None\<close> when it would touch memory outside the object, \<open>Some (None, r)\<close>
  when the code returns false, and \<open>Some (Some v, r')\<close> when it stores \<open>v\<close> and advances.
  The locale \<open>field_reader\<close> is the contract of one fixed-width read; the clients of the
  readers (the protocol decoders) rest on its facts.
\<close>

section \<open>The contract of a fixed-width read\<close>

text \<open>
  \<open>view r\<close> is the list of unread bytes, \<open>dec\<close> the value of a field of \<open>w\<close> bytes. A read is
  all-or-nothing: it fails without moving, or takes exactly \<open>w\<close> bytes off the view.
\<close>

locale field_reader =
  fixes read :: "'r \<Rightarrow> ('a option \<times> 'r) option"
    and view :: "'r \<Rightarrow> bytes"
    and ok :: "'r \<Rightarrow> bool"
    and w :: nat
    and dec :: "bytes \<Rightarrow> 'a"
  assumes read_short: "ok r \<Longrightarrow> length (view r) < w \<Longrightarrow> read r = Some (None, r)"
    and read_full: "ok r \<Longrightarrow> w \<le> length (view r) \<Longrightarrow>
      \<exists>r'. read r = Some (Some (dec (take w (view r))), r') \<and> ok r' \<and> view r' = drop w (view r)"
begin

lemma read_defined: "ok r \<Longrightarrow> \<exists>v r'. read r = Some (v, r') \<and> ok r'"
  using read_short [of r] read_full [of r] by (cases "length (view r) < w") (auto simp: not_less)

lemma read_ok: "ok r \<Longrightarrow> read r = Some (v, r') \<Longrightarrow> ok r'"
  using read_defined [of r] by auto

lemma read_SomeD:
  "ok r \<Longrightarrow> read r = Some (Some v, r') \<Longrightarrow>
     w \<le> length (view r) \<and> v = dec (take w (view r)) \<and> view r' = drop w (view r)"
  using read_short [of r] read_full [of r] by (cases "length (view r) < w") (auto simp: not_less)

lemma read_NoneD: "ok r \<Longrightarrow> read r = Some (None, r') \<Longrightarrow> length (view r) < w \<and> r' = r"
  using read_short [of r] read_full [of r] by (cases "length (view r) < w") (auto simp: not_less)

lemma read_view_le: "ok r \<Longrightarrow> read r = Some (v, r') \<Longrightarrow> length (view r') \<le> length (view r)"
  by (cases v) (auto dest: read_SomeD read_NoneD)

lemma read_append:
  assumes "ok r" "view r = f @ rest" "length f = w"
  shows "\<exists>r'. read r = Some (Some (dec f), r') \<and> ok r' \<and> view r' = rest"
  using read_full [of r] assms by auto

end

section \<open>The reader\<close>

record byte_reader =
  br_data :: "bytes option"
  br_length :: nat
  br_offset :: nat

definition br_init :: "bytes option \<Rightarrow> nat \<Rightarrow> byte_reader" where
  "br_init data len =
     \<lparr>br_data = data, br_length = (if data = None then 0 else len), br_offset = 0\<rparr>"

definition br_remaining :: "byte_reader \<Rightarrow> nat \<Rightarrow> bool" where
  "br_remaining r needed =
     (if br_data r = None then False
      else if br_offset r > br_length r then False
      else needed \<le> br_length r - br_offset r)"

definition br_read_u8 :: "byte_reader \<Rightarrow> (u8 option \<times> byte_reader) option" where
  "br_read_u8 r =
     (if \<not> br_remaining r 1 then Some (None, r)
      else do {
        d \<leftarrow> br_data r;
        v \<leftarrow> rd d (br_offset r);
        Some (Some v, r\<lparr>br_offset := br_offset r + 1\<rparr>)
      })"

definition br_read_u16_be :: "byte_reader \<Rightarrow> (u16 option \<times> byte_reader) option" where
  "br_read_u16_be r =
     (if \<not> br_remaining r 2 then Some (None, r)
      else do {
        d \<leftarrow> br_data r;
        b0 \<leftarrow> rd d (br_offset r);
        b1 \<leftarrow> rd d (br_offset r + 1);
        Some (Some (be16 b0 b1), r\<lparr>br_offset := br_offset r + 2\<rparr>)
      })"

definition br_read_u32_be :: "byte_reader \<Rightarrow> (u32 option \<times> byte_reader) option" where
  "br_read_u32_be r =
     (if \<not> br_remaining r 4 then Some (None, r)
      else do {
        d \<leftarrow> br_data r;
        b0 \<leftarrow> rd d (br_offset r);
        b1 \<leftarrow> rd d (br_offset r + 1);
        b2 \<leftarrow> rd d (br_offset r + 2);
        b3 \<leftarrow> rd d (br_offset r + 3);
        Some (Some (be32 b0 b1 b2 b3), r\<lparr>br_offset := br_offset r + 4\<rparr>)
      })"

definition br_skip :: "byte_reader \<Rightarrow> nat \<Rightarrow> bool \<times> byte_reader" where
  "br_skip r count =
     (if \<not> br_remaining r count then (False, r)
      else (True, r\<lparr>br_offset := br_offset r + count\<rparr>))"

text \<open>
  A reader is sound when its length does not exceed the object it points to; the unread bytes
  are its view.
\<close>

definition br_ok :: "byte_reader \<Rightarrow> bool" where
  "br_ok r = (case br_data r of None \<Rightarrow> True
     | Some d \<Rightarrow> br_length r \<le> length d \<and> br_offset r \<le> br_length r)"

definition br_view :: "byte_reader \<Rightarrow> bytes" where
  "br_view r = (case br_data r of None \<Rightarrow> []
     | Some d \<Rightarrow> take (br_length r - br_offset r) (drop (br_offset r) d))"

lemma br_ok_init: "len \<le> length d \<Longrightarrow> br_ok (br_init (Some d) len)"
  by (simp add: br_ok_def br_init_def)

lemma br_view_init: "br_view (br_init (Some d) len) = take len d"
  by (simp add: br_view_def br_init_def)

lemma br_remaining_view: "br_ok r \<Longrightarrow> 0 < n \<Longrightarrow> br_remaining r n = (n \<le> length (br_view r))"
  by (auto simp: br_ok_def br_view_def br_remaining_def split: option.splits)

lemma br_advance:
  assumes "br_ok r" "n \<le> length (br_view r)"
  shows "br_ok (r\<lparr>br_offset := br_offset r + n\<rparr>)"
    and "br_view (r\<lparr>br_offset := br_offset r + n\<rparr>) = drop n (br_view r)"
  using assms by (auto simp: br_ok_def br_view_def drop_take add.commute split: option.splits)

lemma br_view_nth:
  assumes "br_ok r" "i < length (br_view r)" "br_data r = Some d"
  shows "rd d (br_offset r + i) = Some (br_view r ! i)"
  using assms by (auto simp: br_ok_def br_view_def rd_def)

lemma br_view_nth0: "br_ok r \<Longrightarrow> n \<le> length (br_view r) \<Longrightarrow> 0 < n \<Longrightarrow> br_data r = Some d \<Longrightarrow>
    rd d (br_offset r) = Some (br_view r ! 0)"
  using br_view_nth [of r 0 d] by (cases "br_view r") simp_all

lemma br_data_Some: "0 < n \<Longrightarrow> n \<le> length (br_view r) \<Longrightarrow> \<exists>d. br_data r = Some d"
  by (cases "br_data r") (auto simp: br_view_def)

interpretation br8: field_reader br_read_u8 br_view br_ok 1 "\<lambda>f. f ! 0"
proof
  fix r assume r: "br_ok r" "1 \<le> length (br_view r)"
  then obtain d where "br_data r = Some d" using br_data_Some [of 1 r] by auto
  with r show "\<exists>r'. br_read_u8 r = Some (Some (take 1 (br_view r) ! 0), r') \<and> br_ok r' \<and>
      br_view r' = drop 1 (br_view r)"
    using br_advance [OF r] br_view_nth0 [OF r]
    by (simp add: br_read_u8_def br_remaining_view)
qed (simp add: br_read_u8_def br_remaining_view)

interpretation br16: field_reader br_read_u16_be br_view br_ok 2 "\<lambda>f. be16 (f ! 0) (f ! 1)"
proof
  fix r assume r: "br_ok r" "2 \<le> length (br_view r)"
  then obtain d where "br_data r = Some d" using br_data_Some [of 2 r] by auto
  with r show "\<exists>r'. br_read_u16_be r = Some (Some (be16 (take 2 (br_view r) ! 0)
      (take 2 (br_view r) ! 1)), r') \<and> br_ok r' \<and> br_view r' = drop 2 (br_view r)"
    using br_advance [OF r] br_view_nth [of r 1 d] br_view_nth0 [OF r]
    by (simp add: br_read_u16_be_def br_remaining_view)
qed (simp add: br_read_u16_be_def br_remaining_view)

interpretation br32: field_reader br_read_u32_be br_view br_ok 4
  "\<lambda>f. be32 (f ! 0) (f ! 1) (f ! 2) (f ! 3)"
proof
  fix r assume r: "br_ok r" "4 \<le> length (br_view r)"
  then obtain d where "br_data r = Some d" using br_data_Some [of 4 r] by auto
  with r show "\<exists>r'. br_read_u32_be r = Some (Some (be32 (take 4 (br_view r) ! 0)
      (take 4 (br_view r) ! 1) (take 4 (br_view r) ! 2) (take 4 (br_view r) ! 3)), r') \<and>
      br_ok r' \<and> br_view r' = drop 4 (br_view r)"
    using br_advance [OF r] br_view_nth [of r 1 d] br_view_nth [of r 2 d] br_view_nth [of r 3 d]
      br_view_nth0 [OF r]
    by (simp add: br_read_u32_be_def br_remaining_view)
qed (simp add: br_read_u32_be_def br_remaining_view)

lemma br_skip_full:
  assumes "br_ok r" "n \<le> length (br_view r)" "0 < n"
  shows "\<exists>r'. br_skip r n = (True, r') \<and> br_ok r' \<and> br_view r' = drop n (br_view r)"
  using br_advance [OF assms(1,2)] assms by (simp add: br_skip_def br_remaining_view)

lemma br_skip_ok: "br_ok r \<Longrightarrow> br_skip r n = (b, r') \<Longrightarrow> br_ok r'"
  by (auto simp: br_skip_def br_remaining_def br_ok_def split: if_splits option.splits)

text \<open>The reads at a given offset, for the decoders that read a fixed header.\<close>

definition br_at :: "bytes \<Rightarrow> nat \<Rightarrow> nat \<Rightarrow> byte_reader" where
  "br_at d n k = \<lparr>br_data = Some d, br_length = n, br_offset = k\<rparr>"

lemma br_init_at: "br_init (Some d) n = br_at d n 0"
  by (simp add: br_init_def br_at_def)

lemma br_at_in [mem_simps]:
  assumes "n \<le> length d" "k \<le> n"
  shows "br_read_u8 (br_at d n k) =
      Some (if k + 1 \<le> n then (Some (d ! k), br_at d n (k + 1)) else (None, br_at d n k))"
    and "br_read_u16_be (br_at d n k) =
      Some (if k + 2 \<le> n then (Some (be16 (d ! k) (d ! (k + 1))), br_at d n (k + 2)) else (None, br_at d n k))"
    and "br_read_u32_be (br_at d n k) =
      Some (if k + 4 \<le> n then (Some (be32 (d ! k) (d ! (k + 1)) (d ! (k + 2)) (d ! (k + 3))), br_at d n (k + 4))
        else (None, br_at d n k))"
    and "br_skip (br_at d n k) m = (if k + m \<le> n then (True, br_at d n (k + m)) else (False, br_at d n k))"
  using assms
  by (auto simp: br_at_def br_read_u8_def br_read_u16_be_def br_read_u32_be_def br_skip_def
      br_remaining_def rd_def)

end
