(* ===== verification/Common.thy ===== *)
theory Common
  imports Prelude
begin

text \<open>
  \<open>include/common.h\<close>, \<open>include/config.h\<close>, \<open>src/config.c\<close> and the conversions of
  \<open>src/common.c\<close>: the data that the components pass to each other, and C strings.

  A \<open>char\<close> array is the list of its bytes, whose length is the size of the array; \<open>cstr\<close> is the
  C string it holds, up to the first NUL, and \<open>put_str\<close> is \<open>snprintf (dst, sizeof dst, "%s", s)\<close>.
  An \<open>int\<close> that the code uses only as a flag is a \<open>bool\<close>; a counter is a word of its C width.
\<close>

section \<open>C strings\<close>

definition asc :: "string \<Rightarrow> bytes" where
  "asc s = map of_char s"

definition cstr :: "bytes \<Rightarrow> bytes" where
  "cstr buf = takeWhile (\<lambda>b. b \<noteq> 0) buf"

definition put_str :: "bytes \<Rightarrow> bytes \<Rightarrow> bytes" where
  "put_str buf s = (if buf = [] then []
     else let t = take (length buf - 1) s in t @ 0 # drop (Suc (length t)) buf)"

definition terminated :: "nat \<Rightarrow> bytes \<Rightarrow> bool" where
  "terminated n buf \<longleftrightarrow> length buf = n \<and> 0 \<in> set buf"

lemma put_str_length [simp]: "length (put_str buf s) = length buf"
  by (cases buf) (auto simp: put_str_def Let_def)

lemma put_str_terminated: "length buf = n \<Longrightarrow> 0 < n \<Longrightarrow> terminated n (put_str buf s)"
  by (cases buf) (auto simp: terminated_def put_str_def Let_def)

lemma cstr_no_nul [simp]: "0 \<notin> set (cstr buf)"
  by (auto simp: cstr_def dest: set_takeWhileD)

lemma cstr_append: "0 \<notin> set xs \<Longrightarrow> cstr (xs @ ys) = xs @ cstr ys"
  by (induction xs) (auto simp: cstr_def)

lemma cstr_Nil [simp]: "cstr [] = []" and cstr_zero [simp]: "cstr (0 # xs) = []"
  by (simp_all add: cstr_def)

lemma cstr_put_str: "buf \<noteq> [] \<Longrightarrow> 0 \<notin> set s \<Longrightarrow> cstr (put_str buf s) = take (length buf - 1) s"
  by (simp add: put_str_def Let_def) (subst cstr_append, auto dest: in_set_takeD)

lemma cstr_put_fits: "length s < length buf \<Longrightarrow> 0 \<notin> set s \<Longrightarrow> cstr (put_str buf s) = s"
  by (subst cstr_put_str) auto

lemma cstr_length_terminated: "terminated n buf \<Longrightarrow> length (cstr buf) < n"
proof (induction buf arbitrary: n)
  case (Cons b buf)
  then show ?case by (cases "b = 0") (auto simp: terminated_def cstr_def)
qed (simp add: terminated_def)

lemma cstr_put_cstr: "terminated n src \<Longrightarrow> length dst = n \<Longrightarrow> cstr (put_str dst (cstr src)) = cstr src"
  by (intro cstr_put_fits) (auto dest: cstr_length_terminated)

text \<open>An array read as a string: \<open>None\<close> when it holds no terminator, and so is read past its end.\<close>

definition c_str :: "bytes \<Rightarrow> bytes option" where
  "c_str buf = (if 0 \<in> set buf then Some (cstr buf) else None)"

definition strcmp_equal :: "bytes \<Rightarrow> bytes \<Rightarrow> bool option" where
  "strcmp_equal a b = do { s \<leftarrow> c_str a; t \<leftarrow> c_str b; Some (s = t) }"

lemma c_str_terminated: "0 \<in> set b \<Longrightarrow> c_str b = Some (cstr b)"
  by (simp add: c_str_def)

section \<open>Enumerations\<close>

datatype Protocol = PROTO_TCP | PROTO_UDP | PROTO_ICMP | PROTO_ARP | PROTO_OTHER

datatype AppProtocol = APP_PROTO_UNKNOWN | APP_PROTO_HTTP | APP_PROTO_DNS | APP_PROTO_TLS
  | APP_PROTO_DHCP | APP_PROTO_MDNS | APP_PROTO_QUIC

datatype AppDecodeStatus = STATUS_NOT_RUN | STATUS_NO_MATCH | STATUS_NEED_MORE | STATUS_MALFORMED
  | STATUS_TRUNCATED | STATUS_DECODED

datatype LogFlushMode = LOG_FLUSH_ALWAYS | LOG_FLUSH_LINE | LOG_FLUSH_EXIT

datatype DomainMatchMode = DOMAIN_MATCH_NORMALIZED | DOMAIN_MATCH_EXACT | DOMAIN_MATCH_IDNA

definition protocol_to_string :: "Protocol \<Rightarrow> string" where
  "protocol_to_string p = (case p of
      PROTO_TCP \<Rightarrow> ''TCP'' | PROTO_UDP \<Rightarrow> ''UDP'' | PROTO_ICMP \<Rightarrow> ''ICMP'' | PROTO_ARP \<Rightarrow> ''ARP''
    | PROTO_OTHER \<Rightarrow> ''OTHER'')"

definition protocol_from_string :: "bytes \<Rightarrow> Protocol option" where
  "protocol_from_string text =
     (if text = asc ''tcp'' then Some PROTO_TCP
      else if text = asc ''udp'' then Some PROTO_UDP
      else if text = asc ''icmp'' then Some PROTO_ICMP
      else if text = asc ''arp'' then Some PROTO_ARP
      else if text = asc ''other'' then Some PROTO_OTHER
      else None)"

definition app_decode_status_to_string :: "AppDecodeStatus \<Rightarrow> string" where
  "app_decode_status_to_string s = (case s of
      STATUS_NO_MATCH \<Rightarrow> ''no_match'' | STATUS_NEED_MORE \<Rightarrow> ''need_more''
    | STATUS_MALFORMED \<Rightarrow> ''malformed'' | STATUS_TRUNCATED \<Rightarrow> ''truncated''
    | STATUS_DECODED \<Rightarrow> ''decoded'' | STATUS_NOT_RUN \<Rightarrow> ''not_run'')"

section \<open>Records\<close>

record app_info =
  app_protocol :: AppProtocol
  summary :: bytes
  http_method :: bytes
  http_path :: bytes
  http_version :: bytes
  http_host :: bytes
  http_user_agent :: bytes
  http_status_code :: u16
  http_reason :: bytes
  http_content_type :: bytes
  dns_transaction_id :: u16
  dns_is_response :: bool
  dns_opcode :: u8
  dns_rcode :: u8
  dns_question_count :: u16
  dns_query_name :: bytes
  dns_query_type :: u16
  dns_query_class :: u16
  tls_record_version :: u16
  tls_handshake_type :: u8
  tls_client_version :: u16
  tls_sni :: bytes
  tls_alpn :: bytes
  dhcp_message_type :: u8
  dhcp_transaction_id :: u32
  dhcp_client_mac :: bytes
  dhcp_client_ip :: bytes
  dhcp_your_ip :: bytes
  dhcp_server_ip :: bytes
  dhcp_requested_ip :: bytes
  quic_version :: u32
  quic_dcid :: bytes
  quic_scid :: bytes

text \<open>\<open>memset (info, 0, sizeof *info)\<close>.\<close>

definition app_info_zero :: app_info where
  "app_info_zero = \<lparr>app_protocol = APP_PROTO_UNKNOWN, summary = replicate 128 0,
     http_method = replicate 16 0, http_path = replicate 256 0, http_version = replicate 16 0,
     http_host = replicate 256 0, http_user_agent = replicate 256 0, http_status_code = 0,
     http_reason = replicate 256 0, http_content_type = replicate 256 0,
     dns_transaction_id = 0, dns_is_response = False, dns_opcode = 0, dns_rcode = 0,
     dns_question_count = 0, dns_query_name = replicate 256 0, dns_query_type = 0,
     dns_query_class = 0, tls_record_version = 0, tls_handshake_type = 0, tls_client_version = 0,
     tls_sni = replicate 256 0, tls_alpn = replicate 256 0, dhcp_message_type = 0,
     dhcp_transaction_id = 0, dhcp_client_mac = replicate 18 0, dhcp_client_ip = replicate 46 0,
     dhcp_your_ip = replicate 46 0, dhcp_server_ip = replicate 46 0,
     dhcp_requested_ip = replicate 46 0, quic_version = 0, quic_dcid = replicate 41 0,
     quic_scid = replicate 41 0\<rparr>"

text \<open>Every text field has the size of its array and holds a terminated string.\<close>

definition app_info_ok :: "app_info \<Rightarrow> bool" where
  "app_info_ok a \<longleftrightarrow> terminated 128 (summary a) \<and>
     terminated 16 (http_method a) \<and> terminated 256 (http_path a) \<and> terminated 16 (http_version a) \<and>
     terminated 256 (http_host a) \<and> terminated 256 (http_user_agent a) \<and>
     terminated 256 (http_reason a) \<and> terminated 256 (http_content_type a) \<and>
     terminated 256 (dns_query_name a) \<and> terminated 256 (tls_sni a) \<and> terminated 256 (tls_alpn a) \<and>
     terminated 18 (dhcp_client_mac a) \<and> terminated 46 (dhcp_client_ip a) \<and>
     terminated 46 (dhcp_your_ip a) \<and> terminated 46 (dhcp_server_ip a) \<and>
     terminated 46 (dhcp_requested_ip a) \<and> terminated 41 (quic_dcid a) \<and> terminated 41 (quic_scid a)"

lemma terminated_replicate [simp]: "0 < n \<Longrightarrow> terminated n (replicate n 0)"
  by (simp add: terminated_def)

lemma app_info_zero_ok [simp]: "app_info_ok app_info_zero"
  by (simp add: app_info_ok_def app_info_zero_def)

text \<open>
  One packet as the parser describes it. Pointers into the captured bytes are the bytes from there
  on; a NULL pointer is \<open>None\<close>.
\<close>

record packet_info =
  src_ip :: bytes
  dst_ip :: bytes
  src_port :: u16
  dst_port :: u16
  protocol :: Protocol
  ip_version :: int
  packet_number :: u32
  pkt_size :: nat
  timestamp :: bytes
  has_ports :: bool
  has_tcp_sequence :: bool
  tcp_sequence :: u32
  tcp_flags :: u8
  has_icmp :: bool
  icmp_type :: u8
  icmp_code :: u8
  is_ipv4_fragment :: bool
  ipv4_identification :: u16
  ipv4_protocol_number :: u8
  ipv4_header_length :: nat
  ipv4_fragment_offset :: nat
  ipv4_more_fragments :: bool
  ipv4_fragment_payload_length :: nat
  ipv4_fragment_payload :: "bytes option"
  ipv4_header :: bytes
  has_arp :: bool
  arp_operation :: u16
  arp_sender_mac :: bytes
  arp_target_mac :: bytes
  has_payload :: bool
  payload :: "bytes option"
  payload_capture_length :: nat
  payload_decode_length :: nat
  payload_preview_length :: nat
  payload_preview :: bytes
  app_decode_status :: AppDecodeStatus
  app :: app_info

text \<open>\<open>memset (info, 0, sizeof *info)\<close>; the enumeration constant 0 is \<open>PROTO_TCP\<close>.\<close>

definition packet_info_zero :: packet_info where
  "packet_info_zero = \<lparr>src_ip = replicate 46 0, dst_ip = replicate 46 0, src_port = 0, dst_port = 0,
     protocol = PROTO_TCP, ip_version = 0, packet_number = 0, pkt_size = 0,
     timestamp = replicate 32 0, has_ports = False, has_tcp_sequence = False, tcp_sequence = 0,
     tcp_flags = 0, has_icmp = False, icmp_type = 0, icmp_code = 0, is_ipv4_fragment = False,
     ipv4_identification = 0, ipv4_protocol_number = 0, ipv4_header_length = 0,
     ipv4_fragment_offset = 0, ipv4_more_fragments = False, ipv4_fragment_payload_length = 0,
     ipv4_fragment_payload = None, ipv4_header = replicate 60 0, has_arp = False,
     arp_operation = 0, arp_sender_mac = replicate 18 0, arp_target_mac = replicate 18 0,
     has_payload = False, payload = None, payload_capture_length = 0, payload_decode_length = 0,
     payload_preview_length = 0, payload_preview = replicate 256 0,
     app_decode_status = STATUS_NOT_RUN, app = app_info_zero\<rparr>"

record packet_stats =
  total_packets :: u32
  tcp_packets :: u32
  udp_packets :: u32
  icmp_packets :: u32
  arp_packets :: u32
  other_packets :: u32
  total_bytes :: u64
  raw_packets_seen :: u32
  packets_filtered_out :: u32
  parse_failures :: u32
  ipv4_fragments_seen :: u32
  ipv4_fragments_reassembled :: u32
  ipv4_fragments_expired :: u32
  ipv4_fragments_malformed :: u32
  ipv4_fragments_dropped :: u32
  ipv4_fragment_bytes_in_use :: nat
  ipv4_fragment_bytes_configured_max :: nat
  pcap_stats_available :: bool
  pcap_packets_received :: u32
  pcap_packets_dropped :: u32
  pcap_packets_if_dropped :: u32
  app_decode_no_match :: u32
  app_decode_need_more :: u32
  app_decode_malformed :: u32
  app_decode_truncated :: u32
  app_decode_decoded :: u32
  flow_count_created :: u64
  flow_count_active_at_exit :: u64
  flow_closed_fin :: u64
  flow_closed_rst :: u64
  flow_evicted_idle :: u64
  flow_evicted_capacity :: u64
  flow_retransmissions :: u64
  flow_out_of_order_segments :: u64
  flow_overlapping_segments :: u64
  flow_gaps :: u64
  flow_stream_bytes_in_use :: nat
  flow_stream_bytes_configured_max :: nat

definition packet_stats_zero :: packet_stats where
  "packet_stats_zero = \<lparr>total_packets = 0, tcp_packets = 0, udp_packets = 0, icmp_packets = 0,
     arp_packets = 0, other_packets = 0, total_bytes = 0, raw_packets_seen = 0,
     packets_filtered_out = 0, parse_failures = 0, ipv4_fragments_seen = 0,
     ipv4_fragments_reassembled = 0, ipv4_fragments_expired = 0, ipv4_fragments_malformed = 0,
     ipv4_fragments_dropped = 0, ipv4_fragment_bytes_in_use = 0,
     ipv4_fragment_bytes_configured_max = 0, pcap_stats_available = False,
     pcap_packets_received = 0, pcap_packets_dropped = 0, pcap_packets_if_dropped = 0,
     app_decode_no_match = 0, app_decode_need_more = 0, app_decode_malformed = 0,
     app_decode_truncated = 0, app_decode_decoded = 0, flow_count_created = 0,
     flow_count_active_at_exit = 0, flow_closed_fin = 0, flow_closed_rst = 0,
     flow_evicted_idle = 0, flow_evicted_capacity = 0, flow_retransmissions = 0,
     flow_out_of_order_segments = 0, flow_overlapping_segments = 0, flow_gaps = 0,
     flow_stream_bytes_in_use = 0, flow_stream_bytes_configured_max = 0\<rparr>"

section \<open>Configuration\<close>

record app_config =
  interface_name :: bytes
  decode_app :: bool
  reassemble :: bool
  payload_decode_bytes :: nat
  payload_preview_bytes :: nat
  cfg_max_flows :: nat
  stream_buffer_bytes :: nat
  flow_timeout_seconds :: u32
  ipv4_fragment_max_datagrams :: nat
  ipv4_fragment_max_bytes :: nat
  ipv4_fragment_timeout_seconds :: u32
  max_packets :: int
  stats_mode :: bool
  version_requested :: bool
  list_interfaces :: bool
  quiet :: bool
  verbose :: bool
  color_enabled :: bool
  json_output :: bool
  log_flush_mode :: LogFlushMode
  read_path_enabled :: bool
  read_path :: bytes
  write_path_enabled :: bool
  write_path :: bytes
  no_bpf :: bool
  filter_protocol_enabled :: bool
  filter_protocol :: Protocol
  filter_port_enabled :: bool
  filter_port :: u16
  filter_host_enabled :: bool
  filter_host :: bytes
  filter_payload_text_enabled :: bool
  filter_payload_text :: bytes
  filter_payload_text_length :: nat
  filter_payload_hex_enabled :: bool
  filter_payload_hex :: bytes
  filter_payload_hex_length :: nat
  filter_app_enabled :: bool
  filter_app_protocol :: AppProtocol
  filter_http_host_enabled :: bool
  filter_http_host :: bytes
  filter_http_method_enabled :: bool
  filter_http_method :: bytes
  filter_dns_query_enabled :: bool
  filter_dns_query :: bytes
  filter_dns_type_enabled :: bool
  filter_dns_type :: u16
  filter_tls_sni_enabled :: bool
  filter_tls_sni :: bytes
  filter_tls_alpn_enabled :: bool
  filter_tls_alpn :: bytes
  domain_match_mode :: DomainMatchMode
  filter_dhcp_type_enabled :: bool
  filter_dhcp_type :: u8
  filter_quic_version_enabled :: bool
  filter_quic_version :: u32
  payload_display_enabled :: bool
  logging_enabled :: bool
  log_path :: bytes

text \<open>\<open>memset\<close> to zero, then the defaults.\<close>

definition config_init_defaults :: app_config where
  "config_init_defaults = \<lparr>interface_name = replicate 64 0, decode_app = False, reassemble = False,
     payload_decode_bytes = 2048, payload_preview_bytes = 256, cfg_max_flows = 512,
     stream_buffer_bytes = 32768, flow_timeout_seconds = 60, ipv4_fragment_max_datagrams = 64,
     ipv4_fragment_max_bytes = 1048576, ipv4_fragment_timeout_seconds = 30, max_packets = 0,
     stats_mode = False, version_requested = False, list_interfaces = False, quiet = False,
     verbose = False, color_enabled = True, json_output = False, log_flush_mode = LOG_FLUSH_LINE,
     read_path_enabled = False, read_path = replicate 256 0, write_path_enabled = False,
     write_path = replicate 256 0, no_bpf = False, filter_protocol_enabled = False,
     filter_protocol = PROTO_OTHER, filter_port_enabled = False, filter_port = 0,
     filter_host_enabled = False, filter_host = replicate 46 0,
     filter_payload_text_enabled = False, filter_payload_text = replicate 128 0,
     filter_payload_text_length = 0, filter_payload_hex_enabled = False,
     filter_payload_hex = replicate 128 0, filter_payload_hex_length = 0,
     filter_app_enabled = False, filter_app_protocol = APP_PROTO_UNKNOWN,
     filter_http_host_enabled = False, filter_http_host = replicate 256 0,
     filter_http_method_enabled = False, filter_http_method = replicate 16 0,
     filter_dns_query_enabled = False, filter_dns_query = replicate 256 0,
     filter_dns_type_enabled = False, filter_dns_type = 0, filter_tls_sni_enabled = False,
     filter_tls_sni = replicate 256 0, filter_tls_alpn_enabled = False,
     filter_tls_alpn = replicate 256 0, domain_match_mode = DOMAIN_MATCH_NORMALIZED,
     filter_dhcp_type_enabled = False, filter_dhcp_type = 0, filter_quic_version_enabled = False,
     filter_quic_version = 0, payload_display_enabled = False, logging_enabled = False,
     log_path = replicate 256 0\<rparr>"

end
