(* ===== verification/Table_Sweep.thy ===== *)
theory Table_Sweep
  imports Prelude
begin

text \<open>
  The tables of the program (IPv4 datagrams being reassembled, TCP flows) are arrays with a count,
  and age out entries with the same loop: look at entry \<open>i\<close>; remove it, which moves the later
  entries down, or go on to \<open>i + 1\<close>. The locale states the loop over an abstract table and shows
  that it keeps exactly the entries that are not dead; each table interprets it for its own loop.
\<close>

definition remove_nth :: "nat \<Rightarrow> 'a list \<Rightarrow> 'a list" where
  "remove_nth i xs = take i xs @ drop (Suc i) xs"

lemma length_remove_nth: "i < length xs \<Longrightarrow> length (remove_nth i xs) = length xs - 1"
  by (simp add: remove_nth_def)

lemma set_remove_nth: "set (remove_nth i xs) \<subseteq> set xs"
  by (auto simp: remove_nth_def dest: in_set_takeD in_set_dropD)

lemma mset_remove_nth_sum: "i < length xs \<Longrightarrow>
    sum_list (map f (remove_nth i xs)) = sum_list (map f xs) - (f (xs ! i) :: nat)"
  by (subst id_take_nth_drop [of i xs], assumption, simp add: remove_nth_def)

lemma nth_le_sum: "i < length xs \<Longrightarrow> (f (xs ! i) :: nat) \<le> sum_list (map f xs)"
  by (simp add: member_le_sum_list)

lemma remove_nth_append: "remove_nth (length xs) (xs @ y # ys) = xs @ ys"
  by (simp add: remove_nth_def)

lemma remove_nth_update: "remove_nth i (xs[i := y]) = remove_nth i xs"
  by (cases "i < length xs") (simp_all add: remove_nth_def list_update_beyond)

locale table_sweep =
  fixes items :: "'t \<Rightarrow> 'a list"
    and remove :: "'t \<Rightarrow> nat \<Rightarrow> 't"
    and dead :: "'t \<Rightarrow> 'a \<Rightarrow> bool"
    and sweep :: "'t \<Rightarrow> nat \<Rightarrow> 't"
  assumes items_remove: "i < length (items t) \<Longrightarrow> items (remove t i) = remove_nth i (items t)"
    and dead_remove: "i < length (items t) \<Longrightarrow> dead (remove t i) = dead t"
    and sweep_step: "sweep t i =
      (if i < length (items t)
       then if dead t (items t ! i) then sweep (remove t i) i else sweep t (Suc i)
       else t)"
begin

text \<open>Induction along the loop: a property that removing a dead entry keeps holds after it.\<close>

lemma sweep_invariant:
  assumes inv: "P t"
    and step: "\<And>t i. P t \<Longrightarrow> i < length (items t) \<Longrightarrow> dead t (items t ! i) \<Longrightarrow> P (remove t i)"
  shows "P (sweep t i)"
  using inv
proof (induction "length (items t) - i" arbitrary: t i rule: less_induct)
  case less
  show ?case
  proof (cases "i < length (items t)")
    case True
    have "length (items (remove t i)) - i < length (items t) - i"
      using True by (simp add: items_remove length_remove_nth)
    then show ?thesis
      using True less.hyps [of "remove t i" i] less.hyps [of t "Suc i"] less.prems step [of t i]
      by (subst sweep_step) (simp add: diff_less_mono2)
  qed (use less.prems sweep_step [of t i] in simp)
qed

lemma sweep_items_from:
  "i \<le> length (items t) \<Longrightarrow>
     items (sweep t i) = take i (items t) @ filter (\<lambda>x. \<not> dead t x) (drop i (items t))"
proof (induction "length (items t) - i" arbitrary: t i rule: less_induct)
  case less
  show ?case
  proof (cases "i < length (items t)")
    case True
    have d: "drop i (items t) = items t ! i # drop (Suc i) (items t)"
      using True by (rule Cons_nth_drop_Suc [symmetric])
    show ?thesis
    proof (cases "dead t (items t ! i)")
      case dead: True
      have it: "items (remove t i) = remove_nth i (items t)" by (rule items_remove [OF True])
      have "items (sweep (remove t i) i) = take i (remove_nth i (items t)) @
          filter (\<lambda>x. \<not> dead t x) (drop i (remove_nth i (items t)))"
        using less.hyps [of "remove t i" i] True it dead_remove [OF True] by (simp add: length_remove_nth)
      then show ?thesis
        using True dead d dead_remove [OF True] by (subst sweep_step) (simp add: remove_nth_def)
    next
      case False
      have "items (sweep t (Suc i)) =
          take (Suc i) (items t) @ filter (\<lambda>x. \<not> dead t x) (drop (Suc i) (items t))"
        using less.hyps [of t "Suc i"] True by simp
      then show ?thesis
        using True False d by (subst sweep_step) (simp add: take_Suc_conv_app_nth)
    qed
  qed (use less.prems sweep_step [of t i] in simp)
qed

lemma sweep_items: "items (sweep t 0) = filter (\<lambda>x. \<not> dead t x) (items t)"
  using sweep_items_from [of 0 t] by simp

text \<open>A counter that each removal raises by one counts the dead entries.\<close>

lemma sweep_counts_from:
  fixes count :: "'t \<Rightarrow> 'w :: comm_semiring_1"
  assumes count: "\<And>t i. i < length (items t) \<Longrightarrow> count (remove t i) = count t + 1"
  shows "i \<le> length (items t) \<Longrightarrow>
    count (sweep t i) = count t + of_nat (length (filter (dead t) (drop i (items t))))"
proof (induction "length (items t) - i" arbitrary: t i rule: less_induct)
  case less
  show ?case
  proof (cases "i < length (items t)")
    case True
    have d: "drop i (items t) = items t ! i # drop (Suc i) (items t)"
      using True by (rule Cons_nth_drop_Suc [symmetric])
    have r: "drop i (items (remove t i)) = drop (Suc i) (items t)"
      "length (items (remove t i)) = length (items t) - 1"
      using True by (simp_all add: items_remove remove_nth_def)
    show ?thesis
      using less.hyps [of "remove t i" i] less.hyps [of t "Suc i"] True d r count [OF True] dead_remove [OF True]
      by (subst sweep_step) (simp add: algebra_simps)
  qed (use less.prems sweep_step [of t i] in simp)
qed

lemma sweep_counts:
  fixes count :: "'t \<Rightarrow> 'w :: comm_semiring_1"
  assumes "\<And>t i. i < length (items t) \<Longrightarrow> count (remove t i) = count t + 1"
  shows "count (sweep t 0) = count t + of_nat (length (filter (dead t) (items t)))"
  using sweep_counts_from [of count, OF assms, of 0 t] by simp

end

end
