(* ===== verification/Ipv4_Frag.thy ===== *)
theory Ipv4_Frag
  imports Common Table_Sweep
begin

text \<open>
  \<open>src/ipv4_frag.c\<close> and \<open>include/ipv4_frag.h\<close>: reassembly of fragmented IPv4 datagrams under a
  fixed memory cap. The datagram array with its count is the list of its live entries, the range
  array of a datagram likewise; a pointer to an entry is its index. The data block of a datagram
  is a byte list, empty for NULL, and \<open>realloc\<close> is the allocator parameter keeping the old bytes.
  The statistics pointer is never NULL in the program, so it is the record itself.
\<close>

section \<open>State\<close>

record frag_range =
  r_start :: nat
  r_end :: nat

record frag_key =
  fk_src_ip :: bytes
  fk_dst_ip :: bytes
  fk_protocol :: u8
  fk_identification :: u16

record frag_datagram =
  fd_active :: bool
  fd_key :: frag_key
  fd_last_seen :: u64
  fd_header_length :: nat
  fd_header :: bytes
  fd_data :: bytes
  fd_capacity :: nat
  fd_has_last :: bool
  fd_total :: nat
  fd_ranges :: "frag_range list"

record frag_table =
  ft_live :: bool
  ft_datagrams :: "frag_datagram list"
  ft_max_datagrams :: nat
  ft_max_bytes :: nat
  ft_used_bytes :: nat
  ft_timeout :: u32

datatype frag_result = FRAG_IGNORED | FRAG_QUEUED | FRAG_REASSEMBLED | FRAG_MALFORMED | FRAG_DROPPED

record frag_process_result =
  fp_result :: frag_result
  fp_packet :: "bytes option"
  fp_packet_length :: nat

abbreviation (input) FRAG_MAX_RANGES :: nat where "FRAG_MAX_RANGES \<equiv> 64"
abbreviation (input) IPV4_MAX_TOTAL_LENGTH :: nat where "IPV4_MAX_TOTAL_LENGTH \<equiv> 65535"

definition frag_table_zero :: frag_table where
  "frag_table_zero = \<lparr>ft_live = False, ft_datagrams = [], ft_max_datagrams = 0, ft_max_bytes = 0,
     ft_used_bytes = 0, ft_timeout = 0\<rparr>"

section \<open>Operations\<close>

definition read_u16_network :: "bytes \<Rightarrow> nat \<Rightarrow> u16 option" where
  "read_u16_network p i = do { b0 \<leftarrow> rd p i; b1 \<leftarrow> rd p (i + 1); Some (be16 b0 b1) }"

definition write_u16_network :: "bytes \<Rightarrow> nat \<Rightarrow> u16 \<Rightarrow> bytes option" where
  "write_u16_network p i v = do { p1 \<leftarrow> wr p i (hi8 v); wr p1 (i + 1) (lo8 v) }"

definition frag_key_equals :: "frag_key \<Rightarrow> frag_key \<Rightarrow> bool" where
  "frag_key_equals l r \<longleftrightarrow> fk_protocol l = fk_protocol r \<and>
     fk_identification l = fk_identification r \<and>
     cstr (fk_src_ip l) = cstr (fk_src_ip r) \<and> cstr (fk_dst_ip l) = cstr (fk_dst_ip r)"

definition remove_datagram_at :: "frag_table \<Rightarrow> nat \<Rightarrow> frag_table" where
  "remove_datagram_at t i =
     (if i \<ge> length (ft_datagrams t) then t
      else let released = fd_capacity (ft_datagrams t ! i)
           in t\<lparr>ft_used_bytes :=
                  (if ft_used_bytes t \<ge> released then ft_used_bytes t - released else 0),
                ft_datagrams := remove_nth i (ft_datagrams t)\<rparr>)"

text \<open>\<open>calloc\<close> of the entry array either succeeds or not.\<close>

definition ipv4_fragment_table_init ::
    "bool \<Rightarrow> frag_table \<Rightarrow> nat \<Rightarrow> nat \<Rightarrow> u32 \<Rightarrow> bool \<times> frag_table" where
  "ipv4_fragment_table_init calloc_ok t max_datagrams max_bytes timeout_seconds =
     (if max_datagrams = 0 \<or> max_datagrams > 1024 \<or> max_bytes = 0 \<or> max_bytes > 16777216
      then (False, t)
      else if \<not> calloc_ok then (False, frag_table_zero)
      else (True, frag_table_zero\<lparr>ft_live := True, ft_max_datagrams := max_datagrams,
                    ft_max_bytes := max_bytes, ft_timeout := timeout_seconds\<rparr>))"

definition ipv4_fragment_table_cleanup :: "frag_table \<Rightarrow> frag_table" where
  "ipv4_fragment_table_cleanup t = frag_table_zero"

definition frag_idle :: "u64 \<Rightarrow> frag_datagram \<Rightarrow> u64" where
  "frag_idle now d = (if now \<ge> fd_last_seen d then now - fd_last_seen d else 0)"

function frag_expire_loop ::
    "u64 \<Rightarrow> frag_table \<times> packet_stats \<Rightarrow> nat \<Rightarrow> frag_table \<times> packet_stats" where
  "frag_expire_loop now (t, stats) i =
     (if i < length (ft_datagrams t) then
        if frag_idle now (ft_datagrams t ! i) \<ge> ucast (ft_timeout t) then
          frag_expire_loop now (remove_datagram_at t i,
            stats\<lparr>ipv4_fragments_expired := ipv4_fragments_expired stats + 1\<rparr>) i
        else frag_expire_loop now (t, stats) (Suc i)
      else (t, stats))"
  by pat_completeness auto
termination
  by (relation "measure (\<lambda>(_, (t, _), i). length (ft_datagrams t) - i)")
    (auto simp: remove_datagram_at_def Let_def length_remove_nth)

declare frag_expire_loop.simps [simp del]

definition ipv4_fragment_table_expire ::
    "frag_table \<Rightarrow> u64 \<Rightarrow> packet_stats \<Rightarrow> frag_table \<times> packet_stats" where
  "ipv4_fragment_table_expire t now stats =
     (if \<not> ft_live t \<or> ft_timeout t = 0 then (t, stats) else frag_expire_loop now (t, stats) 0)"

text \<open>The key of a fragment; \<open>make_key\<close> copies the two address strings with \<open>snprintf\<close> and so reads up to their terminators.\<close>

definition fragment_key :: "packet_info \<Rightarrow> frag_key" where
  "fragment_key f = \<lparr>fk_src_ip = put_str (replicate 46 0) (cstr (src_ip f)),
     fk_dst_ip = put_str (replicate 46 0) (cstr (dst_ip f)),
     fk_protocol = ipv4_protocol_number f, fk_identification = ipv4_identification f\<rparr>"

definition make_key :: "packet_info \<Rightarrow> frag_key option" where
  "make_key f = do {
     src \<leftarrow> c_str (src_ip f);
     dst \<leftarrow> c_str (dst_ip f);
     Some \<lparr>fk_src_ip = put_str (replicate 46 0) src, fk_dst_ip = put_str (replicate 46 0) dst,
       fk_protocol = ipv4_protocol_number f, fk_identification = ipv4_identification f\<rparr>
   }"

fun find_datagram_from :: "frag_key \<Rightarrow> frag_datagram list \<Rightarrow> nat \<Rightarrow> nat option" where
  "find_datagram_from key [] i = None"
| "find_datagram_from key (d # ds) i =
     (if frag_key_equals (fd_key d) key then Some i else find_datagram_from key ds (Suc i))"

definition find_datagram :: "frag_table \<Rightarrow> frag_key \<Rightarrow> nat option" where
  "find_datagram t key = find_datagram_from key (ft_datagrams t) 0"

definition fragment_is_malformed :: "packet_info \<Rightarrow> bool" where
  "fragment_is_malformed f =
     (if \<not> is_ipv4_fragment f \<or> ip_version f \<noteq> 4 \<or> ipv4_header_length f < 20 \<or>
         ipv4_header_length f > 60 \<or> ipv4_fragment_payload f = None then True
      else if ipv4_more_fragments f \<and> ipv4_fragment_payload_length f mod 8 \<noteq> 0 then True
      else if ipv4_fragment_payload_length f = 0 then True
      else if ipv4_fragment_offset f > IPV4_MAX_TOTAL_LENGTH then True
      else let fin = size_add (ipv4_fragment_offset f) (ipv4_fragment_payload_length f)
           in fin < ipv4_fragment_offset f \<or>
              size_add fin (ipv4_header_length f) > IPV4_MAX_TOTAL_LENGTH)"

definition range_overlaps :: "frag_datagram \<Rightarrow> nat \<Rightarrow> nat \<Rightarrow> bool" where
  "range_overlaps d s e \<longleftrightarrow> (\<exists>r \<in> set (fd_ranges d). s < r_end r \<and> e > r_start r)"

text \<open>
  The insertion loop of \<open>add_range\<close> moves the ranges that start after \<open>s\<close> one place up, from the
  last one down, and stops at the first that does not.
\<close>

fun shift_up :: "frag_range list \<Rightarrow> nat \<Rightarrow> frag_range \<Rightarrow> frag_range list" where
  "shift_up rs 0 r = list_update rs 0 r"
| "shift_up rs (Suc index) r =
     (if r_start (rs ! index) > r_start r
      then shift_up (rs[Suc index := rs ! index]) index r
      else rs[Suc index := r])"

definition add_range :: "frag_datagram \<Rightarrow> nat \<Rightarrow> nat \<Rightarrow> bool \<times> frag_datagram" where
  "add_range d s e =
     (if length (fd_ranges d) \<ge> FRAG_MAX_RANGES then (False, d)
      else let r = \<lparr>r_start = s, r_end = e\<rparr>
           in (True, d\<lparr>fd_ranges := shift_up (fd_ranges d @ [r]) (length (fd_ranges d)) r\<rparr>))"

fun coverage_scan :: "nat \<Rightarrow> nat \<Rightarrow> frag_range list \<Rightarrow> bool" where
  "coverage_scan tot covered [] = False"
| "coverage_scan tot covered (r # rs) =
     (if r_start r \<noteq> covered then False
      else if r_end r = tot then True
      else if r_end r > tot then False
      else coverage_scan tot (r_end r) rs)"

definition coverage_is_complete :: "frag_datagram \<Rightarrow> bool" where
  "coverage_is_complete d =
     (if \<not> fd_has_last d \<or> fd_total d = 0 then False
      else coverage_scan (fd_total d) 0 (fd_ranges d))"

text \<open>\<open>ensure_capacity\<close> changes the table's accounting and the datagram's block.\<close>

definition ensure_capacity :: "allocator \<Rightarrow> frag_table \<Rightarrow> frag_datagram \<Rightarrow> nat \<Rightarrow>
    (bool \<times> frag_table \<times> frag_datagram) option" where
  "ensure_capacity al t d capacity =
     (if capacity \<le> fd_capacity d then Some (True, t, d)
      else let additional = size_sub capacity (fd_capacity d) in
        if additional > ft_max_bytes t \<or>
           ft_used_bytes t > size_sub (ft_max_bytes t) additional then Some (False, t, d)
        else case al capacity of
          None \<Rightarrow> Some (False, t, d)
        | Some block \<Rightarrow> do {
            kept \<leftarrow> blit block 0 (take capacity (fd_data d));
            cleared \<leftarrow> blit kept (fd_capacity d) (replicate additional 0);
            Some (True, t\<lparr>ft_used_bytes := ft_used_bytes t + additional\<rparr>,
              d\<lparr>fd_data := cleared, fd_capacity := capacity\<rparr>)
          })"

definition copy_header :: "packet_info \<Rightarrow> frag_datagram \<Rightarrow> frag_datagram option" where
  "copy_header f d = do {
     src \<leftarrow> rd_slice (ipv4_header f) 0 (ipv4_header_length f);
     h \<leftarrow> blit (fd_header d) 0 src;
     Some (d\<lparr>fd_header_length := ipv4_header_length f, fd_header := h\<rparr>)
   }"

definition create_datagram ::
    "frag_table \<Rightarrow> packet_info \<Rightarrow> frag_key \<Rightarrow> u64 \<Rightarrow> (nat option \<times> frag_table) option" where
  "create_datagram t f key now =
     (if length (ft_datagrams t) \<ge> ft_max_datagrams t then Some (None, t)
      else do {
        d \<leftarrow> copy_header f \<lparr>fd_active = True, fd_key = key, fd_last_seen = now,
               fd_header_length = 0, fd_header = replicate 60 0, fd_data = [], fd_capacity = 0,
               fd_has_last = False, fd_total = 0, fd_ranges = []\<rparr>;
        Some (Some (length (ft_datagrams t)), t\<lparr>ft_datagrams := ft_datagrams t @ [d]\<rparr>)
      })"

text \<open>NULL is the inner \<open>None\<close>; the length is that of the packet.\<close>

definition build_packet :: "allocator \<Rightarrow> frag_datagram \<Rightarrow> (bytes \<times> nat) option option" where
  "build_packet al d =
     (let total_length = fd_header_length d + fd_total d in
      if total_length > IPV4_MAX_TOTAL_LENGTH then Some None
      else case al total_length of
        None \<Rightarrow> Some None
      | Some packet \<Rightarrow> do {
          h \<leftarrow> rd_slice (fd_header d) 0 (fd_header_length d);
          p1 \<leftarrow> blit packet 0 h;
          body \<leftarrow> rd_slice (fd_data d) 0 (fd_total d);
          p2 \<leftarrow> blit p1 (fd_header_length d) body;
          p3 \<leftarrow> write_u16_network p2 2 (of_nat total_length);
          flags_fragment \<leftarrow> read_u16_network p3 6;
          p4 \<leftarrow> write_u16_network p3 6 ((flags_fragment AND 0xe000) AND NOT 0x2000);
          p5 \<leftarrow> write_u16_network p4 10 0;
          Some (Some (p5, total_length))
        })"

definition frag_answer :: "frag_result \<Rightarrow> frag_process_result" where
  "frag_answer r = \<lparr>fp_result = r, fp_packet = None, fp_packet_length = 0\<rparr>"

definition frag_put :: "frag_table \<Rightarrow> nat \<Rightarrow> frag_datagram \<Rightarrow> frag_table" where
  "frag_put t i d = t\<lparr>ft_datagrams := (ft_datagrams t)[i := d]\<rparr>"

text \<open>
  The second half of \<open>ipv4_fragment_table_process\<close>, in three parts from the last to the first:
  \<open>frag_finish\<close> delivers entry \<open>i\<close> if it is complete, \<open>frag_fill\<close> makes room and copies the
  payload, \<open>frag_store\<close> takes over the header and adds the range. A failure removes the entry.
\<close>

definition frag_finish :: "allocator \<Rightarrow> frag_table \<Rightarrow> nat \<Rightarrow> frag_datagram \<Rightarrow> packet_stats \<Rightarrow>
    (frag_process_result \<times> frag_table \<times> packet_stats) option" where
  "frag_finish al t i d stats =
     (if \<not> coverage_is_complete d then Some (frag_answer FRAG_QUEUED, frag_put t i d, stats)
      else do {
        assembled \<leftarrow> build_packet al d;
        case assembled of
          None \<Rightarrow> Some (frag_answer FRAG_DROPPED, remove_datagram_at (frag_put t i d) i,
            stats\<lparr>ipv4_fragments_dropped := ipv4_fragments_dropped stats + 1\<rparr>)
        | Some (packet, len) \<Rightarrow>
            Some (\<lparr>fp_result = FRAG_REASSEMBLED, fp_packet = Some packet, fp_packet_length = len\<rparr>,
              remove_datagram_at (frag_put t i d) i,
              stats\<lparr>ipv4_fragments_reassembled := ipv4_fragments_reassembled stats + 1\<rparr>)
      })"

definition frag_fill :: "allocator \<Rightarrow> frag_table \<Rightarrow> nat \<Rightarrow> frag_datagram \<Rightarrow> packet_info \<Rightarrow>
    packet_stats \<Rightarrow> (frag_process_result \<times> frag_table \<times> packet_stats) option" where
  "frag_fill al t i d f stats = do {
     let s = ipv4_fragment_offset f;
     let e = size_add s (ipv4_fragment_payload_length f);
     (room, t1, d1) \<leftarrow> ensure_capacity al t d e;
     if \<not> room then
       Some (frag_answer FRAG_DROPPED, remove_datagram_at (frag_put t1 i d1) i,
         stats\<lparr>ipv4_fragments_dropped := ipv4_fragments_dropped stats + 1\<rparr>)
     else do {
       p \<leftarrow> ipv4_fragment_payload f;
       src \<leftarrow> rd_slice p 0 (ipv4_fragment_payload_length f);
       data \<leftarrow> blit (fd_data d1) s src;
       let d2 = d1\<lparr>fd_data := data\<rparr>;
       let d3 = (if \<not> ipv4_more_fragments f then d2\<lparr>fd_has_last := True, fd_total := e\<rparr> else d2);
       frag_finish al t1 i d3 stats
     }
   }"

definition frag_store :: "allocator \<Rightarrow> frag_table \<Rightarrow> nat \<Rightarrow> packet_info \<Rightarrow> u64 \<Rightarrow> packet_stats \<Rightarrow>
    (frag_process_result \<times> frag_table \<times> packet_stats) option" where
  "frag_store al t i f now stats = do {
     d0 \<leftarrow> rd (ft_datagrams t) i;
     d1 \<leftarrow> (if ipv4_fragment_offset f = 0 then copy_header f d0 else Some d0);
     let s = ipv4_fragment_offset f;
     let e = size_add s (ipv4_fragment_payload_length f);
     let d2 = d1\<lparr>fd_last_seen := now\<rparr>;
     let (added, d3) = (if range_overlaps d2 s e then (False, d2) else add_range d2 s e);
     if \<not> added then
       Some (frag_answer FRAG_MALFORMED, remove_datagram_at (frag_put t i d3) i,
         stats\<lparr>ipv4_fragments_malformed := ipv4_fragments_malformed stats + 1\<rparr>)
     else frag_fill al t i d3 f stats
   }"

definition ipv4_fragment_table_process ::
    "allocator \<Rightarrow> frag_table \<Rightarrow> packet_info \<Rightarrow> u64 \<Rightarrow> packet_stats \<Rightarrow>
       (frag_process_result \<times> frag_table \<times> packet_stats) option" where
  "ipv4_fragment_table_process al t f now stats =
     (if \<not> ft_live t \<or> \<not> is_ipv4_fragment f then Some (frag_answer FRAG_IGNORED, t, stats)
      else
        let stats1 = stats\<lparr>ipv4_fragments_seen := ipv4_fragments_seen stats + 1\<rparr>;
            (t1, stats2) = ipv4_fragment_table_expire t now stats1
        in if fragment_is_malformed f then
             Some (frag_answer FRAG_MALFORMED, t1,
               stats2\<lparr>ipv4_fragments_malformed := ipv4_fragments_malformed stats2 + 1\<rparr>)
           else do {
             key \<leftarrow> make_key f;
             (found, t2) \<leftarrow> (case find_datagram t1 key of
                 Some i \<Rightarrow> Some (Some i, t1)
               | None \<Rightarrow> create_datagram t1 f key now);
             case found of
               None \<Rightarrow> Some (frag_answer FRAG_DROPPED, t2,
                 stats2\<lparr>ipv4_fragments_dropped := ipv4_fragments_dropped stats2 + 1\<rparr>)
             | Some i \<Rightarrow> frag_store al t2 i f now stats2
           })"



section \<open>Expiry\<close>

lemma remove_datagram_fields [simp]:
  "ft_live (remove_datagram_at t i) = ft_live t" "ft_timeout (remove_datagram_at t i) = ft_timeout t"
  "ft_max_datagrams (remove_datagram_at t i) = ft_max_datagrams t"
  "ft_max_bytes (remove_datagram_at t i) = ft_max_bytes t"
  by (simp_all add: remove_datagram_at_def Let_def)

lemma remove_datagram_items:
  "i < length (ft_datagrams t) \<Longrightarrow> ft_datagrams (remove_datagram_at t i) = remove_nth i (ft_datagrams t)"
  by (simp add: remove_datagram_at_def Let_def)

definition frag_expired :: "u64 \<Rightarrow> u32 \<Rightarrow> frag_datagram \<Rightarrow> bool" where
  "frag_expired now timeout d \<longleftrightarrow> frag_idle now d \<ge> ucast timeout"

definition frag_expire_one :: "frag_table \<times> packet_stats \<Rightarrow> nat \<Rightarrow> frag_table \<times> packet_stats" where
  "frag_expire_one ts i = (remove_datagram_at (fst ts) i,
     (snd ts)\<lparr>ipv4_fragments_expired := ipv4_fragments_expired (snd ts) + 1\<rparr>)"

interpretation frag_sweep: table_sweep "\<lambda>ts. ft_datagrams (fst ts)" frag_expire_one
    "\<lambda>ts. frag_expired now (ft_timeout (fst ts))" "frag_expire_loop now" for now :: u64
proof
  fix ts :: "frag_table \<times> packet_stats" and i
  show "frag_expire_loop now ts i =
      (if i < length (ft_datagrams (fst ts))
       then if frag_expired now (ft_timeout (fst ts)) (ft_datagrams (fst ts) ! i)
         then frag_expire_loop now (frag_expire_one ts i) i else frag_expire_loop now ts (Suc i)
       else ts)"
    by (cases ts) (simp add: frag_expire_loop.simps [of now _ _ i] frag_expired_def frag_expire_one_def)
qed (simp_all add: frag_expire_one_def remove_datagram_items)

text \<open>The accounting of the table: the cap covers the sum of the blocks.\<close>

definition frag_entry_ok :: "frag_datagram \<Rightarrow> bool" where
  "frag_entry_ok d \<longleftrightarrow> length (fd_data d) = fd_capacity d \<and> length (fd_header d) = 60 \<and>
     20 \<le> fd_header_length d \<and> fd_header_length d \<le> 60 \<and> fd_total d \<le> fd_capacity d \<and>
     length (fd_ranges d) \<le> FRAG_MAX_RANGES"

definition frag_table_ok :: "frag_table \<Rightarrow> bool" where
  "frag_table_ok t \<longleftrightarrow> length (ft_datagrams t) \<le> ft_max_datagrams t \<and>
     ft_used_bytes t = sum_list (map fd_capacity (ft_datagrams t)) \<and>
     ft_used_bytes t \<le> ft_max_bytes t \<and> ft_max_bytes t \<le> 16777216 \<and>
     (\<forall>d \<in> set (ft_datagrams t). frag_entry_ok d)"

lemma remove_datagram_ok:
  assumes "frag_table_ok t" shows "frag_table_ok (remove_datagram_at t i)"
proof (cases "i < length (ft_datagrams t)")
  case True
  then show ?thesis
    using assms nth_le_sum [OF True, of fd_capacity] set_remove_nth [of i "ft_datagrams t"]
    by (auto simp: frag_table_ok_def remove_datagram_at_def Let_def length_remove_nth
        mset_remove_nth_sum)
qed (use assms in \<open>simp add: remove_datagram_at_def\<close>)

lemma expire_ok:
  assumes "frag_table_ok t"
  shows "frag_table_ok (fst (ipv4_fragment_table_expire t now stats))"
  using frag_sweep.sweep_invariant [of "\<lambda>ts. frag_table_ok (fst ts)" "(t, stats)" now 0] assms
  by (simp add: ipv4_fragment_table_expire_def frag_expire_one_def remove_datagram_ok)

lemma expire_frame:
  "ft_live (fst (ipv4_fragment_table_expire t now stats)) = ft_live t \<and>
   ft_timeout (fst (ipv4_fragment_table_expire t now stats)) = ft_timeout t \<and>
   ft_max_bytes (fst (ipv4_fragment_table_expire t now stats)) = ft_max_bytes t \<and>
   ft_max_datagrams (fst (ipv4_fragment_table_expire t now stats)) = ft_max_datagrams t"
  using frag_sweep.sweep_invariant [of "\<lambda>ts. ft_live (fst ts) = ft_live t \<and>
     ft_timeout (fst ts) = ft_timeout t \<and> ft_max_bytes (fst ts) = ft_max_bytes t \<and>
     ft_max_datagrams (fst ts) = ft_max_datagrams t" "(t, stats)" now 0]
  by (simp add: ipv4_fragment_table_expire_def frag_expire_one_def)

lemma expire_items:
  "ft_datagrams (fst (ipv4_fragment_table_expire t now stats)) =
     (if \<not> ft_live t \<or> ft_timeout t = 0 then ft_datagrams t
      else filter (\<lambda>d. \<not> frag_expired now (ft_timeout t) d) (ft_datagrams t))"
  using frag_sweep.sweep_items [of now "(t, stats)"]
  by (simp add: ipv4_fragment_table_expire_def)

lemma expire_subset:
  "set (ft_datagrams (fst (ipv4_fragment_table_expire t now stats))) \<subseteq> set (ft_datagrams t)"
  by (auto simp: expire_items)

lemma expire_count:
  "ft_live t \<Longrightarrow> ft_timeout t \<noteq> 0 \<Longrightarrow>
     ipv4_fragments_expired (snd (ipv4_fragment_table_expire t now stats)) =
     ipv4_fragments_expired stats +
       of_nat (length (filter (frag_expired now (ft_timeout t)) (ft_datagrams t)))"
  using frag_sweep.sweep_counts [of "\<lambda>ts. ipv4_fragments_expired (snd ts)" now "(t, stats)"]
  by (simp add: ipv4_fragment_table_expire_def frag_expire_one_def)



section \<open>Ranges\<close>

lemma shift_up_insert:
  "\<exists>us vs. xs = us @ vs \<and> shift_up (xs @ y # zs) (length xs) r = us @ r # vs @ zs \<and>
     (\<forall>v \<in> set vs. r_start r < r_start v) \<and> (us \<noteq> [] \<longrightarrow> r_start (last us) \<le> r_start r)"
proof (induction xs arbitrary: y zs rule: rev_induct)
  case (snoc a xs)
  show ?case
  proof (cases "r_start r < r_start a")
    case True
    obtain us vs where "xs = us @ vs" "shift_up (xs @ a # a # zs) (length xs) r = us @ r # vs @ a # zs"
      "\<forall>v \<in> set vs. r_start r < r_start v" "us \<noteq> [] \<longrightarrow> r_start (last us) \<le> r_start r"
      using snoc [of a "a # zs"] by blast
    with True show ?thesis
      by (intro exI [of _ us] exI [of _ "vs @ [a]"]) (auto simp: nth_append list_update_append)
  next
    case False
    then show ?thesis
      by (intro exI [of _ "xs @ [a]"] exI [of _ "[]"]) (simp add: nth_append list_update_append)
  qed
qed simp

definition disjoint_from :: "frag_range \<Rightarrow> frag_range list \<Rightarrow> bool" where
  "disjoint_from r rs \<longleftrightarrow> (\<forall>x \<in> set rs. r_end x \<le> r_start r \<or> r_end r \<le> r_start x)"

definition ranges_ok :: "frag_range list \<Rightarrow> bool" where
  "ranges_ok rs \<longleftrightarrow> sorted_wrt (\<lambda>a b. r_end a \<le> r_start b) rs \<and> (\<forall>r \<in> set rs. r_start r < r_end r)"

lemma range_overlaps_disjoint:
  "r_start r = s \<Longrightarrow> r_end r = e \<Longrightarrow> \<not> range_overlaps d s e \<longleftrightarrow> disjoint_from r (fd_ranges d)"
  by (auto simp: range_overlaps_def disjoint_from_def not_less)

lemma ranges_ok_insert:
  assumes "ranges_ok (us @ vs)" "r_start r < r_end r" "disjoint_from r (us @ vs)"
    "\<forall>v \<in> set vs. r_start r < r_start v" "us \<noteq> [] \<longrightarrow> r_start (last us) \<le> r_start r"
  shows "ranges_ok (us @ r # vs)"
proof -
  have "r_end r \<le> r_start v" if "v \<in> set vs" for v
    using assms(1,3,4) that by (force simp: disjoint_from_def ranges_ok_def)
  moreover have "r_end u \<le> r_start r" if u: "u \<in> set us" for u
  proof -
    have l: "us \<noteq> []" using u by auto
    have "r_start u \<le> r_start (last us)"
    proof -
      have e: "us = butlast us @ [last us]" using l by simp
      have "sorted_wrt (\<lambda>a b. r_end a \<le> r_start b) us"
        using assms(1) by (simp add: ranges_ok_def sorted_wrt_append)
      then have "\<forall>x \<in> set (butlast us). r_end x \<le> r_start (last us)"
        by (subst (asm) e) (simp add: sorted_wrt_append)
      moreover have "u = last us \<or> u \<in> set (butlast us)"
        using u by (subst (asm) e) auto
      moreover have "r_start u < r_end u" using assms(1) u by (simp add: ranges_ok_def)
      ultimately show ?thesis by fastforce
    qed
    then have "r_start u \<le> r_start r" using assms(5) l by simp
    then show ?thesis using assms(1-3) u by (force simp: disjoint_from_def ranges_ok_def)
  qed
  ultimately show ?thesis
    using assms(1,2) by (auto simp: ranges_ok_def sorted_wrt_append)
qed

lemma add_range_ok:
  assumes "length (fd_ranges d) < FRAG_MAX_RANGES"
  shows "\<exists>rs. add_range d s e = (True, d\<lparr>fd_ranges := rs\<rparr>) \<and> length rs = Suc (length (fd_ranges d)) \<and>
    set rs = insert \<lparr>r_start = s, r_end = e\<rparr> (set (fd_ranges d)) \<and>
    (ranges_ok (fd_ranges d) \<and> s < e \<and> \<not> range_overlaps d s e \<longrightarrow> ranges_ok rs)"
proof -
  let ?r = "\<lparr>r_start = s, r_end = e\<rparr>"
  obtain us vs where uv: "fd_ranges d = us @ vs"
    "shift_up (fd_ranges d @ [?r]) (length (fd_ranges d)) ?r = us @ ?r # vs"
    "\<forall>v \<in> set vs. r_start ?r < r_start v" "us \<noteq> [] \<longrightarrow> r_start (last us) \<le> r_start ?r"
    using shift_up_insert [of "fd_ranges d" ?r "[]" ?r] by (elim exE conjE) (rule that, simp_all)
  have "ranges_ok (us @ ?r # vs)" if "ranges_ok (fd_ranges d)" "s < e" "\<not> range_overlaps d s e"
    using that uv range_overlaps_disjoint [of ?r s e d] by (intro ranges_ok_insert) simp_all
  then show ?thesis using assms uv by (auto simp: add_range_def Let_def)
qed

text \<open>A scan that succeeds has met every offset; sorted ranges that cover everything succeed.\<close>

lemma coverage_scan_covers:
  "coverage_scan tot c rs \<Longrightarrow> c \<le> x \<Longrightarrow> x < tot \<Longrightarrow> \<exists>r \<in> set rs. r_start r \<le> x \<and> x < r_end r"
proof (induction tot c rs rule: coverage_scan.induct)
  case (2 tot c r rs)
  then show ?case by (cases "x < r_end r") (auto split: if_splits)
qed simp

lemma coverage_scan_complete:
  assumes "ranges_ok rs" "c < tot" "\<forall>r \<in> set rs. c \<le> r_start r \<and> r_end r \<le> tot"
    "\<forall>x. c \<le> x \<and> x < tot \<longrightarrow> (\<exists>r \<in> set rs. r_start r \<le> x \<and> x < r_end r)"
  shows "coverage_scan tot c rs"
  using assms
proof (induction rs arbitrary: c)
  case (Cons r rs)
  have first: "r_start r = c"
  proof -
    obtain q where "q \<in> set (r # rs)" "r_start q \<le> c" using Cons.prems by blast
    then show ?thesis using Cons.prems(1,3) by (fastforce simp: ranges_ok_def)
  qed
  show ?case
  proof (cases "r_end r = tot")
    case False
    have "coverage_scan tot (r_end r) rs"
    proof (rule Cons.IH)
      show "ranges_ok rs" "r_end r < tot" "\<forall>q \<in> set rs. r_end r \<le> r_start q \<and> r_end q \<le> tot"
        using Cons.prems(1,3) False by (auto simp: ranges_ok_def)
      show "\<forall>x. r_end r \<le> x \<and> x < tot \<longrightarrow> (\<exists>q \<in> set rs. r_start q \<le> x \<and> x < r_end q)"
      proof (intro allI impI)
        fix x assume x: "r_end r \<le> x \<and> x < tot"
        have "r_start r < r_end r" using Cons.prems(1) by (simp add: ranges_ok_def)
        then obtain q where "q \<in> set (r # rs)" "r_start q \<le> x" "x < r_end q"
          using Cons.prems(4) first x by (meson less_or_eq_imp_le order.strict_trans1 order.trans)
        then show "\<exists>q \<in> set rs. r_start q \<le> x \<and> x < r_end q" using x by auto
      qed
    qed
    then show ?thesis using first False Cons.prems(3) by auto
  qed (use first in simp)
qed auto

section \<open>The rebuilt datagram\<close>

text \<open>What a rebuilt datagram is: the header of the first fragment with the total length of the
  whole, more-fragments and offset cleared, checksum zero, and then the payload.\<close>

definition rebuilt :: "bytes \<Rightarrow> bytes \<Rightarrow> bytes" where
  "rebuilt h S = h[2 := hi8 (of_nat (length h + length S)), 3 := lo8 (of_nat (length h + length S)),
     6 := h ! 6 AND 0xC0, 7 := 0, 10 := 0, 11 := 0] @ S"

lemma rebuilt_flags:
  "hi8 ((be16 a b AND 0xe000) AND NOT 0x2000) = a AND 0xC0"
  "lo8 ((be16 a b AND 0xe000) AND NOT 0x2000) = 0"
proof -
  have m: "(0xe000 AND NOT 0x2000 :: u16) = 0xC000" by simp
  have e: "(be16 a b AND 0xe000) AND NOT 0x2000 = be16 a b AND 0xC000"
    by (simp only: and.assoc m)
  have "hi8 (be16 a b AND 0xC000) = hi8 (be16 a b) AND hi8 0xC000"
    by (simp add: hi8_def drop_bit_and unsigned_and_eq)
  moreover have "hi8 0xC000 = 0xC0" by (simp add: hi8_def)
  ultimately show "hi8 ((be16 a b AND 0xe000) AND NOT 0x2000) = a AND 0xC0" unfolding e by simp
  have "lo8 (be16 a b AND 0xC000) = lo8 (be16 a b) AND lo8 0xC000"
    by (simp add: lo8_def unsigned_and_eq)
  moreover have "lo8 0xC000 = 0" by (simp add: lo8_def)
  ultimately show "lo8 ((be16 a b AND 0xe000) AND NOT 0x2000) = 0" unfolding e by simp
qed

lemma build_packet_rebuilt:
  assumes "allocator_ok al" "20 \<le> fd_header_length d" "fd_header_length d \<le> length (fd_header d)"
    "fd_total d \<le> length (fd_data d)"
  defines "h \<equiv> take (fd_header_length d) (fd_header d)" and "S \<equiv> take (fd_total d) (fd_data d)"
  shows "build_packet al d =
    (if length h + length S > IPV4_MAX_TOTAL_LENGTH \<or> al (length h + length S) = None then Some None
     else Some (Some (rebuilt h S, length h + length S)))"
proof -
  have hl: "length h = fd_header_length d" "20 \<le> length h" "length S = fd_total d"
    using assms by (simp_all add: h_def S_def)
  show ?thesis
  proof (cases "al (length h + length S)")
    case (Some block)
    then have bl: "length block = length h + length S" using assms(1) by (auto dest: allocator_okD)
    have s: "rd_slice (fd_header d) 0 (fd_header_length d) = Some h"
      "rd_slice (fd_data d) 0 (fd_total d) = Some S"
      using assms by (simp_all add: rd_slice_def)
    have b1: "blit block 0 h = Some (h @ drop (length h) block)"
      using bl by (simp add: blit_def)
    have b2: "blit (h @ drop (length h) block) (length h) S = Some (h @ S)"
      using bl by (simp add: blit_def)
    define n :: u16 where "n = of_nat (length h + length S)"
    have w: "write_u16_network p i v = Some (p[i := hi8 v, i + 1 := lo8 v])"
      if "i + 1 < length p" for p i v
      using that by (simp add: write_u16_network_def mem_simps)
    have r: "read_u16_network p i = Some (be16 (p ! i) (p ! (i + 1)))"
      if "i + 1 < length p" for p i
      using that by (simp add: read_u16_network_def mem_simps)
    have p: "write_u16_network (h @ S) 2 n = Some (h[2 := hi8 n, 3 := lo8 n] @ S)"
      "read_u16_network (h[2 := hi8 n, 3 := lo8 n] @ S) 6 = Some (be16 (h ! 6) (h ! 7))"
      "write_u16_network (h[2 := hi8 n, 3 := lo8 n] @ S) 6 v =
         Some (h[2 := hi8 n, 3 := lo8 n, 6 := hi8 v, 7 := lo8 v] @ S)"
      "write_u16_network (h[2 := hi8 n, 3 := lo8 n, 6 := hi8 v, 7 := lo8 v] @ S) 10 0 =
         Some (h[2 := hi8 n, 3 := lo8 n, 6 := hi8 v, 7 := lo8 v, 10 := hi8 0, 11 := lo8 0] @ S)"
      for v
      using hl by (simp_all add: w r nth_append list_update_append)
    have z: "hi8 0 = 0" "lo8 0 = 0" by (simp_all add: hi8_def lo8_def)
    have N: "word_of_nat (fd_header_length d + fd_total d) = n" using hl by (simp add: n_def)
    have R: "rebuilt h S = h[2 := hi8 n, 3 := lo8 n, 6 := h ! 6 AND 0xC0, 7 := 0, 10 := 0, 11 := 0] @ S"
      by (simp only: rebuilt_def n_def)
    show ?thesis
      unfolding build_packet_def Let_def R N
      using s b1 b2 hl Some
      by (simp add: p rebuilt_flags [simplified] z del: of_nat_add)
  qed (use hl in \<open>simp add: build_packet_def Let_def\<close>)
qed



section \<open>One fragment\<close>

text \<open>What the parser guarantees of a fragment: the buffers it points to have the sizes it says, the addresses end in their arrays.\<close>

definition frag_input :: "packet_info \<Rightarrow> bool" where
  "frag_input f \<longleftrightarrow> length (ipv4_header f) = 60 \<and> 0 \<in> set (src_ip f) \<and> 0 \<in> set (dst_ip f) \<and>
     (\<forall>p. ipv4_fragment_payload f = Some p \<longrightarrow>
        ipv4_fragment_payload_length f \<le> length p \<and> length p < 2 ^ 63)"

lemma make_key_defined: "frag_input f \<Longrightarrow> make_key f = Some (fragment_key f)"
  by (simp add: frag_input_def make_key_def fragment_key_def c_str_terminated)

abbreviation (input) frag_end :: "packet_info \<Rightarrow> nat" where
  "frag_end f \<equiv> ipv4_fragment_offset f + ipv4_fragment_payload_length f"

lemma not_malformedD:
  assumes "\<not> fragment_is_malformed f" "frag_input f"
  shows "is_ipv4_fragment f" "20 \<le> ipv4_header_length f" "ipv4_header_length f \<le> 60"
    "\<exists>p. ipv4_fragment_payload f = Some p \<and> ipv4_fragment_payload_length f \<le> length p"
    "0 < ipv4_fragment_payload_length f" "frag_end f + ipv4_header_length f \<le> 65535"
    "size_add (ipv4_fragment_offset f) (ipv4_fragment_payload_length f) = frag_end f"
proof -
  from assms obtain p where p: "ipv4_fragment_payload f = Some p" "ipv4_fragment_payload_length f \<le> length p"
    "length p < 2 ^ 63" "is_ipv4_fragment f" "20 \<le> ipv4_header_length f" "ipv4_header_length f \<le> 60"
    "0 < ipv4_fragment_payload_length f" "ipv4_fragment_offset f \<le> 65535"
    by (auto simp: fragment_is_malformed_def frag_input_def split: if_splits)
  have a: "size_add (ipv4_fragment_offset f) (ipv4_fragment_payload_length f) = frag_end f"
    using p by (intro size_add_small) simp
  have b: "size_add (frag_end f) (ipv4_header_length f) = frag_end f + ipv4_header_length f"
    using p by (intro size_add_small) simp
  show "frag_end f + ipv4_header_length f \<le> 65535"
    using assms(1) a b by (auto simp: fragment_is_malformed_def Let_def split: if_splits)
  show "size_add (ipv4_fragment_offset f) (ipv4_fragment_payload_length f) = frag_end f" by (rule a)
qed (use assms in \<open>auto simp: fragment_is_malformed_def frag_input_def Let_def split: if_splits\<close>)

lemma copy_header_ok:
  "frag_input f \<Longrightarrow> ipv4_header_length f \<le> 60 \<Longrightarrow> length (fd_header d) = 60 \<Longrightarrow>
     \<exists>h. copy_header f d = Some (d\<lparr>fd_header_length := ipv4_header_length f, fd_header := h\<rparr>) \<and>
       length h = 60 \<and> take (ipv4_header_length f) h = take (ipv4_header_length f) (ipv4_header f)"
  by (auto simp: copy_header_def frag_input_def mem_simps)

lemma ensure_capacity_ok:
  assumes "allocator_ok al" "length (fd_data d) = fd_capacity d" "ft_used_bytes t \<le> ft_max_bytes t"
  shows "\<exists>data. ensure_capacity al t d n =
    (if n \<le> fd_capacity d \<or>
        ft_used_bytes t + (n - fd_capacity d) \<le> ft_max_bytes t \<and> al n \<noteq> None
     then Some (True, t\<lparr>ft_used_bytes := ft_used_bytes t + (n - fd_capacity d)\<rparr>,
       d\<lparr>fd_data := data, fd_capacity := max n (fd_capacity d)\<rparr>)
     else Some (False, t, d)) \<and>
    length data = max n (fd_capacity d) \<and> take (fd_capacity d) data = fd_data d"
proof (cases "n \<le> fd_capacity d")
  case True
  then show ?thesis
    using assms by (intro exI [of _ "fd_data d"]) (simp add: ensure_capacity_def max_absorb2)
next
  case False
  let ?data = "fd_data d @ replicate (n - fd_capacity d) 0"
  have "blit block 0 (take n (fd_data d)) = Some (fd_data d @ drop (fd_capacity d) block)"
    "blit (fd_data d @ drop (fd_capacity d) block) (fd_capacity d)
       (replicate (n - fd_capacity d) 0) = Some ?data" if "al n = Some block" for block
    using False assms allocator_okD [OF assms(1) that] by (simp_all add: blit_def)
  moreover have "n - fd_capacity d \<le> ft_max_bytes t \<and>
      ft_used_bytes t \<le> ft_max_bytes t - (n - fd_capacity d) \<longleftrightarrow>
      ft_used_bytes t + (n - fd_capacity d) \<le> ft_max_bytes t"
    using assms(3) False by auto
  ultimately show ?thesis
    using False assms
    by (intro exI [of _ ?data]) (auto simp: ensure_capacity_def Let_def not_le max_absorb1 split: option.splits)
qed

text \<open>
  \<open>frag_of h S f\<close>: the fragment is cut from the datagram with payload \<open>S\<close> whose first fragment has
  the header \<open>h\<close>. \<open>frag_track h S d\<close>: the entry holds bytes of that datagram in every range.
\<close>

definition frag_of :: "bytes \<Rightarrow> bytes \<Rightarrow> packet_info \<Rightarrow> bool" where
  "frag_of h S f \<longleftrightarrow> frag_end f \<le> length S \<and>
     (ipv4_more_fragments f \<longleftrightarrow> frag_end f < length S) \<and>
     (\<forall>p. ipv4_fragment_payload f = Some p \<longrightarrow>
        take (ipv4_fragment_payload_length f) p =
        take (ipv4_fragment_payload_length f) (drop (ipv4_fragment_offset f) S)) \<and>
     (ipv4_fragment_offset f = 0 \<longrightarrow> take (ipv4_header_length f) (ipv4_header f) = h)"

definition range_holds :: "bytes \<Rightarrow> bytes \<Rightarrow> frag_range \<Rightarrow> bool" where
  "range_holds S data r \<longleftrightarrow> r_start r < r_end r \<and> r_end r \<le> length S \<and> r_end r \<le> length data \<and>
     (\<forall>x. r_start r \<le> x \<and> x < r_end r \<longrightarrow> data ! x = S ! x)"

definition frag_track :: "bytes \<Rightarrow> bytes \<Rightarrow> frag_datagram \<Rightarrow> bool" where
  "frag_track h S d \<longleftrightarrow> ranges_ok (fd_ranges d) \<and> (\<forall>r \<in> set (fd_ranges d). range_holds S (fd_data d) r) \<and>
     (fd_has_last d \<longrightarrow> fd_total d = length S) \<and>
     ((\<exists>r \<in> set (fd_ranges d). r_start r = 0) \<longrightarrow> take (fd_header_length d) (fd_header d) = h)"

text \<open>The entry after a fragment went in, up to its block.\<close>

definition merged :: "packet_info \<Rightarrow> u64 \<Rightarrow> frag_datagram \<Rightarrow> frag_datagram \<Rightarrow> bool" where
  "merged f now d d' \<longleftrightarrow> fd_key d' = fd_key d \<and> fd_last_seen d' = now \<and>
     length (fd_header d') = 60 \<and> 20 \<le> fd_header_length d' \<and> fd_header_length d' \<le> 60 \<and>
     length (fd_data d') = fd_capacity d' \<and> fd_capacity d' = max (frag_end f) (fd_capacity d) \<and>
     length (fd_ranges d') \<le> FRAG_MAX_RANGES \<and> fd_total d' \<le> fd_capacity d' \<and>
     length (fd_ranges d') = Suc (length (fd_ranges d)) \<and>
     set (fd_ranges d') =
       insert \<lparr>r_start = ipv4_fragment_offset f, r_end = frag_end f\<rparr> (set (fd_ranges d)) \<and>
     (ranges_ok (fd_ranges d) \<longrightarrow> ranges_ok (fd_ranges d')) \<and>
     (\<forall>x < fd_capacity d. (x < ipv4_fragment_offset f \<or> frag_end f \<le> x) \<longrightarrow> fd_data d' ! x = fd_data d ! x) \<and>
     (\<forall>p. ipv4_fragment_payload f = Some p \<longrightarrow>
        (\<forall>x < ipv4_fragment_payload_length f. fd_data d' ! (ipv4_fragment_offset f + x) = p ! x)) \<and>
     fd_has_last d' = (\<not> ipv4_more_fragments f \<or> fd_has_last d) \<and>
     fd_total d' = (if \<not> ipv4_more_fragments f then frag_end f else fd_total d) \<and>
     (if ipv4_fragment_offset f = 0
      then take (fd_header_length d') (fd_header d') = take (ipv4_header_length f) (ipv4_header f)
      else fd_header_length d' = fd_header_length d \<and> fd_header d' = fd_header d)"

lemma merged_track:
  assumes m: "merged f now d d'" and tr: "frag_track h S d" and fo: "frag_of h S f"
    and cap: "length (fd_data d) = fd_capacity d" and f: "\<not> fragment_is_malformed f" "frag_input f"
    and dis: "\<not> range_overlaps d (ipv4_fragment_offset f) (frag_end f)"
  shows "frag_track h S d'"
proof -
  let ?r = "\<lparr>r_start = ipv4_fragment_offset f, r_end = frag_end f\<rparr>"
  note fd = not_malformedD [OF f]
  have dr: "disjoint_from ?r (fd_ranges d)"
    using dis range_overlaps_disjoint [of ?r "ipv4_fragment_offset f" "frag_end f" d] by simp
  obtain p where p: "ipv4_fragment_payload f = Some p" "ipv4_fragment_payload_length f \<le> length p"
    using fd(4) by auto
  have new: "range_holds S (fd_data d') ?r"
  proof -
    have "fd_data d' ! x = S ! x" if x: "ipv4_fragment_offset f \<le> x" "x < frag_end f" for x
    proof -
      define k where "k = x - ipv4_fragment_offset f"
      have k: "x = ipv4_fragment_offset f + k" "k < ipv4_fragment_payload_length f"
        using x by (auto simp: k_def)
      have "p ! k = take (ipv4_fragment_payload_length f) p ! k" using k by simp
      also have "\<dots> = S ! x" using fo p k by (simp add: frag_of_def)
      finally show ?thesis using m p k by (simp add: merged_def)
    qed
    then show ?thesis using m fo fd(5) by (simp add: range_holds_def merged_def frag_of_def)
  qed
  have old: "range_holds S (fd_data d') r" if r: "r \<in> set (fd_ranges d)" for r
  proof -
    have h: "range_holds S (fd_data d) r" using tr r by (simp add: frag_track_def)
    moreover have "fd_data d' ! x = fd_data d ! x" if "r_start r \<le> x" "x < r_end r" for x
      using m dr r that h cap by (fastforce simp: merged_def disjoint_from_def range_holds_def)
    moreover have "length (fd_data d) \<le> length (fd_data d')" using m cap by (simp add: merged_def)
    ultimately show ?thesis by (auto simp: range_holds_def)
  qed
  have z: "take (fd_header_length d') (fd_header d') = h"
    if "r \<in> set (fd_ranges d')" "r_start r = 0" for r
    using m tr fo that by (auto simp: merged_def frag_track_def frag_of_def split: if_splits)
  show ?thesis
    using m tr fo new old z by (auto simp: frag_track_def merged_def frag_of_def)
qed



lemma frag_put_ok:
  assumes "frag_table_ok t" "i < length (ft_datagrams t)" "frag_entry_ok d'"
    "fd_capacity (ft_datagrams t ! i) \<le> fd_capacity d'"
    "ft_used_bytes t + (fd_capacity d' - fd_capacity (ft_datagrams t ! i)) \<le> ft_max_bytes t"
  shows "frag_table_ok (frag_put (t\<lparr>ft_used_bytes :=
    ft_used_bytes t + (fd_capacity d' - fd_capacity (ft_datagrams t ! i))\<rparr>) i d')"
  using assms nth_le_sum [of i "ft_datagrams t" fd_capacity]
  by (auto simp: frag_table_ok_def frag_put_def map_update sum_list_update dest: set_update_subset_insert [THEN subsetD])

lemma frag_put_same:
  assumes "frag_table_ok t" "i < length (ft_datagrams t)" "frag_entry_ok d'"
    "fd_capacity d' = fd_capacity (ft_datagrams t ! i)"
  shows "frag_table_ok (frag_put t i d')"
  using frag_put_ok [OF assms(1-3)] assms(1,4) by (simp add: frag_table_ok_def)

lemma frag_put_remove:
  "i < length (ft_datagrams t) \<Longrightarrow>
    ft_datagrams (remove_datagram_at (frag_put t i d) i) = remove_nth i (ft_datagrams t)"
  by (simp add: frag_put_def remove_datagram_items remove_nth_update)

definition frag_same :: "frag_table \<Rightarrow> frag_table \<Rightarrow> bool" where
  "frag_same t t' \<longleftrightarrow> ft_live t' = ft_live t \<and> ft_timeout t' = ft_timeout t \<and>
     ft_max_bytes t' = ft_max_bytes t \<and> ft_max_datagrams t' = ft_max_datagrams t"

definition frag_delivered :: "frag_datagram \<Rightarrow> frag_process_result" where
  "frag_delivered d = (let h = take (fd_header_length d) (fd_header d); S = take (fd_total d) (fd_data d)
     in \<lparr>fp_result = FRAG_REASSEMBLED, fp_packet = Some (rebuilt h S),
         fp_packet_length = length h + length S\<rparr>)"

text \<open>A delivered packet is exactly as long as the answer says.\<close>

definition frag_whole :: "frag_process_result \<Rightarrow> bool" where
  "frag_whole ans \<longleftrightarrow> (fp_result ans = FRAG_REASSEMBLED \<longrightarrow>
     (\<exists>q. fp_packet ans = Some q \<and> fp_packet_length ans = length q))"

lemma frag_whole_answers [simp]: "frag_whole (frag_delivered d)"
  "r \<noteq> FRAG_REASSEMBLED \<Longrightarrow> frag_whole (frag_answer r)"
  by (simp_all add: frag_whole_def frag_delivered_def frag_answer_def rebuilt_def Let_def)

text \<open>The five ways a well-formed fragment can go.\<close>

definition frag_outcome :: "allocator \<Rightarrow> frag_table \<Rightarrow> nat \<Rightarrow> packet_info \<Rightarrow> u64 \<Rightarrow>
    frag_process_result \<Rightarrow> frag_datagram list \<Rightarrow> bool" where
  "frag_outcome al t i f now ans ds \<longleftrightarrow>
     (let d = ft_datagrams t ! i;
          overlap = range_overlaps d (ipv4_fragment_offset f) (frag_end f);
          full = FRAG_MAX_RANGES \<le> length (fd_ranges d);
          no_room = frag_end f > fd_capacity d \<and>
            (ft_used_bytes t + (frag_end f - fd_capacity d) > ft_max_bytes t \<or> al (frag_end f) = None)
      in if overlap \<or> full then
           ans = frag_answer FRAG_MALFORMED \<and> ds = remove_nth i (ft_datagrams t)
         else if no_room then ans = frag_answer FRAG_DROPPED \<and> ds = remove_nth i (ft_datagrams t)
         else \<exists>d'. merged f now d d' \<and>
           (if \<not> coverage_is_complete d' then
              ans = frag_answer FRAG_QUEUED \<and> ds = (ft_datagrams t)[i := d']
            else if fd_header_length d' + fd_total d' > IPV4_MAX_TOTAL_LENGTH \<or>
                al (fd_header_length d' + fd_total d') = None then
              ans = frag_answer FRAG_DROPPED \<and> ds = remove_nth i (ft_datagrams t)
            else ans = frag_delivered d' \<and> ds = remove_nth i (ft_datagrams t)))"

lemma frag_finish_outcome:
  assumes al: "allocator_ok al" and i: "i < length (ft_datagrams t)" and d: "frag_entry_ok d"
    and ok: "frag_table_ok (frag_put t i d)"
  shows "\<exists>ans t' stats'. frag_finish al t i d stats = Some (ans, t', stats') \<and>
    frag_table_ok t' \<and> frag_same t t' \<and>
    (if \<not> coverage_is_complete d then
       ans = frag_answer FRAG_QUEUED \<and> ft_datagrams t' = (ft_datagrams t)[i := d]
     else if fd_header_length d + fd_total d > IPV4_MAX_TOTAL_LENGTH \<or>
         al (fd_header_length d + fd_total d) = None then
       ans = frag_answer FRAG_DROPPED \<and> ft_datagrams t' = remove_nth i (ft_datagrams t)
     else ans = frag_delivered d \<and> ft_datagrams t' = remove_nth i (ft_datagrams t))"
proof -
  have b: "build_packet al d =
    (if fd_header_length d + fd_total d > IPV4_MAX_TOTAL_LENGTH \<or>
        al (fd_header_length d + fd_total d) = None then Some None
     else Some (Some (the (fp_packet (frag_delivered d)), fp_packet_length (frag_delivered d))))"
    using build_packet_rebuilt [OF al, of d] d
    by (simp add: frag_entry_ok_def frag_delivered_def Let_def)
  have s: "frag_same t (frag_put t i d)" "frag_same t (remove_datagram_at (frag_put t i d) i)"
    by (simp_all add: frag_same_def frag_put_def)
  show ?thesis
    using ok s remove_datagram_ok [OF ok, of i] i
    by (auto simp: frag_finish_def b frag_put_remove)
      (simp_all add: frag_put_def frag_delivered_def Let_def)
qed



text \<open>The entry after the payload was copied into its block.\<close>

definition filled :: "packet_info \<Rightarrow> frag_datagram \<Rightarrow> frag_datagram \<Rightarrow> bool" where
  "filled f d d' \<longleftrightarrow> (\<exists>data. length data = max (frag_end f) (fd_capacity d) \<and>
     (\<forall>x < fd_capacity d. (x < ipv4_fragment_offset f \<or> frag_end f \<le> x) \<longrightarrow> data ! x = fd_data d ! x) \<and>
     (\<forall>p. ipv4_fragment_payload f = Some p \<longrightarrow>
        (\<forall>x < ipv4_fragment_payload_length f. data ! (ipv4_fragment_offset f + x) = p ! x)) \<and>
     d' = d\<lparr>fd_data := data, fd_capacity := max (frag_end f) (fd_capacity d),
            fd_has_last := (\<not> ipv4_more_fragments f \<or> fd_has_last d),
            fd_total := (if \<not> ipv4_more_fragments f then frag_end f else fd_total d)\<rparr>)"

definition no_room :: "allocator \<Rightarrow> frag_table \<Rightarrow> packet_info \<Rightarrow> frag_datagram \<Rightarrow> bool" where
  "no_room al t f d \<longleftrightarrow> frag_end f > fd_capacity d \<and>
     (ft_used_bytes t + (frag_end f - fd_capacity d) > ft_max_bytes t \<or> al (frag_end f) = None)"

definition frag_end_outcome :: "allocator \<Rightarrow> frag_table \<Rightarrow> nat \<Rightarrow> frag_datagram \<Rightarrow>
    frag_process_result \<Rightarrow> frag_datagram list \<Rightarrow> bool" where
  "frag_end_outcome al t i d ans ds \<longleftrightarrow>
     (if \<not> coverage_is_complete d then
       ans = frag_answer FRAG_QUEUED \<and> ds = (ft_datagrams t)[i := d]
     else if fd_header_length d + fd_total d > IPV4_MAX_TOTAL_LENGTH \<or>
         al (fd_header_length d + fd_total d) = None then
       ans = frag_answer FRAG_DROPPED \<and> ds = remove_nth i (ft_datagrams t)
     else ans = frag_delivered d \<and> ds = remove_nth i (ft_datagrams t))"

lemma blit_nth:
  assumes "blit xs i ys = Some zs"
  shows "x < i \<or> i + length ys \<le> x \<Longrightarrow> zs ! x = xs ! x"
    and "y < length ys \<Longrightarrow> zs ! (i + y) = ys ! y"
  using assms by (auto simp: blit_def nth_append split: if_splits)

lemma frag_fill_outcome:
  assumes al: "allocator_ok al" and tok: "frag_table_ok t" and i: "i < length (ft_datagrams t)"
    and f: "\<not> fragment_is_malformed f" "frag_input f" and d: "frag_entry_ok d"
    and cap: "fd_capacity d = fd_capacity (ft_datagrams t ! i)"
  shows "\<exists>ans t' stats'. frag_fill al t i d f stats = Some (ans, t', stats') \<and>
    frag_table_ok t' \<and> frag_same t t' \<and>
    (if no_room al t f d
     then ans = frag_answer FRAG_DROPPED \<and> ft_datagrams t' = remove_nth i (ft_datagrams t)
     else \<exists>d'. filled f d d' \<and> frag_end_outcome al t i d' ans (ft_datagrams t'))"
proof -
  note fd = not_malformedD [OF f]
  let ?e = "frag_end f"
  obtain p where p: "ipv4_fragment_payload f = Some p" "ipv4_fragment_payload_length f \<le> length p"
    using fd(4) by auto
  have used: "ft_used_bytes t \<le> ft_max_bytes t" using tok by (simp add: frag_table_ok_def)
  have dl: "length (fd_data d) = fd_capacity d" using d by (simp add: frag_entry_ok_def)
  obtain data where en: "ensure_capacity al t d ?e =
     (if \<not> no_room al t f d
      then Some (True, t\<lparr>ft_used_bytes := ft_used_bytes t + (?e - fd_capacity d)\<rparr>,
       d\<lparr>fd_data := data, fd_capacity := max ?e (fd_capacity d)\<rparr>)
     else Some (False, t, d))"
    and data: "length data = max ?e (fd_capacity d)" "take (fd_capacity d) data = fd_data d"
    using ensure_capacity_ok [OF al dl used, of ?e] unfolding no_room_def
    by (auto simp: not_le not_less split: if_splits)
  show ?thesis
  proof (cases "no_room al t f d")
    case True
    have "frag_table_ok (frag_put t i d)" by (rule frag_put_same [OF tok i d cap])
    then show ?thesis
      using True en i fd(7)
      by (simp add: frag_fill_def Let_def frag_put_remove remove_datagram_ok)
        (simp add: frag_same_def frag_put_def)
  next
    case False
    let ?t1 = "t\<lparr>ft_used_bytes := ft_used_bytes t + (?e - fd_capacity d)\<rparr>"
    let ?src = "take (ipv4_fragment_payload_length f) p"
    obtain data' where b: "blit data (ipv4_fragment_offset f) ?src = Some data'"
      using data p by (simp add: blit_def)
    define d' where "d' = d\<lparr>fd_data := data', fd_capacity := max ?e (fd_capacity d),
            fd_has_last := (\<not> ipv4_more_fragments f \<or> fd_has_last d),
            fd_total := (if \<not> ipv4_more_fragments f then ?e else fd_total d)\<rparr>"
    have fi: "filled f d d'"
      unfolding filled_def
    proof (rule exI [of _ data'], intro conjI allI impI)
      show "length data' = max ?e (fd_capacity d)" using blit_length [OF b] data by simp
      show "data' ! x = fd_data d ! x"
        if "x < fd_capacity d" "x < ipv4_fragment_offset f \<or> ?e \<le> x" for x
        using blit_nth(1) [OF b, of x] that p data(2) nth_take [of x "fd_capacity d" data] by auto
      show "data' ! (ipv4_fragment_offset f + x) = q ! x"
        if "ipv4_fragment_payload f = Some q" "x < ipv4_fragment_payload_length f" for q x
        using blit_nth(2) [OF b, of x] that p by simp
    qed (rule d'_def)
    have d'ok: "frag_entry_ok d'"
      using d data blit_length [OF b] by (auto simp: frag_entry_ok_def d'_def)
    have tok': "frag_table_ok (frag_put ?t1 i d')"
      using frag_put_ok [OF tok i d'ok] False used cap
      by (auto simp: d'_def no_room_def max_def not_le not_less split: if_splits)
    have i1: "i < length (ft_datagrams ?t1)" using i by simp
    have d3: "(if \<not> ipv4_more_fragments f then
          d\<lparr>fd_data := data', fd_capacity := max ?e (fd_capacity d), fd_has_last := True, fd_total := ?e\<rparr>
        else d\<lparr>fd_data := data', fd_capacity := max ?e (fd_capacity d)\<rparr>) = d'"
      by (cases d) (simp add: d'_def)
    have eq: "frag_fill al t i d f stats = frag_finish al ?t1 i d' stats"
      unfolding frag_fill_def Let_def fd(7) en
      using False p b by (simp add: rd_slice_in flip: d3) (cases d, simp)
    obtain ans t' stats' where fin: "frag_finish al ?t1 i d' stats = Some (ans, t', stats')"
        "frag_table_ok t'" "frag_same ?t1 t'" "frag_end_outcome al ?t1 i d' ans (ft_datagrams t')"
      using frag_finish_outcome [OF al i1 d'ok tok', of stats] unfolding frag_end_outcome_def by blast
    have "frag_same t t'" "frag_end_outcome al t i d' ans (ft_datagrams t')"
      using fin(3,4) by (simp_all add: frag_same_def frag_end_outcome_def)
    then show ?thesis using False fi eq fin by auto
  qed
qed



lemma filled_merged:
  assumes "filled f d3 d'" "frag_entry_ok d3" "fd_capacity d3 = fd_capacity d" "fd_data d3 = fd_data d"
    "fd_has_last d3 = fd_has_last d" "fd_total d3 = fd_total d" "fd_key d3 = fd_key d"
    "fd_last_seen d3 = now" "length (fd_ranges d3) = Suc (length (fd_ranges d))"
    "set (fd_ranges d3) =
       insert \<lparr>r_start = ipv4_fragment_offset f, r_end = frag_end f\<rparr> (set (fd_ranges d))"
    "ranges_ok (fd_ranges d) \<longrightarrow> ranges_ok (fd_ranges d3)"
    "if ipv4_fragment_offset f = 0
      then take (fd_header_length d3) (fd_header d3) = take (ipv4_header_length f) (ipv4_header f)
      else fd_header_length d3 = fd_header_length d \<and> fd_header d3 = fd_header d"
  shows "merged f now d d'"
proof -
  obtain data where data: "length data = max (frag_end f) (fd_capacity d)"
    "\<forall>x < fd_capacity d. (x < ipv4_fragment_offset f \<or> frag_end f \<le> x) \<longrightarrow> data ! x = fd_data d ! x"
    "\<forall>p. ipv4_fragment_payload f = Some p \<longrightarrow>
        (\<forall>x < ipv4_fragment_payload_length f. data ! (ipv4_fragment_offset f + x) = p ! x)"
    and d': "d' = d3\<lparr>fd_data := data, fd_capacity := max (frag_end f) (fd_capacity d),
            fd_has_last := (\<not> ipv4_more_fragments f \<or> fd_has_last d),
            fd_total := (if \<not> ipv4_more_fragments f then frag_end f else fd_total d)\<rparr>"
    using assms(1) unfolding filled_def assms(3-6) by blast
  have "length (fd_header d3) = 60" "20 \<le> fd_header_length d3" "fd_header_length d3 \<le> 60"
    "fd_total d \<le> fd_capacity d" "length (fd_ranges d3) \<le> FRAG_MAX_RANGES"
    using assms(2,3,6) by (simp_all add: frag_entry_ok_def)
  then show ?thesis
    unfolding merged_def d' using data assms(7-) by (intro conjI) (simp_all add: max.coboundedI2)
qed

lemma frag_store_outcome:
  assumes al: "allocator_ok al" and tok: "frag_table_ok t" and i: "i < length (ft_datagrams t)"
    and f: "\<not> fragment_is_malformed f" "frag_input f"
  defines "d \<equiv> ft_datagrams t ! i"
  defines "overlap \<equiv> range_overlaps d (ipv4_fragment_offset f) (frag_end f)"
  shows "\<exists>ans t' stats'. frag_store al t i f now stats = Some (ans, t', stats') \<and>
    frag_table_ok t' \<and> frag_same t t' \<and>
    (if overlap \<or> FRAG_MAX_RANGES \<le> length (fd_ranges d) then
       ans = frag_answer FRAG_MALFORMED \<and> ft_datagrams t' = remove_nth i (ft_datagrams t)
     else if no_room al t f d then
       ans = frag_answer FRAG_DROPPED \<and> ft_datagrams t' = remove_nth i (ft_datagrams t)
     else \<exists>d'. merged f now d d' \<and> frag_end_outcome al t i d' ans (ft_datagrams t'))"
proof -
  note fd = not_malformedD [OF f]
  let ?s = "ipv4_fragment_offset f" and ?e = "frag_end f"
  have dok: "frag_entry_ok d" using tok i by (simp add: d_def frag_table_ok_def)
  obtain d1 where d1: "(if ?s = 0 then copy_header f d else Some d) = Some d1"
    "frag_entry_ok d1" "fd_capacity d1 = fd_capacity d" "fd_data d1 = fd_data d"
    "fd_has_last d1 = fd_has_last d" "fd_total d1 = fd_total d" "fd_key d1 = fd_key d"
    "fd_ranges d1 = fd_ranges d"
    "if ?s = 0 then take (fd_header_length d1) (fd_header d1) = take (ipv4_header_length f) (ipv4_header f)
     else fd_header_length d1 = fd_header_length d \<and> fd_header d1 = fd_header d"
  proof (cases "?s = 0")
    case True
    have "length (fd_header d) = 60" using dok by (simp add: frag_entry_ok_def)
    then obtain h where "copy_header f d = Some (d\<lparr>fd_header_length := ipv4_header_length f, fd_header := h\<rparr>)"
      "length h = 60" "take (ipv4_header_length f) h = take (ipv4_header_length f) (ipv4_header f)"
      using copy_header_ok [OF f(2) fd(3)] by blast
    then show ?thesis using that True dok fd(2,3) by (simp add: frag_entry_ok_def)
  qed (use that dok in simp)
  define d2 where "d2 = d1\<lparr>fd_last_seen := now\<rparr>"
  have ov: "range_overlaps d2 ?s ?e = overlap"
    by (simp add: range_overlaps_def d2_def d1 overlap_def)
  have st: "frag_store al t i f now stats = (
     let (added, d3) = (if overlap then (False, d2) else add_range d2 ?s ?e) in
     if \<not> added then
       Some (frag_answer FRAG_MALFORMED, remove_datagram_at (frag_put t i d3) i,
         stats\<lparr>ipv4_fragments_malformed := ipv4_fragments_malformed stats + 1\<rparr>)
     else frag_fill al t i d3 f stats)"
    by (simp only: frag_store_def rd_in [OF i] bind.simps d_def [symmetric] d1(1) fd(7) Let_def
        d2_def [symmetric] ov)
  show ?thesis
  proof (cases "overlap \<or> FRAG_MAX_RANGES \<le> length (fd_ranges d)")
    case True
    have "frag_store al t i f now stats = Some (frag_answer FRAG_MALFORMED,
        remove_datagram_at (frag_put t i d2) i,
        stats\<lparr>ipv4_fragments_malformed := ipv4_fragments_malformed stats + 1\<rparr>)"
      using True st by (auto simp: add_range_def d2_def d1)
    moreover have "frag_table_ok (frag_put t i d2)"
      using d1(2,3) by (intro frag_put_same [OF tok i]) (simp_all add: d2_def frag_entry_ok_def d_def)
    ultimately show ?thesis
      using True i by (simp add: frag_put_remove remove_datagram_ok) (simp add: frag_same_def frag_put_def)
  next
    case False
    then obtain rs where rs: "add_range d2 ?s ?e = (True, d2\<lparr>fd_ranges := rs\<rparr>)"
      "length rs = Suc (length (fd_ranges d))" "set rs = insert \<lparr>r_start = ?s, r_end = ?e\<rparr> (set (fd_ranges d))"
      "ranges_ok (fd_ranges d) \<longrightarrow> ranges_ok rs"
      using add_range_ok [of d2 ?s ?e] fd(5) ov by (auto simp: d2_def d1)
    define d3 where "d3 = d2\<lparr>fd_ranges := rs\<rparr>"
    have d3: "frag_entry_ok d3" "fd_capacity d3 = fd_capacity (ft_datagrams t ! i)"
      using d1(2,3) rs(2) False by (simp_all add: d3_def d2_def frag_entry_ok_def d_def)
    have "no_room al t f d3 = no_room al t f d"
      by (simp add: no_room_def d3(2) d_def)
    moreover have "merged f now d d'" if "filled f d3 d'" for d'
      using rs d1 by (intro filled_merged [OF that d3(1)]) (simp_all add: d3_def d2_def)
    moreover have "frag_store al t i f now stats = frag_fill al t i d3 f stats"
      using False st rs(1) by (simp add: d3_def)
    ultimately show ?thesis
      using frag_fill_outcome [OF al tok i f d3, of stats] False by (auto split: if_splits)
  qed
qed



section \<open>Runs of fragments\<close>

lemma key_equals_sym: "frag_key_equals a b \<longleftrightarrow> frag_key_equals b a"
  by (auto simp: frag_key_equals_def)

lemma key_equals_trans: "frag_key_equals a b \<Longrightarrow> frag_key_equals b c \<Longrightarrow> frag_key_equals a c"
  by (simp add: frag_key_equals_def)

lemma find_datagram_from_cases:
  "case find_datagram_from key ds n of
     None \<Rightarrow> \<forall>d \<in> set ds. \<not> frag_key_equals (fd_key d) key
   | Some i \<Rightarrow> n \<le> i \<and> i < n + length ds \<and> frag_key_equals (fd_key (ds ! (i - n))) key"
proof (induction key ds n rule: find_datagram_from.induct)
  case (2 key d ds i)
  then show ?case
    by (cases "frag_key_equals (fd_key d) key")
      (auto split: option.splits simp: nth_Cons' Suc_le_eq diff_Suc)
qed simp

lemma find_datagram_Some: "find_datagram t key = Some i \<Longrightarrow>
    i < length (ft_datagrams t) \<and> frag_key_equals (fd_key (ft_datagrams t ! i)) key"
  using find_datagram_from_cases [of "ft_datagrams t" key 0] by (simp add: find_datagram_def)

lemma create_datagram_ok:
  assumes "frag_table_ok t" "\<not> fragment_is_malformed f" "frag_input f"
  shows "(length (ft_datagrams t) \<ge> ft_max_datagrams t \<and> create_datagram t f key now = Some (None, t)) \<or>
    (\<exists>d. length (ft_datagrams t) < ft_max_datagrams t \<and>
       create_datagram t f key now = Some (Some (length (ft_datagrams t)), t\<lparr>ft_datagrams := ft_datagrams t @ [d]\<rparr>) \<and>
       fd_key d = key \<and> fd_ranges d = [] \<and> \<not> fd_has_last d \<and> fd_capacity d = 0 \<and> fd_data d = [] \<and>
       frag_table_ok (t\<lparr>ft_datagrams := ft_datagrams t @ [d]\<rparr>))"
proof (cases "length (ft_datagrams t) \<ge> ft_max_datagrams t")
  case False
  let ?d0 = "\<lparr>fd_active = True, fd_key = key, fd_last_seen = now,
       fd_header_length = 0, fd_header = replicate 60 0, fd_data = [], fd_capacity = 0,
       fd_has_last = False, fd_total = 0, fd_ranges = []\<rparr>"
  obtain h where h: "copy_header f ?d0 = Some (?d0\<lparr>fd_header_length := ipv4_header_length f, fd_header := h\<rparr>)"
    "length h = 60"
    using copy_header_ok [OF assms(3) not_malformedD(3) [OF assms(2,3)], of ?d0] by auto
  show ?thesis
    using False h assms(1) not_malformedD(2,3) [OF assms(2,3)]
    by (intro disjI2 exI [of _ "?d0\<lparr>fd_header_length := ipv4_header_length f, fd_header := h\<rparr>"])
      (auto simp: create_datagram_def frag_table_ok_def frag_entry_ok_def)
qed (simp add: create_datagram_def)

text \<open>The entries for key \<open>k\<close> hold bytes of one datagram, and a complete one is that datagram.\<close>

definition frag_tracked :: "bytes \<Rightarrow> bytes \<Rightarrow> frag_key \<Rightarrow> frag_table \<Rightarrow> bool" where
  "frag_tracked h S k t \<longleftrightarrow>
     (\<forall>d \<in> set (ft_datagrams t). frag_key_equals (fd_key d) k \<longrightarrow> frag_track h S d)"

lemma delivered_correct:
  assumes "frag_track h S d" "coverage_is_complete d" "length (fd_data d) = fd_capacity d"
    "fd_total d \<le> fd_capacity d"
  shows "frag_delivered d = \<lparr>fp_result = FRAG_REASSEMBLED, fp_packet = Some (rebuilt h S),
    fp_packet_length = length h + length S\<rparr>"
proof -
  have tot: "fd_total d = length S" "0 < length S" "coverage_scan (length S) 0 (fd_ranges d)"
    using assms(1,2) by (auto simp: coverage_is_complete_def frag_track_def split: if_splits)
  have cov: "\<exists>r \<in> set (fd_ranges d). r_start r \<le> x \<and> x < r_end r" if "x < length S" for x
    using coverage_scan_covers [OF tot(3)] that by simp
  have "take (length S) (fd_data d) = S"
  proof (rule nth_equalityI)
    fix x assume "x < length (take (length S) (fd_data d))"
    then have "x < length S" by simp
    with cov obtain r where "r \<in> set (fd_ranges d)" "r_start r \<le> x" "x < r_end r" by blast
    with \<open>x < length S\<close> show "take (length S) (fd_data d) ! x = S ! x"
      using assms(1) by (simp add: frag_track_def range_holds_def)
  qed (use assms(3,4) tot in simp)
  moreover have "take (fd_header_length d) (fd_header d) = h"
    using cov [OF tot(2)] assms(1) by (auto simp: frag_track_def)
  ultimately show ?thesis by (simp add: frag_delivered_def tot Let_def)
qed

lemma frag_store_step:
  assumes al: "allocator_ok al" and tok: "frag_table_ok t" and i: "i < length (ft_datagrams t)"
    and key: "frag_key_equals (fd_key (ft_datagrams t ! i)) (fragment_key f)"
    and f: "\<not> fragment_is_malformed f" "frag_input f"
    and tr: "frag_tracked h S k t" and fo: "frag_key_equals (fragment_key f) k \<Longrightarrow> frag_of h S f"
  shows "\<exists>ans t' stats'. frag_store al t i f now stats = Some (ans, t', stats') \<and>
    frag_table_ok t' \<and> frag_same t t' \<and> frag_tracked h S k t' \<and> frag_whole ans \<and>
    (frag_key_equals (fragment_key f) k \<and> fp_result ans = FRAG_REASSEMBLED \<longrightarrow>
       fp_packet ans = Some (rebuilt h S) \<and> fp_packet_length ans = length h + length S)"
proof -
  let ?d = "ft_datagrams t ! i"
  let ?ov = "range_overlaps ?d (ipv4_fragment_offset f) (frag_end f) \<or> FRAG_MAX_RANGES \<le> length (fd_ranges ?d)"
  obtain ans t' stats' where o: "frag_store al t i f now stats = Some (ans, t', stats')"
    "frag_table_ok t'" "frag_same t t'"
    "if ?ov then ans = frag_answer FRAG_MALFORMED \<and> ft_datagrams t' = remove_nth i (ft_datagrams t)
     else if no_room al t f ?d then
       ans = frag_answer FRAG_DROPPED \<and> ft_datagrams t' = remove_nth i (ft_datagrams t)
     else \<exists>d'. merged f now ?d d' \<and> frag_end_outcome al t i d' ans (ft_datagrams t')"
    using frag_store_outcome [OF al tok i f, of now stats] by blast
  have sub: "frag_tracked h S k t'" if "ft_datagrams t' = remove_nth i (ft_datagrams t)"
    using tr set_remove_nth [of i "ft_datagrams t"] that by (auto simp: frag_tracked_def)
  show ?thesis
  proof (cases "?ov \<or> no_room al t f ?d")
    case True
    then have "fp_result ans \<noteq> FRAG_REASSEMBLED" "frag_whole ans" "ft_datagrams t' = remove_nth i (ft_datagrams t)"
      using o(4) by (auto simp: frag_whole_def frag_answer_def split: if_splits)
    then show ?thesis using o(1-3) sub by blast
  next
    case False
    then obtain d' where d': "merged f now ?d d'" "frag_end_outcome al t i d' ans (ft_datagrams t')"
      using o(4) by auto
    have cap: "length (fd_data ?d) = fd_capacity ?d"
      using i tok by (simp add: frag_table_ok_def frag_entry_ok_def)
    have k': "frag_key_equals (fd_key d') k \<longleftrightarrow> frag_key_equals (fragment_key f) k"
      "frag_key_equals (fd_key ?d) k \<longleftrightarrow> frag_key_equals (fragment_key f) k"
      using d'(1) key by (auto simp: merged_def frag_key_equals_def)
    have trd: "frag_track h S d'" if "frag_key_equals (fragment_key f) k"
      using merged_track [OF d'(1) _ fo [OF that] cap f] False tr i that k'(2)
      by (auto simp: frag_tracked_def)
    have sz: "length (fd_data d') = fd_capacity d'" "fd_total d' \<le> fd_capacity d'"
      using d'(1) by (simp_all add: merged_def)
    have put: "frag_tracked h S k t'" if "ft_datagrams t' = (ft_datagrams t)[i := d']"
      using tr trd k'(1) that set_update_subset_insert [of "ft_datagrams t" i d']
      by (auto simp: frag_tracked_def)
    have del: "fp_packet (frag_delivered d') = Some (rebuilt h S) \<and>
        fp_packet_length (frag_delivered d') = length h + length S"
      if "frag_key_equals (fragment_key f) k" "coverage_is_complete d'"
      using delivered_correct [OF trd [OF that(1)] that(2) sz] by simp
    have whole: "frag_whole ans"
      using d'(2) by (auto simp: frag_end_outcome_def split: if_splits)
    show ?thesis
      using d'(2) o(1-3) sub put del whole
      by (auto simp: frag_end_outcome_def frag_answer_def split: if_splits)
  qed
qed

lemma frag_lookup_step:
  assumes tok: "frag_table_ok t" and f: "\<not> fragment_is_malformed f" "frag_input f"
    and tr: "frag_tracked h S k t"
  obtains (full) "(case find_datagram t (fragment_key f) of Some i \<Rightarrow> Some (Some i, t)
      | None \<Rightarrow> create_datagram t f (fragment_key f) now) = Some (None, t)"
  | (found) i t2 where "(case find_datagram t (fragment_key f) of Some i \<Rightarrow> Some (Some i, t)
      | None \<Rightarrow> create_datagram t f (fragment_key f) now) = Some (Some i, t2)"
      "i < length (ft_datagrams t2)" "frag_key_equals (fd_key (ft_datagrams t2 ! i)) (fragment_key f)"
      "frag_table_ok t2" "frag_same t t2" "frag_tracked h S k t2"
proof (cases "find_datagram t (fragment_key f)")
  case None
  from create_datagram_ok [OF tok f, of "fragment_key f" now] show ?thesis
  proof (elim disjE exE conjE)
    assume "create_datagram t f (fragment_key f) now = Some (None, t)"
    then show ?thesis using full None by simp
  next
    fix d assume d: "create_datagram t f (fragment_key f) now =
        Some (Some (length (ft_datagrams t)), t\<lparr>ft_datagrams := ft_datagrams t @ [d]\<rparr>)"
      "fd_key d = fragment_key f" "fd_ranges d = []" "\<not> fd_has_last d"
      "frag_table_ok (t\<lparr>ft_datagrams := ft_datagrams t @ [d]\<rparr>)"
    show ?thesis
      using None d tr
      by (intro found [of "length (ft_datagrams t)" "t\<lparr>ft_datagrams := ft_datagrams t @ [d]\<rparr>"])
        (auto simp: frag_key_equals_def frag_same_def frag_tracked_def frag_track_def ranges_ok_def)
  qed
next
  case (Some i)
  then show ?thesis
    using found [of i t] find_datagram_Some [OF Some] tok tr by (simp add: frag_same_def)
qed

lemma frag_process_step:
  assumes al: "allocator_ok al" and tok: "frag_table_ok t" and fi: "frag_input f"
    and tr: "frag_tracked h S k t" and fo: "frag_key_equals (fragment_key f) k \<Longrightarrow> frag_of h S f"
  shows "\<exists>ans t' stats'. ipv4_fragment_table_process al t f now stats = Some (ans, t', stats') \<and>
    frag_table_ok t' \<and> frag_same t t' \<and> frag_tracked h S k t' \<and> frag_whole ans \<and>
    (frag_key_equals (fragment_key f) k \<and> fp_result ans = FRAG_REASSEMBLED \<longrightarrow>
       fp_packet ans = Some (rebuilt h S) \<and> fp_packet_length ans = length h + length S)"
proof (cases "\<not> ft_live t \<or> \<not> is_ipv4_fragment f")
  case True
  then show ?thesis
    using tok tr by (auto simp: ipv4_fragment_table_process_def frag_same_def frag_whole_def frag_answer_def)
next
  case live: False
  define stats1 where "stats1 = stats\<lparr>ipv4_fragments_seen := ipv4_fragments_seen stats + 1\<rparr>"
  obtain t1 stats2 where ex: "ipv4_fragment_table_expire t now stats1 = (t1, stats2)"
    by (cases "ipv4_fragment_table_expire t now stats1")
  have t1: "frag_table_ok t1" "frag_same t t1" "frag_tracked h S k t1"
    using expire_ok [OF tok, of now stats1] expire_frame [of t now stats1]
      expire_subset [of t now stats1] ex tr by (auto simp: frag_same_def frag_tracked_def)
  note def = ipv4_fragment_table_process_def stats1_def [symmetric] ex make_key_defined [OF fi]
  show ?thesis
  proof (cases "fragment_is_malformed f")
    case True
    then show ?thesis using live t1 by (simp add: def frag_whole_def frag_answer_def)
  next
    case nm: False
    show ?thesis
    proof (cases rule: frag_lookup_step [OF t1(1) nm fi t1(3), of now, case_names full found])
      case full
      then show ?thesis using live nm t1 by (simp add: def frag_whole_def frag_answer_def)
    next
      case (found i t2)
      have "frag_same t t2" using t1(2) found(5) by (simp add: frag_same_def)
      then show ?thesis
        using frag_store_step [OF al found(4,2,3) nm fi found(6) fo, of now stats2] live nm found(1)
        by (auto simp: def frag_same_def)
    qed
  qed
qed



text \<open>A run feeds fragments, each with the time it arrives, to the table.\<close>

fun frag_run :: "allocator \<Rightarrow> frag_table \<Rightarrow> packet_stats \<Rightarrow> (packet_info \<times> u64) list \<Rightarrow>
    (frag_process_result list \<times> frag_table \<times> packet_stats) option" where
  "frag_run al t stats [] = Some ([], t, stats)"
| "frag_run al t stats ((f, now) # evs) = do {
     (ans, t1, stats1) \<leftarrow> ipv4_fragment_table_process al t f now stats;
     (rest, t2, stats2) \<leftarrow> frag_run al t1 stats1 evs;
     Some (ans # rest, t2, stats2)
   }"

text \<open>A delivered packet of key \<open>k\<close> is the datagram with payload \<open>S\<close>.\<close>

definition frag_right :: "bytes \<Rightarrow> bytes \<Rightarrow> frag_key \<Rightarrow> packet_info \<Rightarrow> frag_process_result \<Rightarrow> bool" where
  "frag_right h S k f ans \<longleftrightarrow>
     (frag_key_equals (fragment_key f) k \<and> fp_result ans = FRAG_REASSEMBLED \<longrightarrow>
       fp_packet ans = Some (rebuilt h S) \<and> fp_packet_length ans = length h + length S)"

lemma frag_run_right:
  assumes al: "allocator_ok al"
  shows "frag_table_ok t \<Longrightarrow> frag_tracked h S k t \<Longrightarrow>
    \<forall>(f, now) \<in> set evs. frag_input f \<and> (frag_key_equals (fragment_key f) k \<longrightarrow> frag_of h S f) \<Longrightarrow>
    \<exists>rs t' stats'. frag_run al t stats evs = Some (rs, t', stats') \<and> frag_table_ok t' \<and> frag_same t t' \<and>
      list_all2 (\<lambda>(f, now) ans. frag_right h S k f ans) evs rs"
proof (induction evs arbitrary: t stats)
  case (Cons ev evs)
  obtain f now where ev: "ev = (f, now)" by (cases ev)
  have f: "frag_input f" "frag_key_equals (fragment_key f) k \<Longrightarrow> frag_of h S f"
    using Cons.prems(3) ev by auto
  obtain ans t1 stats1 where st: "ipv4_fragment_table_process al t f now stats = Some (ans, t1, stats1)"
    "frag_table_ok t1" "frag_same t t1" "frag_tracked h S k t1" "frag_right h S k f ans"
    using frag_process_step [OF al Cons.prems(1) f(1) Cons.prems(2) f(2), of now stats]
    unfolding frag_right_def by blast
  then show ?case
    using Cons.IH [OF st(2,4), of stats1] Cons.prems(3) ev by (auto simp: frag_same_def)
qed (simp add: frag_same_def)

lemma frag_init_ok:
  "ipv4_fragment_table_init c t0 n m timeout = (True, t) \<Longrightarrow>
     frag_table_ok t \<and> frag_tracked h S k t \<and> ft_live t \<and> ft_datagrams t = [] \<and> ft_max_datagrams t = n \<and>
     ft_max_bytes t = m \<and> ft_timeout t = timeout \<and> 0 < n \<and> ft_used_bytes t = 0"
  by (auto simp: ipv4_fragment_table_init_def frag_table_ok_def frag_tracked_def frag_table_zero_def
      split: if_splits)

text \<open>No fragment has a key whose address text does not fit.\<close>

definition long_key :: frag_key where
  "long_key = \<lparr>fk_src_ip = replicate 46 1, fk_dst_ip = [], fk_protocol = 0, fk_identification = 0\<rparr>"

lemma never_long_key: "\<not> frag_key_equals (fragment_key f) long_key"
proof -
  have l: "length (cstr (put_str (replicate 46 0) s)) < 46" for s
    by (rule cstr_length_terminated) (rule put_str_terminated, simp_all)
  have "length (cstr (replicate 46 1)) = 46" by (simp add: cstr_def takeWhile_eq_all_conv)
  then have "cstr (put_str (replicate 46 0) s) \<noteq> cstr (replicate 46 1)" for s
    using l [of s] by (metis less_irrefl)
  then show ?thesis by (simp add: frag_key_equals_def fragment_key_def long_key_def)
qed



section \<open>Every fragment arrives\<close>

definition range_of :: "packet_info \<Rightarrow> frag_range" where
  "range_of f = \<lparr>r_start = ipv4_fragment_offset f, r_end = frag_end f\<rparr>"

definition frag_disjoint :: "packet_info \<Rightarrow> packet_info \<Rightarrow> bool" where
  "frag_disjoint f g \<longleftrightarrow> frag_end f \<le> ipv4_fragment_offset g \<or> frag_end g \<le> ipv4_fragment_offset f"

definition in_window :: "u64 \<Rightarrow> u32 \<Rightarrow> u64 \<Rightarrow> bool" where
  "in_window T timeout now \<longleftrightarrow> timeout = 0 \<or> T \<le> now \<and> now - T < ucast timeout"

lemma in_window_alive:
  assumes "in_window T timeout (fd_last_seen d)" "in_window T timeout now" "timeout \<noteq> 0"
  shows "\<not> frag_expired now timeout d"
proof -
  have w: "T \<le> fd_last_seen d" "T \<le> now" "now - T < ucast timeout" using assms by (auto simp: in_window_def)
  have "frag_idle now d \<le> now - T"
  proof (cases "fd_last_seen d \<le> now")
    case True
    then show ?thesis using w by (simp add: frag_idle_def word_le_nat_alt unat_sub)
  qed (simp add: frag_idle_def)
  then show ?thesis using w(3) by (auto simp: frag_expired_def)
qed

text \<open>The entry when the fragments \<open>fs\<close> have arrived, and the table that holds only it.\<close>

definition frag_partial :: "bytes \<Rightarrow> bytes \<Rightarrow> packet_info list \<Rightarrow> frag_datagram \<Rightarrow> bool" where
  "frag_partial h S fs d \<longleftrightarrow> frag_track h S d \<and> set (fd_ranges d) = range_of ` set fs \<and>
     length (fd_ranges d) = length fs \<and> (fd_has_last d \<longleftrightarrow> (\<exists>f \<in> set fs. \<not> ipv4_more_fragments f)) \<and>
     fd_capacity d \<le> length S"

definition frag_waiting :: "bytes \<Rightarrow> bytes \<Rightarrow> frag_key \<Rightarrow> u64 \<Rightarrow> packet_info list \<Rightarrow> frag_table \<Rightarrow> bool" where
  "frag_waiting h S k T fs t \<longleftrightarrow> frag_table_ok t \<and> ft_live t \<and> 0 < ft_max_datagrams t \<and>
     length S \<le> ft_max_bytes t \<and>
     (if fs = [] then ft_datagrams t = []
      else \<exists>d. ft_datagrams t = [d] \<and> frag_key_equals (fd_key d) k \<and> frag_partial h S fs d \<and>
        in_window T (ft_timeout t) (fd_last_seen d))"

definition frag_piece :: "bytes \<Rightarrow> bytes \<Rightarrow> frag_key \<Rightarrow> packet_info \<Rightarrow> bool" where
  "frag_piece h S k f \<longleftrightarrow> \<not> fragment_is_malformed f \<and> frag_input f \<and> frag_key_equals (fragment_key f) k \<and>
     frag_of h S f"

lemma waiting_expire:
  assumes "frag_waiting h S k T fs t" "in_window T (ft_timeout t) now"
  shows "frag_waiting h S k T fs (fst (ipv4_fragment_table_expire t now stats))"
proof -
  let ?t = "fst (ipv4_fragment_table_expire t now stats)"
  have "ft_datagrams ?t = ft_datagrams t"
    using assms in_window_alive [OF _ assms(2)]
    by (auto simp: expire_items frag_waiting_def split: if_splits)
  then show ?thesis
    using assms(1) expire_frame [of t now stats] expire_ok [of t now stats] by (simp add: frag_waiting_def)
qed

lemma waiting_lookup:
  assumes w: "frag_waiting h S k T fs t" and f: "frag_piece h S k f"
  shows "\<exists>t2 d. (case find_datagram t (fragment_key f) of Some i \<Rightarrow> Some (Some i, t)
      | None \<Rightarrow> create_datagram t f (fragment_key f) now) = Some (Some 0, t2) \<and>
    frag_table_ok t2 \<and> ft_live t2 \<and> 0 < ft_max_datagrams t2 \<and> length S \<le> ft_max_bytes t2 \<and>
    ft_timeout t2 = ft_timeout t \<and>
    ft_datagrams t2 = [d] \<and> frag_key_equals (fd_key d) k \<and> frag_partial h S fs d"
proof (cases "fs = []")
  case True
  then have e: "ft_datagrams t = []" "find_datagram t (fragment_key f) = None"
    using w by (simp_all add: frag_waiting_def find_datagram_def)
  from create_datagram_ok [of t f "fragment_key f" now] w f e True show ?thesis
    by (auto simp: frag_waiting_def frag_piece_def frag_partial_def frag_track_def ranges_ok_def)
next
  case False
  then obtain d where d: "ft_datagrams t = [d]" "frag_key_equals (fd_key d) k" "frag_partial h S fs d"
    using w by (auto simp: frag_waiting_def)
  have "find_datagram t (fragment_key f) = Some 0"
    using d f by (auto simp: find_datagram_def frag_piece_def frag_key_equals_def)
  then show ?thesis using d w by (auto simp: frag_waiting_def)
qed

lemma partial_merged:
  assumes p: "frag_partial h S fs d" and f: "frag_piece h S k f" and m: "merged f now d d'"
    and dl: "length (fd_data d) = fd_capacity d"
    and dis: "\<forall>g \<in> set fs. frag_disjoint g f"
  shows "frag_partial h S (f # fs) d'"
proof -
  have no: "\<not> range_overlaps d (ipv4_fragment_offset f) (frag_end f)"
    using p dis by (auto simp: range_overlaps_def frag_partial_def range_of_def frag_disjoint_def)
  have "frag_track h S d'"
    using merged_track [OF m _ _ dl _ _ no] p f by (simp add: frag_partial_def frag_piece_def)
  then show ?thesis
    using p f m by (auto simp: frag_partial_def merged_def range_of_def frag_piece_def frag_of_def)
qed

text \<open>The entry is complete exactly when nothing is missing.\<close>

lemma partial_incomplete:
  assumes "frag_partial h S fs d" "frag_piece h S k g" "\<forall>f \<in> set fs. frag_disjoint f g"
  shows "\<not> coverage_is_complete d"
proof
  assume c: "coverage_is_complete d"
  then have "coverage_scan (length S) 0 (fd_ranges d)"
    using assms(1) by (auto simp: coverage_is_complete_def frag_partial_def frag_track_def split: if_splits)
  moreover have g: "0 < ipv4_fragment_payload_length g" "frag_end g \<le> length S"
    using assms(2) not_malformedD(5) by (auto simp: frag_piece_def frag_of_def)
  ultimately obtain r where "r \<in> set (fd_ranges d)" "r_start r \<le> ipv4_fragment_offset g"
    "ipv4_fragment_offset g < r_end r"
    using coverage_scan_covers [of "length S" 0 "fd_ranges d" "ipv4_fragment_offset g"] by auto
  then show False
    using assms(1,3) g by (auto simp: frag_partial_def range_of_def frag_disjoint_def)
qed

lemma partial_complete:
  assumes "frag_partial h S fs d" "\<forall>x < length S. \<exists>f \<in> set fs. ipv4_fragment_offset f \<le> x \<and> x < frag_end f"
    "\<forall>f \<in> set fs. frag_piece h S k f" "S \<noteq> []"
  shows "coverage_is_complete d"
proof -
  have "length S - 1 < length S" using assms(4) by simp
  then obtain f where f: "f \<in> set fs" "length S - 1 < frag_end f" using assms(2) by blast
  then have "\<not> ipv4_more_fragments f" using assms(3) by (auto simp: frag_piece_def frag_of_def)
  then have last: "fd_has_last d" "fd_total d = length S"
    using assms(1) f by (auto simp: frag_partial_def frag_track_def)
  have "coverage_scan (length S) 0 (fd_ranges d)"
  proof (rule coverage_scan_complete)
    show "ranges_ok (fd_ranges d)" using assms(1) by (simp add: frag_partial_def frag_track_def)
    show "\<forall>r \<in> set (fd_ranges d). 0 \<le> r_start r \<and> r_end r \<le> length S"
      using assms(1) by (auto simp: frag_partial_def frag_track_def range_holds_def)
    show "\<forall>x. 0 \<le> x \<and> x < length S \<longrightarrow> (\<exists>r \<in> set (fd_ranges d). r_start r \<le> x \<and> x < r_end r)"
      using assms(1,2) by (fastforce simp: frag_partial_def range_of_def)
  qed (use assms(4) in simp)
  then show ?thesis using last assms(4) by (simp add: coverage_is_complete_def)
qed



lemma waiting_store:
  assumes al: "allocator_ok al" "\<forall>n. al n \<noteq> None" and f: "frag_piece h S k f"
    and t: "frag_table_ok t" "ft_live t" "0 < ft_max_datagrams t" "length S \<le> ft_max_bytes t"
    and d: "ft_datagrams t = [d]" "frag_key_equals (fd_key d) k" "frag_partial h S fs d"
    and fs: "length fs < FRAG_MAX_RANGES" "\<forall>g \<in> set fs. frag_disjoint g f"
    and S: "S \<noteq> []" "length h + length S \<le> 65535"
    and now: "in_window T (ft_timeout t) now"
  shows "\<exists>ans t' stats'. frag_store al t 0 f now stats = Some (ans, t', stats') \<and>
    ft_timeout t' = ft_timeout t \<and>
    ((\<exists>g. frag_piece h S k g \<and> (\<forall>e \<in> set (f # fs). frag_disjoint e g)) \<longrightarrow>
       ans = frag_answer FRAG_QUEUED \<and> frag_waiting h S k T (f # fs) t') \<and>
    ((\<forall>x < length S. \<exists>e \<in> set (f # fs). ipv4_fragment_offset e \<le> x \<and> x < frag_end e) \<and>
       (\<forall>e \<in> set (f # fs). frag_piece h S k e) \<longrightarrow>
       ans = \<lparr>fp_result = FRAG_REASSEMBLED, fp_packet = Some (rebuilt h S),
              fp_packet_length = length h + length S\<rparr> \<and> ft_datagrams t' = [])"
proof -
  have nm: "\<not> fragment_is_malformed f" "frag_input f" using f by (simp_all add: frag_piece_def)
  have i: "0 < length (ft_datagrams t)" by (simp add: d)
  have dl: "length (fd_data d) = fd_capacity d"
    using t(1) d(1) by (simp add: frag_table_ok_def frag_entry_ok_def)
  have no: "\<not> range_overlaps d (ipv4_fragment_offset f) (frag_end f)"
    "length (fd_ranges d) < FRAG_MAX_RANGES"
    using d(3) fs by (auto simp: range_overlaps_def frag_partial_def range_of_def frag_disjoint_def)
  have room: "\<not> no_room al t f d"
    using t(1,4) d f al(2) by (auto simp: no_room_def frag_table_ok_def frag_partial_def frag_piece_def frag_of_def)
  obtain ans t' stats' d' where r: "frag_store al t 0 f now stats = Some (ans, t', stats')"
    "frag_table_ok t'" "frag_same t t'" "merged f now d d'" "frag_end_outcome al t 0 d' ans (ft_datagrams t')"
    using frag_store_outcome [OF al(1) t(1) i nm, of now stats] no room d(1) by (auto simp: not_le)
  have p: "frag_partial h S (f # fs) d'" by (rule partial_merged [OF d(3) f r(4) dl fs(2)])
  have sz: "length (fd_data d') = fd_capacity d'" "fd_total d' \<le> fd_capacity d'" "fd_last_seen d' = now"
    "fd_key d' = fd_key d" using r(4) by (simp_all add: merged_def)
  have queued: "ans = frag_answer FRAG_QUEUED \<and> frag_waiting h S k T (f # fs) t'"
    if "frag_piece h S k g" "\<forall>e \<in> set (f # fs). frag_disjoint e g" for g
    using partial_incomplete [OF p that] r(2,3,5) p sz d t now
    by (simp add: frag_end_outcome_def frag_waiting_def frag_same_def)
  have whole: "ans = \<lparr>fp_result = FRAG_REASSEMBLED, fp_packet = Some (rebuilt h S),
              fp_packet_length = length h + length S\<rparr> \<and> ft_datagrams t' = []"
    if "\<forall>x < length S. \<exists>e \<in> set (f # fs). ipv4_fragment_offset e \<le> x \<and> x < frag_end e"
      "\<forall>e \<in> set (f # fs). frag_piece h S k e"
  proof -
    have c: "coverage_is_complete d'" by (rule partial_complete [OF p that S(1)])
    have tr: "frag_track h S d'" using p by (simp add: frag_partial_def)
    have del: "frag_delivered d' = \<lparr>fp_result = FRAG_REASSEMBLED, fp_packet = Some (rebuilt h S),
              fp_packet_length = length h + length S\<rparr>"
      by (rule delivered_correct [OF tr c sz(1,2)])
    have "length (take (fd_header_length d') (fd_header d')) = fd_header_length d'"
      "length (take (fd_total d') (fd_data d')) = fd_total d'"
      using r(4) sz by (simp_all add: merged_def)
    moreover have "fp_packet_length (frag_delivered d') = length h + length S" by (simp add: del)
    ultimately have "fd_header_length d' + fd_total d' = length h + length S"
      by (simp only: frag_delivered_def Let_def frag_process_result.simps)
    then show ?thesis
      using r(5) c al(2) S(2) d(1) del by (simp add: frag_end_outcome_def remove_nth_def)
  qed
  show ?thesis using r(1,3) queued whole by (auto simp: frag_same_def)
qed

lemma waiting_process:
  assumes al: "allocator_ok al" "\<forall>n. al n \<noteq> None" and f: "frag_piece h S k f"
    and w: "frag_waiting h S k T fs t"
    and fs: "length fs < FRAG_MAX_RANGES" "\<forall>g \<in> set fs. frag_disjoint g f"
    and S: "S \<noteq> []" "length h + length S \<le> 65535"
    and now: "in_window T (ft_timeout t) now"
  shows "\<exists>ans t' stats'. ipv4_fragment_table_process al t f now stats = Some (ans, t', stats') \<and>
    ft_timeout t' = ft_timeout t \<and>
    ((\<exists>g. frag_piece h S k g \<and> (\<forall>e \<in> set (f # fs). frag_disjoint e g)) \<longrightarrow>
       ans = frag_answer FRAG_QUEUED \<and> frag_waiting h S k T (f # fs) t') \<and>
    ((\<forall>x < length S. \<exists>e \<in> set (f # fs). ipv4_fragment_offset e \<le> x \<and> x < frag_end e) \<and>
       (\<forall>e \<in> set (f # fs). frag_piece h S k e) \<longrightarrow>
       ans = \<lparr>fp_result = FRAG_REASSEMBLED, fp_packet = Some (rebuilt h S),
              fp_packet_length = length h + length S\<rparr> \<and> ft_datagrams t' = [])"
proof -
  define stats1 where "stats1 = stats\<lparr>ipv4_fragments_seen := ipv4_fragments_seen stats + 1\<rparr>"
  obtain t1 stats2 where ex: "ipv4_fragment_table_expire t now stats1 = (t1, stats2)"
    by (cases "ipv4_fragment_table_expire t now stats1")
  have t1: "frag_waiting h S k T fs t1" "ft_timeout t1 = ft_timeout t"
    using waiting_expire [OF w now, of stats1] expire_frame [of t now stats1] ex by simp_all
  obtain t2 d where t2: "(case find_datagram t1 (fragment_key f) of Some i \<Rightarrow> Some (Some i, t1)
      | None \<Rightarrow> create_datagram t1 f (fragment_key f) now) = Some (Some 0, t2)"
    "frag_table_ok t2" "ft_live t2" "0 < ft_max_datagrams t2" "length S \<le> ft_max_bytes t2"
    "ft_timeout t2 = ft_timeout t" "ft_datagrams t2 = [d]" "frag_key_equals (fd_key d) k"
    "frag_partial h S fs d"
    using waiting_lookup [OF t1(1) f, of now] t1(2) by auto
  have live: "ft_live t" "is_ipv4_fragment f" "\<not> fragment_is_malformed f"
    using w f not_malformedD(1) [of f] by (auto simp: frag_waiting_def frag_piece_def)
  have "ipv4_fragment_table_process al t f now stats = frag_store al t2 0 f now stats2"
    using live t2(1) f by (simp add: ipv4_fragment_table_process_def stats1_def [symmetric] ex make_key_defined frag_piece_def)
  then show ?thesis
    using waiting_store [OF al f t2(2-5,7-9) fs S, of T now stats2] now t2(6) by simp
qed

lemma waiting_run:
  assumes al: "allocator_ok al" "\<forall>n. al n \<noteq> None" and S: "S \<noteq> []" "length h + length S \<le> 65535"
  shows "frag_waiting h S k T fs t \<Longrightarrow> evs \<noteq> [] \<Longrightarrow> length fs + length evs \<le> FRAG_MAX_RANGES \<Longrightarrow>
    \<forall>(f, now) \<in> set evs. in_window T (ft_timeout t) now \<Longrightarrow>
    \<forall>f \<in> set fs \<union> fst ` set evs. frag_piece h S k f \<Longrightarrow>
    sorted_wrt frag_disjoint (rev fs @ map fst evs) \<Longrightarrow>
    \<forall>x < length S. \<exists>f \<in> set fs \<union> fst ` set evs. ipv4_fragment_offset f \<le> x \<and> x < frag_end f \<Longrightarrow>
    \<exists>t' stats'. frag_run al t stats evs = Some (replicate (length evs - 1) (frag_answer FRAG_QUEUED) @
      [\<lparr>fp_result = FRAG_REASSEMBLED, fp_packet = Some (rebuilt h S),
         fp_packet_length = length h + length S\<rparr>], t', stats') \<and> ft_datagrams t' = []"
proof (induction evs arbitrary: fs t stats)
  case (Cons ev evs)
  obtain f now where ev: "ev = (f, now)" by (cases ev)
  have f: "frag_piece h S k f" "length fs < FRAG_MAX_RANGES" "in_window T (ft_timeout t) now"
    "\<forall>g \<in> set fs. frag_disjoint g f"
    using Cons.prems(3-6) ev by (auto simp: sorted_wrt_append)
  from waiting_process [OF al f(1) Cons.prems(1) f(2,4) S f(3), of stats]
  obtain ans t1 stats1 where st: "ipv4_fragment_table_process al t f now stats = Some (ans, t1, stats1)"
    "ft_timeout t1 = ft_timeout t"
    "(\<exists>g. frag_piece h S k g \<and> (\<forall>e \<in> set (f # fs). frag_disjoint e g)) \<longrightarrow>
       ans = frag_answer FRAG_QUEUED \<and> frag_waiting h S k T (f # fs) t1"
    "(\<forall>x < length S. \<exists>e \<in> set (f # fs). ipv4_fragment_offset e \<le> x \<and> x < frag_end e) \<and>
       (\<forall>e \<in> set (f # fs). frag_piece h S k e) \<longrightarrow>
       ans = \<lparr>fp_result = FRAG_REASSEMBLED, fp_packet = Some (rebuilt h S),
              fp_packet_length = length h + length S\<rparr> \<and> ft_datagrams t1 = []" by blast
  show ?case
  proof (cases "evs = []")
    case True
    then show ?thesis using st Cons.prems(5,7) ev by auto
  next
    case False
    then obtain g where g: "g \<in> fst ` set evs" by (cases evs) auto
    have "frag_piece h S k g" "\<forall>e \<in> set (f # fs). frag_disjoint e g"
      using g Cons.prems(5,6) ev by (auto simp: sorted_wrt_append)
    then have q: "ans = frag_answer FRAG_QUEUED" "frag_waiting h S k T (f # fs) t1" using st(3) by blast+
    obtain t' stats' where "frag_run al t1 stats1 evs =
      Some (replicate (length evs - 1) (frag_answer FRAG_QUEUED) @
      [\<lparr>fp_result = FRAG_REASSEMBLED, fp_packet = Some (rebuilt h S),
         fp_packet_length = length h + length S\<rparr>], t', stats')" "ft_datagrams t' = []"
      using Cons.IH [OF q(2) False, of stats1] Cons.prems(3-7) ev st(2)
      by (auto simp del: sorted_wrt_append)
    moreover have "replicate (length evs) (frag_answer FRAG_QUEUED) =
        frag_answer FRAG_QUEUED # replicate (length evs - 1) (frag_answer FRAG_QUEUED)"
      using False by (cases evs) simp_all
    ultimately show ?thesis using st(1) q(1) ev by simp
  qed
qed simp



section \<open>Properties\<close>

text \<open>C12. Reassembly is faithful. Feed an initialised table any fragments at any times, where those
  that carry key \<open>k\<close> are cut from one datagram with payload \<open>S\<close> and first-fragment header \<open>h\<close>:
  processing never accesses memory out of bounds, and whenever a fragment of that key completes a
  datagram the packet handed out is exactly header \<open>h\<close>, with the total length, the flags and the
  checksum field rewritten, followed by \<open>S\<close>. Duplicates, overlaps, malformed fragments, eviction
  and fragments of other datagrams never make a wrong packet.\<close>

theorem frag_reassembly_faithful:
  assumes "allocator_ok al" "ipv4_fragment_table_init c t0 n m timeout = (True, t)"
    "\<forall>(f, now) \<in> set evs. frag_input f \<and> (frag_key_equals (fragment_key f) k \<longrightarrow> frag_of h S f)"
  shows "\<exists>rs t' stats'. frag_run al t stats evs = Some (rs, t', stats') \<and> length rs = length evs \<and>
    (\<forall>j < length evs. frag_key_equals (fragment_key (fst (evs ! j))) k \<and>
       fp_result (rs ! j) = FRAG_REASSEMBLED \<longrightarrow>
       fp_packet (rs ! j) = Some (rebuilt h S) \<and> fp_packet_length (rs ! j) = length (rebuilt h S))"
proof -
  have "frag_table_ok t" "frag_tracked h S k t" using frag_init_ok [OF assms(2)] by auto
  from frag_run_right [OF assms(1) this assms(3), of stats] show ?thesis
    by (fastforce simp: list_all2_conv_all_nth frag_right_def split_def rebuilt_def)
qed

text \<open>C13. Fragment memory is bounded. Whatever fragments arrive and whenever they do, the table
  holds at most its configured number of datagrams, \<open>used_bytes\<close> is exactly the memory of their
  blocks and stays within the configured cap, and no datagram has more than 64 ranges.\<close>

theorem frag_memory_bounded:
  assumes "allocator_ok al" "ipv4_fragment_table_init c t0 n m timeout = (True, t)"
    "\<forall>(f, now) \<in> set evs. frag_input f"
  shows "\<exists>rs t' stats'. frag_run al t stats evs = Some (rs, t', stats') \<and>
    length (ft_datagrams t') \<le> n \<and> ft_used_bytes t' \<le> m \<and>
    ft_used_bytes t' = sum_list (map (length \<circ> fd_data) (ft_datagrams t')) \<and>
    (\<forall>d \<in> set (ft_datagrams t'). length (fd_ranges d) \<le> FRAG_MAX_RANGES)"
proof -
  have ini: "frag_table_ok t" "frag_tracked [] [] long_key t" "ft_max_datagrams t = n" "ft_max_bytes t = m"
    using frag_init_ok [OF assms(2)] by auto
  obtain rs t' stats' where "frag_run al t stats evs = Some (rs, t', stats')"
    "frag_table_ok t'" "frag_same t t'"
    using frag_run_right [OF assms(1) ini(1,2), of evs stats] assms(3) never_long_key by (auto simp: split_def)
  then show ?thesis
    using ini by (auto simp: frag_table_ok_def frag_same_def frag_entry_ok_def cong: map_cong)
qed

text \<open>C14. Reassembly is complete, in any order, within the limits. Take an initialised table, which is empty,
  whose byte cap has room for a datagram's payload \<open>S\<close>, and let no allocation fail. Cut \<open>S\<close> into at most 64
  fragments (the ranges one datagram can hold) that do not overlap, and feed them in any order and within the
  timeout: every fragment but the last one to arrive is queued, and the last one delivers the datagram and
  empties the table.\<close>

theorem frag_reassembly_complete:
  assumes "allocator_ok al" "\<forall>n. al n \<noteq> None"
    "ipv4_fragment_table_init c t0 n m timeout = (True, t)"
    "S \<noteq> []" "length S \<le> m" "length h + length S \<le> 65535" "evs \<noteq> []" "length evs \<le> FRAG_MAX_RANGES"
    "\<forall>(f, now) \<in> set evs. frag_piece h S k f \<and> in_window T timeout now"
    "sorted_wrt frag_disjoint (map fst evs)"
    "\<forall>x < length S. \<exists>f \<in> set (map fst evs). ipv4_fragment_offset f \<le> x \<and> x < frag_end f"
  shows "\<exists>t' stats'. frag_run al t stats evs =
      Some (replicate (length evs - 1) (frag_answer FRAG_QUEUED) @
        [\<lparr>fp_result = FRAG_REASSEMBLED, fp_packet = Some (rebuilt h S),
          fp_packet_length = length h + length S\<rparr>], t', stats') \<and> ft_datagrams t' = []"
proof -
  have t: "frag_table_ok t \<and> frag_tracked h S k t \<and> ft_live t \<and> ft_datagrams t = [] \<and> ft_max_datagrams t = n \<and>
     ft_max_bytes t = m \<and> ft_timeout t = timeout \<and> 0 < n \<and> ft_used_bytes t = 0"
    by (rule frag_init_ok [OF assms(3)])
  then have "frag_waiting h S k T [] t" using assms(5) by (simp add: frag_waiting_def)
  from waiting_run [OF assms(1,2,4,6) this assms(7), of stats] show ?thesis
    using t assms(8-11) by (auto simp: split_def)
qed

text \<open>C15. Expiry removes exactly what is stale. With a timeout set, \<open>ipv4_fragment_table_expire\<close>
  keeps the datagrams seen less than \<open>timeout\<close> seconds ago, in order, and no other, counts each one
  it drops, and gives their memory back: \<open>used_bytes\<close> is again the memory of the blocks.\<close>

theorem frag_expire_exact:
  assumes "frag_table_ok t" "ft_live t" "ft_timeout t \<noteq> 0"
    "ipv4_fragment_table_expire t now stats = (t', stats')"
  shows "ft_datagrams t' = filter (\<lambda>d. \<not> (fd_last_seen d \<le> now \<and> ucast (ft_timeout t) \<le> now - fd_last_seen d))
      (ft_datagrams t) \<and>
    ipv4_fragments_expired stats' = ipv4_fragments_expired stats +
      of_nat (length (ft_datagrams t) - length (ft_datagrams t')) \<and>
    ft_used_bytes t' = sum_list (map (length \<circ> fd_data) (ft_datagrams t'))"
proof -
  have nz: "ucast (ft_timeout t) \<noteq> (0 :: u64)"
    using assms(3) by (metis unat_ucast_u32 unat_0 unat_eq_zero)
  have e: "frag_expired now (ft_timeout t) d \<longleftrightarrow> fd_last_seen d \<le> now \<and> ucast (ft_timeout t) \<le> now - fd_last_seen d" for d
    using nz by (auto simp: frag_expired_def frag_idle_def)
  have i: "ft_datagrams t' = filter (\<lambda>d. \<not> frag_expired now (ft_timeout t) d) (ft_datagrams t)"
    using expire_items [of t now stats] assms by simp
  have l: "length (filter (frag_expired now (ft_timeout t)) (ft_datagrams t)) =
      length (ft_datagrams t) - length (ft_datagrams t')"
    using sum_length_filter_compl [of "frag_expired now (ft_timeout t)" "ft_datagrams t"] by (simp add: i)
  have "frag_table_ok t'" using expire_ok [OF assms(1), of now stats] assms(4) by simp
  then have u: "ft_used_bytes t' = sum_list (map (length \<circ> fd_data) (ft_datagrams t'))"
    by (auto simp: frag_table_ok_def frag_entry_ok_def cong: map_cong)
  show ?thesis
    using expire_count [OF assms(2,3), of now stats] assms(4) i l u by (simp add: e)
qed


section \<open>A concrete datagram\<close>

definition ex_header :: bytes where
  "ex_header = [0x45, 0, 0, 0, 0, 7, 0x20, 0, 64, 17, 1, 2] @ [10, 0, 0, 1, 10, 0, 0, 2] @ replicate 40 0"

definition ex_frag :: "nat \<Rightarrow> bool \<Rightarrow> bytes \<Rightarrow> packet_info" where
  "ex_frag off mf p = packet_info_zero\<lparr>src_ip := put_str (replicate 46 0) (asc ''10.0.0.1''),
     dst_ip := put_str (replicate 46 0) (asc ''10.0.0.2''), ip_version := 4,
     is_ipv4_fragment := True, ipv4_identification := 7, ipv4_protocol_number := 17,
     ipv4_header_length := 20, ipv4_fragment_offset := off, ipv4_more_fragments := mf,
     ipv4_fragment_payload_length := length p, ipv4_fragment_payload := Some p,
     ipv4_header := ex_header\<rparr>"

text \<open>The last fragment arrives first.\<close>

definition ex_frags :: "(packet_info \<times> u64) list" where
  "ex_frags = [(ex_frag 8 False [9, 10, 11], 5), (ex_frag 0 True [1, 2, 3, 4, 5, 6, 7, 8], 6)]"

abbreviation (input) ex_payload :: bytes where
  "ex_payload \<equiv> [1, 2, 3, 4, 5, 6, 7, 8, 9, 10, 11]"

definition ex_frag_table :: frag_table where
  "ex_frag_table = snd (ipv4_fragment_table_init True frag_table_zero 4 4096 30)"

lemma ex_frag_table_init:
  "ipv4_fragment_table_init True frag_table_zero 4 4096 30 = (True, ex_frag_table)"
  by (simp add: ex_frag_table_def ipv4_fragment_table_init_def)

lemma ex_frag_fields [simp]:
  "ipv4_header (ex_frag off mf p) = ex_header" "ipv4_fragment_payload (ex_frag off mf p) = Some p"
    "ipv4_fragment_payload_length (ex_frag off mf p) = length p" "ipv4_header_length (ex_frag off mf p) = 20"
    "ipv4_fragment_offset (ex_frag off mf p) = off" "ipv4_more_fragments (ex_frag off mf p) = mf"
  by (simp_all add: ex_frag_def)

lemma ex_header_length [simp]: "length ex_header = 60"
  by (simp add: ex_header_def)

lemma ex_frags_pieces:
  "\<forall>(f, now) \<in> set ex_frags. frag_piece (take 20 ex_header) ex_payload (fragment_key (ex_frag 0 True [])) f \<and>
     in_window 5 30 now"
proof -
  have "frag_input (ex_frag off mf p)" if "length p < 2 ^ 63" for off mf p
    using that put_str_terminated [of "replicate 46 0" 46] by (simp add: frag_input_def ex_frag_def terminated_def)
  moreover have "frag_key_equals (fragment_key (ex_frag off mf p)) (fragment_key (ex_frag 0 True []))" for off mf p
    by (simp add: fragment_key_def ex_frag_def frag_key_equals_def)
  moreover have "\<not> fragment_is_malformed (ex_frag 8 False [9, 10, 11])"
    "\<not> fragment_is_malformed (ex_frag 0 True [1, 2, 3, 4, 5, 6, 7, 8])"
    by (simp_all add: fragment_is_malformed_def size_add_def) (simp_all add: ex_frag_def)
  moreover have "in_window 5 30 5" "in_window 5 30 6" by code_simp+
  ultimately show ?thesis
    by (simp add: ex_frags_def frag_piece_def frag_of_def)
qed

theorem frag_reassembly_faithful_witness:
  "\<exists>rs t' stats'. frag_run ex_malloc ex_frag_table packet_stats_zero ex_frags = Some (rs, t', stats') \<and>
    length rs = length ex_frags \<and>
    (\<forall>j < length ex_frags. frag_key_equals (fragment_key (fst (ex_frags ! j))) (fragment_key (ex_frag 0 True [])) \<and>
       fp_result (rs ! j) = FRAG_REASSEMBLED \<longrightarrow>
       fp_packet (rs ! j) = Some (rebuilt (take 20 ex_header) ex_payload) \<and>
       fp_packet_length (rs ! j) = length (rebuilt (take 20 ex_header) ex_payload))"
  by (rule frag_reassembly_faithful [OF ex_malloc_ok ex_frag_table_init])
    (use ex_frags_pieces in \<open>auto simp: frag_piece_def\<close>)

theorem frag_memory_bounded_witness:
  "\<exists>rs t' stats'. frag_run ex_malloc ex_frag_table packet_stats_zero ex_frags = Some (rs, t', stats') \<and>
    length (ft_datagrams t') \<le> 4 \<and> ft_used_bytes t' \<le> 4096 \<and>
    ft_used_bytes t' = sum_list (map (length \<circ> fd_data) (ft_datagrams t')) \<and>
    (\<forall>d \<in> set (ft_datagrams t'). length (fd_ranges d) \<le> FRAG_MAX_RANGES)"
  by (rule frag_memory_bounded [OF ex_malloc_ok ex_frag_table_init])
    (use ex_frags_pieces in \<open>auto simp: frag_piece_def\<close>)

theorem frag_reassembly_complete_witness:
  "\<exists>t' stats'. frag_run ex_malloc ex_frag_table packet_stats_zero ex_frags =
      Some (replicate (length ex_frags - 1) (frag_answer FRAG_QUEUED) @
        [\<lparr>fp_result = FRAG_REASSEMBLED, fp_packet = Some (rebuilt (take 20 ex_header) ex_payload),
          fp_packet_length = length (take 20 ex_header) + length ex_payload\<rparr>], t', stats') \<and>
    ft_datagrams t' = []"
proof (rule frag_reassembly_complete [OF ex_malloc_ok _ ex_frag_table_init _ _ _ _ _ ex_frags_pieces])
  show "\<forall>x < length ex_payload. \<exists>f \<in> set (map fst ex_frags). ipv4_fragment_offset f \<le> x \<and> x < frag_end f"
    by (auto simp: ex_frags_def)
qed (simp_all add: ex_malloc_def ex_frags_def frag_disjoint_def)

definition ex_stale :: frag_table where
  "ex_stale = ex_frag_table\<lparr>ft_datagrams := [\<lparr>fd_active = True, fd_key = fragment_key (ex_frag 0 True []),
     fd_last_seen = 5, fd_header_length = 20, fd_header = ex_header, fd_data = [1, 2],
     fd_capacity = 2, fd_has_last = False, fd_total = 0, fd_ranges = []\<rparr>], ft_used_bytes := 2\<rparr>"

lemma ex_stale_window: "(5 :: u64) \<le> 35 \<and> ucast (30 :: u32) \<le> (35 - 5 :: u64)"
  by simp

theorem frag_expire_exact_witness:
  "ft_datagrams (fst (ipv4_fragment_table_expire ex_stale 35 packet_stats_zero)) = [] \<and>
   ipv4_fragments_expired (snd (ipv4_fragment_table_expire ex_stale 35 packet_stats_zero)) = 1"
proof -
  have ok: "frag_table_ok ex_stale" "ft_live ex_stale" "ft_timeout ex_stale \<noteq> 0"
    by (simp_all add: ex_stale_def ex_frag_table_def ipv4_fragment_table_init_def frag_table_zero_def
        frag_table_ok_def frag_entry_ok_def)
  obtain t' s' where e: "ipv4_fragment_table_expire ex_stale 35 packet_stats_zero = (t', s')" by fastforce
  from frag_expire_exact [OF ok e] have
    "ft_datagrams t' = filter (\<lambda>d. \<not> (fd_last_seen d \<le> 35 \<and> ucast (ft_timeout ex_stale) \<le> 35 - fd_last_seen d))
      (ft_datagrams ex_stale)"
    "ipv4_fragments_expired s' = ipv4_fragments_expired packet_stats_zero +
      of_nat (length (ft_datagrams ex_stale) - length (ft_datagrams t'))" by blast+
  moreover have "ft_datagrams ex_stale = [ft_datagrams ex_stale ! 0]"
    "fd_last_seen (ft_datagrams ex_stale ! 0) = 5" "ft_timeout ex_stale = 30"
    "ipv4_fragments_expired packet_stats_zero = 0"
    by (simp_all add: ex_stale_def ex_frag_table_def ipv4_fragment_table_init_def packet_stats_zero_def
        frag_table_zero_def)
  ultimately show ?thesis unfolding e fst_conv snd_conv
    by (metis (no_types, lifting) One_nat_def add_0 diff_zero filter.simps length_Cons list.size(3) of_nat_1
        ex_stale_window)
qed

end
