(* ===== verification/Flow.thy ===== *)
theory Flow
  imports Common Table_Sweep Tcp_Reassembly
begin

text \<open>
  \<open>src/flow.c\<close> and \<open>include/flow.h\<close>: the bounded table of TCP conversations, each with two
  directions of reassembly state. The flow array with its count is the list of its live entries, a
  flow pointer is its index, and \<open>flows != NULL\<close> is the flag \<open>fl_live\<close>.

  \<open>inet_pton\<close> and the address family constants are the platform's, a parameter: what the code
  relies on is that a parsed address has 4 or 16 bytes (\<open>inet_ok\<close>).
\<close>

section \<open>Addresses and keys\<close>

record inet =
  af_inet :: int
  af_inet6 :: int
  pton4 :: "bytes \<Rightarrow> bytes option"
  pton6 :: "bytes \<Rightarrow> bytes option"

definition inet_ok :: "inet \<Rightarrow> bool" where
  "inet_ok N \<longleftrightarrow> (\<forall>s b. pton4 N s = Some b \<longrightarrow> length b = 4) \<and>
     (\<forall>s b. pton6 N s = Some b \<longrightarrow> length b = 16)"

record ip_address =
  ip_family :: int
  ip_bytes :: bytes

record flow_key =
  a_ip :: ip_address
  a_port :: u16
  b_ip :: ip_address
  b_port :: u16
  transport_protocol :: u8

datatype flow_direction = FLOW_DIR_A_TO_B | FLOW_DIR_B_TO_A

definition packet_protocol_to_flow_protocol :: "Protocol \<Rightarrow> u8 option" where
  "packet_protocol_to_flow_protocol p =
     (if p = PROTO_TCP then Some 6 else if p = PROTO_UDP then Some 17 else None)"

text \<open>A parsed address is copied into the first bytes of the zeroed structure.\<close>

definition parse_ip_address :: "inet \<Rightarrow> bytes \<Rightarrow> ip_address option option" where
  "parse_ip_address N text =
     (case pton4 N text of
        Some b \<Rightarrow> do { f \<leftarrow> blit (replicate 16 0) 0 b;
                       Some (Some \<lparr>ip_family = af_inet N, ip_bytes = f\<rparr>) }
      | None \<Rightarrow>
          (case pton6 N text of
             Some b \<Rightarrow> do { f \<leftarrow> blit (replicate 16 0) 0 b;
                            Some (Some \<lparr>ip_family = af_inet6 N, ip_bytes = f\<rparr>) }
           | None \<Rightarrow> Some None))"

text \<open>The sign of \<open>memcmp\<close> on blocks of the same size: bytes compare as unsigned.\<close>

fun memcmp :: "bytes \<Rightarrow> bytes \<Rightarrow> int" where
  "memcmp (x # xs) (y # ys) = (if x < y then -1 else if y < x then 1 else memcmp xs ys)"
| "memcmp _ _ = 0"

definition compare_endpoint :: "ip_address \<Rightarrow> u16 \<Rightarrow> ip_address \<Rightarrow> u16 \<Rightarrow> int" where
  "compare_endpoint left_ip left_port right_ip right_port =
     (if ip_family left_ip < ip_family right_ip then -1
      else if ip_family left_ip > ip_family right_ip then 1
      else let address_order = memcmp (ip_bytes left_ip) (ip_bytes right_ip) in
        if address_order \<noteq> 0 then (if address_order < 0 then -1 else 1)
        else if left_port < right_port then -1
        else if left_port > right_port then 1
        else 0)"

definition flow_key_equals :: "flow_key \<Rightarrow> flow_key \<Rightarrow> bool" where
  "flow_key_equals l r \<longleftrightarrow>
     ip_family (a_ip l) = ip_family (a_ip r) \<and> memcmp (ip_bytes (a_ip l)) (ip_bytes (a_ip r)) = 0 \<and>
     a_port l = a_port r \<and> ip_family (b_ip l) = ip_family (b_ip r) \<and>
     memcmp (ip_bytes (b_ip l)) (ip_bytes (b_ip r)) = 0 \<and>
     b_port l = b_port r \<and> transport_protocol l = transport_protocol r"

definition flow_key_from_packet :: "inet \<Rightarrow> packet_info \<Rightarrow> (flow_key \<times> flow_direction) option option" where
  "flow_key_from_packet N p =
     (if \<not> has_ports p then Some None
      else case packet_protocol_to_flow_protocol (protocol p) of
        None \<Rightarrow> Some None
      | Some proto \<Rightarrow> do {
          src_text \<leftarrow> c_str (src_ip p);
          src \<leftarrow> parse_ip_address N src_text;
          case src of None \<Rightarrow> Some None | Some sip \<Rightarrow> do {
            dst_text \<leftarrow> c_str (dst_ip p);
            dst \<leftarrow> parse_ip_address N dst_text;
            case dst of None \<Rightarrow> Some None | Some dip \<Rightarrow>
              let ordering = compare_endpoint sip (src_port p) dip (dst_port p) in
              if protocol p = PROTO_TCP \<and> ordering > 0 then
                Some (Some (\<lparr>a_ip = dip, a_port = dst_port p, b_ip = sip, b_port = src_port p,
                             transport_protocol = proto\<rparr>, FLOW_DIR_B_TO_A))
              else
                Some (Some (\<lparr>a_ip = sip, a_port = src_port p, b_ip = dip, b_port = dst_port p,
                             transport_protocol = proto\<rparr>, FLOW_DIR_A_TO_B))
          }
        })"

section \<open>Flows and the table\<close>

record flow_direction_state =
  fds_packet_count :: u64
  fds_byte_count :: u64
  fds_tcp :: tcp_direction

record flow_info =
  fi_key :: flow_key
  fi_created_time :: u64
  fi_last_seen_time :: u64
  fi_packet_count :: u64
  fi_byte_count :: u64
  fi_app :: app_info
  fi_app_decode_status :: AppDecodeStatus
  fi_app_classified :: bool
  fi_app_event_printed :: bool
  fi_stream_buffer_bytes :: nat
  fi_a_to_b :: flow_direction_state
  fi_b_to_a :: flow_direction_state

definition direction_of :: "flow_info \<Rightarrow> flow_direction \<Rightarrow> flow_direction_state" where
  "direction_of f d = (case d of FLOW_DIR_A_TO_B \<Rightarrow> fi_a_to_b f | FLOW_DIR_B_TO_A \<Rightarrow> fi_b_to_a f)"

definition set_direction :: "flow_info \<Rightarrow> flow_direction \<Rightarrow> flow_direction_state \<Rightarrow> flow_info" where
  "set_direction f d x = (case d of FLOW_DIR_A_TO_B \<Rightarrow> f\<lparr>fi_a_to_b := x\<rparr>
     | FLOW_DIR_B_TO_A \<Rightarrow> f\<lparr>fi_b_to_a := x\<rparr>)"

abbreviation tcp_a :: "flow_info \<Rightarrow> tcp_direction" where "tcp_a f \<equiv> fds_tcp (fi_a_to_b f)"
abbreviation tcp_b :: "flow_info \<Rightarrow> tcp_direction" where "tcp_b f \<equiv> fds_tcp (fi_b_to_a f)"

record flow_table =
  fl_live :: bool
  fl_flows :: "flow_info list"
  fl_max_flows :: nat
  fl_stream_buffer_bytes :: nat
  fl_timeout_seconds :: u32
  fl_created :: u64
  fl_closed_fin :: u64
  fl_closed_rst :: u64
  fl_evicted_idle :: u64
  fl_evicted_capacity :: u64
  fl_retransmissions_total :: u64
  fl_out_of_order_segments_total :: u64
  fl_overlapping_segments_total :: u64
  fl_gaps_total :: u64

definition flow_table_zero :: flow_table where
  "flow_table_zero = \<lparr>fl_live = False, fl_flows = [], fl_max_flows = 0, fl_stream_buffer_bytes = 0,
     fl_timeout_seconds = 0, fl_created = 0, fl_closed_fin = 0, fl_closed_rst = 0,
     fl_evicted_idle = 0, fl_evicted_capacity = 0, fl_retransmissions_total = 0,
     fl_out_of_order_segments_total = 0, fl_overlapping_segments_total = 0, fl_gaps_total = 0\<rparr>"

record flow_table_stats =
  st_flows_created :: u64
  st_flows_active :: u64
  st_flows_closed_fin :: u64
  st_flows_closed_rst :: u64
  st_flows_evicted_idle :: u64
  st_flows_evicted_capacity :: u64
  st_retransmissions :: u64
  st_out_of_order_segments :: u64
  st_overlapping_segments :: u64
  st_gaps :: u64
  st_stream_bytes_in_use :: nat
  st_stream_bytes_configured_max :: nat

definition accumulate_direction_totals :: "flow_table \<Rightarrow> tcp_direction \<Rightarrow> flow_table" where
  "accumulate_direction_totals t tcp =
     t\<lparr>fl_retransmissions_total := fl_retransmissions_total t + retransmissions tcp,
       fl_out_of_order_segments_total := fl_out_of_order_segments_total t + out_of_order_segments tcp,
       fl_overlapping_segments_total := fl_overlapping_segments_total t + overlapping_segments tcp,
       fl_gaps_total := fl_gaps_total t + gaps tcp\<rparr>"

definition remove_flow_at :: "flow_table \<Rightarrow> nat \<Rightarrow> flow_table" where
  "remove_flow_at t i =
     (if i \<ge> length (fl_flows t) then t
      else let f = fl_flows t ! i;
               t1 = accumulate_direction_totals (accumulate_direction_totals t (tcp_a f)) (tcp_b f)
           in t1\<lparr>fl_flows := remove_nth i (fl_flows t1)\<rparr>)"

definition flow_table_init ::
    "bool \<Rightarrow> flow_table \<Rightarrow> nat \<Rightarrow> nat \<Rightarrow> u32 \<Rightarrow> bool \<times> flow_table" where
  "flow_table_init calloc_ok t max_flows stream_bytes timeout_seconds =
     (if max_flows = 0 \<or> stream_bytes = 0 \<or> max_flows > 1024 \<or> stream_bytes > 1048576 \<or>
         max_flows > 134217728 div 4 div stream_bytes then (False, t)
      else if \<not> calloc_ok then (False, flow_table_zero)
      else (True, flow_table_zero\<lparr>fl_live := True, fl_max_flows := max_flows,
                    fl_stream_buffer_bytes := stream_bytes, fl_timeout_seconds := timeout_seconds\<rparr>))"

definition flow_table_cleanup :: "flow_table \<Rightarrow> flow_table" where
  "flow_table_cleanup t = flow_table_zero"

definition flow_idle :: "u64 \<Rightarrow> flow_info \<Rightarrow> u64" where
  "flow_idle now f = (if now \<ge> fi_last_seen_time f then now - fi_last_seen_time f else 0)"

lemma length_remove_flow: "i < length (fl_flows t) \<Longrightarrow>
    length (fl_flows (remove_flow_at t i)) = length (fl_flows t) - 1"
  by (simp add: remove_flow_at_def Let_def length_remove_nth accumulate_direction_totals_def)

function evict_idle_loop :: "u64 \<Rightarrow> flow_table \<Rightarrow> nat \<Rightarrow> flow_table" where
  "evict_idle_loop now t i =
     (if i < length (fl_flows t) then
        if flow_idle now (fl_flows t ! i) \<ge> ucast (fl_timeout_seconds t) then
          evict_idle_loop now (remove_flow_at (t\<lparr>fl_evicted_idle := fl_evicted_idle t + 1\<rparr>) i) i
        else evict_idle_loop now t (Suc i)
      else t)"
  by pat_completeness auto
termination
  by (relation "measure (\<lambda>(_, t, i). length (fl_flows t) - i)") (auto simp: length_remove_flow)

declare evict_idle_loop.simps [simp del]

definition flow_table_evict_idle :: "flow_table \<Rightarrow> u64 \<Rightarrow> flow_table" where
  "flow_table_evict_idle t now =
     (if \<not> fl_live t \<or> fl_timeout_seconds t = 0 then t else evict_idle_loop now t 0)"

definition flow_is_closed :: "flow_info \<Rightarrow> bool" where
  "flow_is_closed f =
     (if rst_seen (tcp_a f) \<or> rst_seen (tcp_b f) then True
      else fin_seen (tcp_a f) \<and> fin_seen (tcp_b f))"

definition flow_release_reassembly_buffers :: "flow_info \<Rightarrow> flow_info" where
  "flow_release_reassembly_buffers f =
     f\<lparr>fi_a_to_b := (fi_a_to_b f)\<lparr>fds_tcp := tcp_reassembly_direction_release_buffers (tcp_a f)\<rparr>,
       fi_b_to_a := (fi_b_to_a f)\<lparr>fds_tcp := tcp_reassembly_direction_release_buffers (tcp_b f)\<rparr>\<rparr>"

definition count_closed :: "flow_table \<Rightarrow> nat \<Rightarrow> flow_table" where
  "count_closed t i =
     (if rst_seen (tcp_a (fl_flows t ! i)) \<or> rst_seen (tcp_b (fl_flows t ! i))
      then t\<lparr>fl_closed_rst := fl_closed_rst t + 1\<rparr> else t\<lparr>fl_closed_fin := fl_closed_fin t + 1\<rparr>)"

lemma count_closed_flows [simp]: "fl_flows (count_closed t i) = fl_flows t"
  by (simp add: count_closed_def)

function evict_closed_loop :: "flow_table \<Rightarrow> nat \<Rightarrow> flow_table" where
  "evict_closed_loop t i =
     (if i < length (fl_flows t) then
        if flow_is_closed (fl_flows t ! i) then
          evict_closed_loop (remove_flow_at (count_closed t i) i) i
        else evict_closed_loop t (Suc i)
      else t)"
  by pat_completeness auto
termination
  by (relation "measure (\<lambda>(t, i). length (fl_flows t) - i)") (auto simp: length_remove_flow)

declare evict_closed_loop.simps [simp del]

definition flow_table_evict_closed :: "flow_table \<Rightarrow> flow_table" where
  "flow_table_evict_closed t = (if \<not> fl_live t then t else evict_closed_loop t 0)"

definition direction_in_use :: "tcp_direction \<Rightarrow> nat" where
  "direction_in_use tcp = (if sb_data (stream tcp) \<noteq> None then 1 else 0)"

fun snapshot_loop :: "flow_info list \<Rightarrow> flow_table_stats \<times> nat \<Rightarrow> flow_table_stats \<times> nat" where
  "snapshot_loop [] (s, active_directions) = (s, active_directions)"
| "snapshot_loop (f # fs) (s, active_directions) =
     snapshot_loop fs
       (s\<lparr>st_retransmissions := st_retransmissions s +
            (retransmissions (tcp_a f) + retransmissions (tcp_b f)),
          st_out_of_order_segments := st_out_of_order_segments s +
            (out_of_order_segments (tcp_a f) + out_of_order_segments (tcp_b f)),
          st_overlapping_segments := st_overlapping_segments s +
            (overlapping_segments (tcp_a f) + overlapping_segments (tcp_b f)),
          st_gaps := st_gaps s + (gaps (tcp_a f) + gaps (tcp_b f))\<rparr>,
        active_directions + direction_in_use (tcp_a f) + direction_in_use (tcp_b f))"

definition flow_table_snapshot_stats :: "flow_table \<Rightarrow> flow_table_stats" where
  "flow_table_snapshot_stats t =
     (let s0 = \<lparr>st_flows_created = fl_created t, st_flows_active = of_nat (length (fl_flows t)),
                st_flows_closed_fin = fl_closed_fin t, st_flows_closed_rst = fl_closed_rst t,
                st_flows_evicted_idle = fl_evicted_idle t,
                st_flows_evicted_capacity = fl_evicted_capacity t,
                st_retransmissions = fl_retransmissions_total t,
                st_out_of_order_segments = fl_out_of_order_segments_total t,
                st_overlapping_segments = fl_overlapping_segments_total t,
                st_gaps = fl_gaps_total t, st_stream_bytes_in_use = 0,
                st_stream_bytes_configured_max = 0\<rparr>;
          (s, active_directions) = snapshot_loop (fl_flows t) (s0, 0)
      in s\<lparr>st_stream_bytes_in_use := active_directions * fl_stream_buffer_bytes t,
           st_stream_bytes_configured_max := fl_max_flows t * fl_stream_buffer_bytes t * 2\<rparr>)"

fun oldest_scan :: "flow_info list \<Rightarrow> nat \<Rightarrow> nat \<Rightarrow> u64 \<Rightarrow> nat" where
  "oldest_scan [] i oldest oldest_time = oldest"
| "oldest_scan (f # fs) i oldest oldest_time =
     (if fi_last_seen_time f < oldest_time then oldest_scan fs (Suc i) i (fi_last_seen_time f)
      else oldest_scan fs (Suc i) oldest oldest_time)"

definition evict_oldest_flow :: "flow_table \<Rightarrow> flow_table" where
  "evict_oldest_flow t =
     (case fl_flows t of
        [] \<Rightarrow> t
      | f # fs \<Rightarrow> remove_flow_at (t\<lparr>fl_evicted_capacity := fl_evicted_capacity t + 1\<rparr>)
                    (oldest_scan fs 1 0 (fi_last_seen_time f)))"

fun find_flow_from :: "flow_key \<Rightarrow> flow_info list \<Rightarrow> nat \<Rightarrow> nat option" where
  "find_flow_from key [] i = None"
| "find_flow_from key (f # fs) i =
     (if flow_key_equals (fi_key f) key then Some i else find_flow_from key fs (Suc i))"

text \<open>\<open>memset\<close> to zero, then the key, the times, the buffer size and the unknown protocol.\<close>

definition new_flow :: "flow_table \<Rightarrow> flow_key \<Rightarrow> u64 \<Rightarrow> flow_info" where
  "new_flow t key now =
     \<lparr>fi_key = key, fi_created_time = now, fi_last_seen_time = now, fi_packet_count = 0,
      fi_byte_count = 0, fi_app = app_info_zero\<lparr>app_protocol := APP_PROTO_UNKNOWN\<rparr>,
      fi_app_decode_status = STATUS_NOT_RUN, fi_app_classified = False,
      fi_app_event_printed = False, fi_stream_buffer_bytes = fl_stream_buffer_bytes t,
      fi_a_to_b = \<lparr>fds_packet_count = 0, fds_byte_count = 0, fds_tcp = tcp_direction_zero\<rparr>,
      fi_b_to_a = \<lparr>fds_packet_count = 0, fds_byte_count = 0, fds_tcp = tcp_direction_zero\<rparr>\<rparr>"

text \<open>The result is the index of the flow and the packet's direction, or NULL.\<close>

definition flow_table_get_or_create :: "inet \<Rightarrow> flow_table \<Rightarrow> packet_info \<Rightarrow> u64 \<Rightarrow>
    ((nat \<times> flow_direction) option \<times> flow_table) option" where
  "flow_table_get_or_create N t p now =
     (if \<not> fl_live t \<or> protocol p \<noteq> PROTO_TCP then Some (None, t)
      else do {
        kd \<leftarrow> flow_key_from_packet N p;
        case kd of None \<Rightarrow> Some (None, t) | Some (key, direction) \<Rightarrow>
          let t1 = flow_table_evict_closed (flow_table_evict_idle t now) in
          case find_flow_from key (fl_flows t1) 0 of
            Some i \<Rightarrow> Some (Some (i, direction), t1)
          | None \<Rightarrow>
              let t2 = (if length (fl_flows t1) \<ge> fl_max_flows t1 then evict_oldest_flow t1 else t1) in
              if length (fl_flows t2) \<ge> fl_max_flows t2 then Some (None, t2)
              else Some (Some (length (fl_flows t2), direction),
                t2\<lparr>fl_flows := fl_flows t2 @ [new_flow t2 key now], fl_created := fl_created t2 + 1\<rparr>)
      })"

definition flow_prepare_reassembly_direction ::
    "allocator \<Rightarrow> flow_info \<Rightarrow> flow_direction \<Rightarrow> bool \<times> flow_info" where
  "flow_prepare_reassembly_direction al f d =
     (if fi_stream_buffer_bytes f = 0 then (False, f)
      else let tcp = fds_tcp (direction_of f d) in
        if sb_data (stream tcp) \<noteq> None then (True, f)
        else let (r, tcp') = tcp_reassembly_direction_init al tcp (fi_stream_buffer_bytes f)
             in (r, set_direction f d ((direction_of f d)\<lparr>fds_tcp := tcp'\<rparr>)))"

definition flow_update_packet :: "flow_info \<Rightarrow> packet_info \<Rightarrow> u64 \<Rightarrow> flow_direction \<Rightarrow> flow_info" where
  "flow_update_packet f p now d =
     (let f1 = f\<lparr>fi_last_seen_time := now, fi_packet_count := fi_packet_count f + 1,
                 fi_byte_count := fi_byte_count f + of_nat (pkt_size p)\<rparr>;
          x = direction_of f1 d
      in set_direction f1 d (x\<lparr>fds_packet_count := fds_packet_count x + 1,
                               fds_byte_count := fds_byte_count x + of_nat (pkt_size p)\<rparr>))"



section \<open>Keys\<close>

lemma memcmp_antisym: "memcmp ys xs = - memcmp xs ys"
  by (induction xs ys rule: memcmp.induct) auto

lemma memcmp_zero: "length xs = length ys \<Longrightarrow> memcmp xs ys = 0 \<longleftrightarrow> xs = ys"
  by (induction xs ys rule: list_induct2) auto

lemma compare_endpoint_antisym: "compare_endpoint b q a p = - compare_endpoint a p b q"
  using memcmp_antisym [of "ip_bytes a" "ip_bytes b"] by (auto simp: compare_endpoint_def Let_def)

definition ip_ok :: "ip_address \<Rightarrow> bool" where
  "ip_ok a \<longleftrightarrow> length (ip_bytes a) = 16"

lemma compare_endpoint_zero:
  "ip_ok a \<Longrightarrow> ip_ok b \<Longrightarrow> compare_endpoint a p b q = 0 \<longleftrightarrow> a = b \<and> p = q"
  using memcmp_zero [of "ip_bytes a" "ip_bytes b"]
  by (auto simp: compare_endpoint_def Let_def ip_ok_def not_less_iff_gr_or_eq)

lemma flow_key_equals_eq:
  "ip_ok (a_ip l) \<Longrightarrow> ip_ok (a_ip r) \<Longrightarrow> ip_ok (b_ip l) \<Longrightarrow> ip_ok (b_ip r) \<Longrightarrow>
     flow_key_equals l r \<longleftrightarrow> l = r"
  by (auto simp: flow_key_equals_def memcmp_zero ip_ok_def)

lemma parse_ip_defined:
  "inet_ok N \<Longrightarrow> \<exists>r. parse_ip_address N s = Some r \<and> (\<forall>a. r = Some a \<longrightarrow> ip_ok a)"
  by (auto simp: parse_ip_address_def inet_ok_def blit_def ip_ok_def split: option.splits)

text \<open>The two ends of a packet, parsed.\<close>

definition packet_ends :: "inet \<Rightarrow> packet_info \<Rightarrow> ((ip_address \<times> u16) \<times> (ip_address \<times> u16)) option" where
  "packet_ends N p = (case (parse_ip_address N (cstr (src_ip p)), parse_ip_address N (cstr (dst_ip p))) of
     (Some (Some s), Some (Some d)) \<Rightarrow> Some ((s, src_port p), (d, dst_port p)) | _ \<Rightarrow> None)"

lemma flow_key_cases:
  assumes "inet_ok N" "flow_key_from_packet N p = Some x"
  shows "x = (case (if has_ports p then packet_protocol_to_flow_protocol (protocol p) else None, packet_ends N p) of
       (Some proto, Some ((s, sp), (d, dp))) \<Rightarrow>
         if protocol p = PROTO_TCP \<and> compare_endpoint s sp d dp > 0
         then Some (\<lparr>a_ip = d, a_port = dp, b_ip = s, b_port = sp, transport_protocol = proto\<rparr>, FLOW_DIR_B_TO_A)
         else Some (\<lparr>a_ip = s, a_port = sp, b_ip = d, b_port = dp, transport_protocol = proto\<rparr>, FLOW_DIR_A_TO_B)
     | _ \<Rightarrow> None)"
  using parse_ip_defined [OF assms(1), of "cstr (src_ip p)"] parse_ip_defined [OF assms(1), of "cstr (dst_ip p)"] assms(2)
  by (auto simp: flow_key_from_packet_def packet_ends_def c_str_def Let_def split: option.splits if_splits)

lemma flow_key_defined:
  assumes "inet_ok N" "0 \<in> set (src_ip p)" "0 \<in> set (dst_ip p)"
  shows "\<exists>x. flow_key_from_packet N p = Some x"
  using parse_ip_defined [OF assms(1), of "cstr (src_ip p)"] parse_ip_defined [OF assms(1), of "cstr (dst_ip p)"] assms(2,3)
  by (auto simp: flow_key_from_packet_def c_str_terminated Let_def split: option.splits)

lemma packet_ends_ok: "inet_ok N \<Longrightarrow> packet_ends N p = Some ((s, sp), (d, dp)) \<Longrightarrow> ip_ok s \<and> ip_ok d"
  using parse_ip_defined [of N "cstr (src_ip p)"] parse_ip_defined [of N "cstr (dst_ip p)"]
  by (auto simp: packet_ends_def split: option.splits prod.splits)

definition key_ok :: "flow_key \<Rightarrow> bool" where
  "key_ok k \<longleftrightarrow> ip_ok (a_ip k) \<and> ip_ok (b_ip k)"

lemma key_equals_eq: "key_ok l \<Longrightarrow> key_ok r \<Longrightarrow> flow_key_equals l r \<longleftrightarrow> l = r"
  by (simp add: key_ok_def flow_key_equals_eq)

lemma flow_key_ok:
  "inet_ok N \<Longrightarrow> flow_key_from_packet N p = Some (Some (k, dir)) \<Longrightarrow> key_ok k"
  by (frule (1) flow_key_cases) (auto simp: key_ok_def dest: packet_ends_ok split: option.splits if_splits prod.splits)

text \<open>The key of a TCP packet in terms of its ends: A is the end that compares lower.\<close>

lemma tcp_key_ends:
  assumes "inet_ok N" "protocol p = PROTO_TCP" "flow_key_from_packet N p = Some (Some (k, dir))"
  shows "\<exists>s d. packet_ends N p = Some (s, d) \<and> {(a_ip k, a_port k), (b_ip k, b_port k)} = {s, d} \<and>
    compare_endpoint (a_ip k) (a_port k) (b_ip k) (b_port k) \<le> 0 \<and> transport_protocol k = 6 \<and>
    s = (case dir of FLOW_DIR_A_TO_B \<Rightarrow> (a_ip k, a_port k) | FLOW_DIR_B_TO_A \<Rightarrow> (b_ip k, b_port k)) \<and>
    (dir = FLOW_DIR_B_TO_A \<longrightarrow> s \<noteq> d)"
proof -
  note k = flow_key_cases [OF assms(1,3)]
  obtain s sp d dp where e: "packet_ends N p = Some ((s, sp), (d, dp))"
    using k by (auto split: option.splits if_splits prod.splits)
  show ?thesis
    using assms(1,2) k e compare_endpoint_antisym [of d dp s sp] compare_endpoint_zero [of s d sp dp] packet_ends_ok [OF assms(1) e]
    by (auto simp: packet_protocol_to_flow_protocol_def split: option.splits if_splits)
qed



section \<open>Sweeps\<close>

definition flow_expired :: "u64 \<Rightarrow> u32 \<Rightarrow> flow_info \<Rightarrow> bool" where
  "flow_expired now timeout f \<longleftrightarrow> flow_idle now f \<ge> ucast timeout"

lemma remove_flow_fields [simp]:
  "fl_live (remove_flow_at t i) = fl_live t" "fl_max_flows (remove_flow_at t i) = fl_max_flows t"
  "fl_timeout_seconds (remove_flow_at t i) = fl_timeout_seconds t"
  "fl_stream_buffer_bytes (remove_flow_at t i) = fl_stream_buffer_bytes t"
  "fl_created (remove_flow_at t i) = fl_created t" "fl_closed_fin (remove_flow_at t i) = fl_closed_fin t"
  "fl_closed_rst (remove_flow_at t i) = fl_closed_rst t"
  "fl_evicted_idle (remove_flow_at t i) = fl_evicted_idle t"
  "fl_evicted_capacity (remove_flow_at t i) = fl_evicted_capacity t"
  by (simp_all add: remove_flow_at_def accumulate_direction_totals_def Let_def)

lemma remove_flow_items:
  "fl_flows (remove_flow_at t i) = (if i < length (fl_flows t) then remove_nth i (fl_flows t) else fl_flows t)"
  by (simp add: remove_flow_at_def accumulate_direction_totals_def Let_def)

definition evict_idle_one :: "flow_table \<Rightarrow> nat \<Rightarrow> flow_table" where
  "evict_idle_one t i = remove_flow_at (t\<lparr>fl_evicted_idle := fl_evicted_idle t + 1\<rparr>) i"

definition evict_closed_one :: "flow_table \<Rightarrow> nat \<Rightarrow> flow_table" where
  "evict_closed_one t i = remove_flow_at (count_closed t i) i"

lemma count_closed_fields [simp]:
  "fl_live (count_closed t i) = fl_live t" "fl_max_flows (count_closed t i) = fl_max_flows t"
  "fl_timeout_seconds (count_closed t i) = fl_timeout_seconds t"
  "fl_stream_buffer_bytes (count_closed t i) = fl_stream_buffer_bytes t"
  "fl_created (count_closed t i) = fl_created t"
  "fl_evicted_idle (count_closed t i) = fl_evicted_idle t"
  "fl_evicted_capacity (count_closed t i) = fl_evicted_capacity t"
  "fl_closed_fin (count_closed t i) + fl_closed_rst (count_closed t i) = fl_closed_fin t + fl_closed_rst t + 1"
  by (simp_all add: count_closed_def)

interpretation idle_sweep: table_sweep fl_flows evict_idle_one
    "\<lambda>t. flow_expired now (fl_timeout_seconds t)" "evict_idle_loop now" for now :: u64
  by unfold_locales (simp_all add: evict_idle_one_def remove_flow_items evict_idle_loop.simps flow_expired_def)

interpretation closed_sweep: table_sweep fl_flows evict_closed_one "\<lambda>t. flow_is_closed" evict_closed_loop
  by unfold_locales (simp_all add: evict_closed_one_def remove_flow_items evict_closed_loop.simps)

lemma evict_idle_flows:
  "fl_flows (flow_table_evict_idle t now) =
     (if \<not> fl_live t \<or> fl_timeout_seconds t = 0 then fl_flows t
      else filter (\<lambda>f. \<not> flow_expired now (fl_timeout_seconds t) f) (fl_flows t))"
  by (simp add: flow_table_evict_idle_def idle_sweep.sweep_items)

lemma evict_closed_flows:
  "fl_flows (flow_table_evict_closed t) =
     (if \<not> fl_live t then fl_flows t else filter (\<lambda>f. \<not> flow_is_closed f) (fl_flows t))"
  by (simp add: flow_table_evict_closed_def closed_sweep.sweep_items)

text \<open>Whatever removing one flow keeps, the evictions keep.\<close>

lemma evict_idle_invariant:
  assumes "P t" "\<And>t i. P t \<Longrightarrow> i < length (fl_flows t) \<Longrightarrow> P (evict_idle_one t i)"
  shows "P (flow_table_evict_idle t now)"
  using idle_sweep.sweep_invariant [of P t now 0] assms by (simp add: flow_table_evict_idle_def)

lemma evict_closed_invariant:
  assumes "P t" "\<And>t i. P t \<Longrightarrow> i < length (fl_flows t) \<Longrightarrow> P (evict_closed_one t i)"
  shows "P (flow_table_evict_closed t)"
  using closed_sweep.sweep_invariant [of P t 0] assms by (simp add: flow_table_evict_closed_def)

lemma oldest_scan_bound:
  "oldest < i \<Longrightarrow> oldest_scan fs i oldest time < i + length fs"
proof (induction fs arbitrary: i oldest time)
  case (Cons f fs)
  then show ?case using Cons.IH [of i "Suc i"] Cons.IH [of oldest "Suc i"] by simp
qed simp

lemma oldest_scan_least:
  assumes "oldest < i" "i + length fs = length all" "drop i all = fs" "time = fi_last_seen_time (all ! oldest)"
    "\<forall>j < i. time \<le> fi_last_seen_time (all ! j)"
  shows "\<forall>j < length all. fi_last_seen_time (all ! oldest_scan fs i oldest time) \<le> fi_last_seen_time (all ! j)"
  using assms
proof (induction fs arbitrary: i oldest time)
  case (Cons f fs)
  have f: "f = all ! i" "drop (Suc i) all = fs" "i < length all"
    using nth_via_drop [OF Cons.prems(3)] Cons.prems(2,3) by (simp_all, metis drop_Suc list.sel(3) tl_drop)
  show ?case
  proof (cases "fi_last_seen_time f < time")
    case True
    then have "\<forall>j < Suc i. fi_last_seen_time f \<le> fi_last_seen_time (all ! j)"
      using Cons.prems(5) f(1) by (auto simp: less_Suc_eq intro: less_imp_le order.strict_trans2)
    then show ?thesis
      using Cons.IH [of i "Suc i" "fi_last_seen_time f"] True Cons.prems(1,2) f by simp
  next
    case False
    then show ?thesis
      using Cons.IH [of oldest "Suc i" time] Cons.prems f by (auto simp: less_Suc_eq not_less)
  qed
qed simp

lemma evict_oldest_cases:
  assumes "fl_flows t \<noteq> []"
  shows "\<exists>i < length (fl_flows t).
    evict_oldest_flow t = remove_flow_at (t\<lparr>fl_evicted_capacity := fl_evicted_capacity t + 1\<rparr>) i \<and>
    (\<forall>f \<in> set (fl_flows t). fi_last_seen_time (fl_flows t ! i) \<le> fi_last_seen_time f)"
proof -
  obtain f fs where fs: "fl_flows t = f # fs" using assms by (cases "fl_flows t") auto
  let ?i = "oldest_scan fs 1 0 (fi_last_seen_time f)"
  have "?i < 1 + length fs" by (rule oldest_scan_bound) simp
  moreover have "\<forall>j < length (f # fs). fi_last_seen_time ((f # fs) ! ?i) \<le> fi_last_seen_time ((f # fs) ! j)"
    by (rule oldest_scan_least) simp_all
  ultimately show ?thesis
    by (intro exI [of _ ?i]) (auto simp: evict_oldest_flow_def fs all_set_conv_all_nth)
qed

lemma find_flow_from_cases:
  "case find_flow_from key fs n of
     None \<Rightarrow> \<forall>f \<in> set fs. \<not> flow_key_equals (fi_key f) key
   | Some i \<Rightarrow> n \<le> i \<and> i < n + length fs \<and> flow_key_equals (fi_key (fs ! (i - n))) key"
proof (induction key fs n rule: find_flow_from.induct)
  case (2 key f fs i)
  then show ?case
    by (cases "flow_key_equals (fi_key f) key")
      (auto split: option.splits simp: nth_Cons' Suc_le_eq diff_Suc)
qed simp



section \<open>Invariant\<close>

definition flow_dir_ok :: "nat \<Rightarrow> tcp_direction \<Rightarrow> bool" where
  "flow_dir_ok cap tcp \<longleftrightarrow> tcp_ok tcp \<and> pending_byte_cap tcp \<le> cap"

definition flow_ok :: "nat \<Rightarrow> flow_info \<Rightarrow> bool" where
  "flow_ok cap f \<longleftrightarrow> fi_stream_buffer_bytes f = cap \<and> key_ok (fi_key f) \<and>
     flow_dir_ok cap (tcp_a f) \<and> flow_dir_ok cap (tcp_b f)"

definition flow_table_ok :: "flow_table \<Rightarrow> bool" where
  "flow_table_ok t \<longleftrightarrow> length (fl_flows t) \<le> fl_max_flows t \<and> 0 < fl_max_flows t \<and>
     0 < fl_stream_buffer_bytes t \<and> fl_stream_buffer_bytes t \<le> 1048576 \<and>
     fl_max_flows t * (4 * fl_stream_buffer_bytes t) \<le> 134217728 \<and>
     (\<forall>f \<in> set (fl_flows t). flow_ok (fl_stream_buffer_bytes t) f) \<and>
     distinct (map fi_key (fl_flows t))"

text \<open>The bytes a direction has allocated: its stream block and its pending segments.\<close>

definition direction_bytes :: "tcp_direction \<Rightarrow> nat" where
  "direction_bytes tcp = (case sb_data (stream tcp) of None \<Rightarrow> 0 | Some d \<Rightarrow> length d) +
     sum_list (map (length \<circ> seg_data) (pending tcp))"

definition flow_bytes :: "flow_info \<Rightarrow> nat" where
  "flow_bytes f = direction_bytes (tcp_a f) + direction_bytes (tcp_b f)"

lemma direction_bytes_le: "flow_dir_ok cap tcp \<Longrightarrow> direction_bytes tcp \<le> 2 * cap"
proof -
  assume ok: "flow_dir_ok cap tcp"
  have "sum_list (map (length \<circ> seg_data) (pending tcp)) = pending_bytes tcp"
    using ok by (auto simp: flow_dir_ok_def tcp_ok_def seg_ok_def cong: map_cong)
  then show ?thesis
    using ok by (auto simp: flow_dir_ok_def tcp_ok_def sb_ok_def direction_bytes_def split: option.splits)
qed

lemma flow_bytes_le: "flow_ok cap f \<Longrightarrow> flow_bytes f \<le> 4 * cap"
  using direction_bytes_le [of cap "tcp_a f"] direction_bytes_le [of cap "tcp_b f"]
  by (simp add: flow_ok_def flow_bytes_def)

lemma sum_list_map_bounded: "(\<And>x. x \<in> set xs \<Longrightarrow> f x \<le> c) \<Longrightarrow> sum_list (map f xs) \<le> length xs * (c :: nat)"
proof (induction xs)
  case (Cons x xs)
  then have "f x \<le> c" "sum_list (map f xs) \<le> length xs * c" by simp_all
  then show ?case by simp
qed simp

lemma flow_table_bytes_le:
  assumes "flow_table_ok t"
  shows "sum_list (map flow_bytes (fl_flows t)) \<le> 134217728"
proof -
  have "sum_list (map flow_bytes (fl_flows t)) \<le> length (fl_flows t) * (4 * fl_stream_buffer_bytes t)"
    using assms flow_bytes_le by (intro sum_list_map_bounded) (auto simp: flow_table_ok_def)
  also have "\<dots> \<le> fl_max_flows t * (4 * fl_stream_buffer_bytes t)"
    using assms by (intro mult_right_mono) (simp_all add: flow_table_ok_def)
  finally show ?thesis using assms by (simp add: flow_table_ok_def)
qed

lemma distinct_map_remove_nth: "distinct (map f xs) \<Longrightarrow> distinct (map f (remove_nth i xs))"
proof -
  assume "distinct (map f xs)"
  then have "distinct (map f (take i xs @ drop i xs))" by simp
  moreover have "drop (Suc i) xs = tl (drop i xs)" by (simp add: drop_Suc tl_drop)
  ultimately show ?thesis
    by (cases "drop i xs") (auto simp: remove_nth_def simp del: append_take_drop_id)
qed

lemma remove_flow_ok: "flow_table_ok t \<Longrightarrow> flow_table_ok (remove_flow_at t i)"
  using set_remove_nth [of i "fl_flows t"] distinct_map_remove_nth [of fi_key "fl_flows t" i]
  by (auto simp: flow_table_ok_def remove_flow_items length_remove_nth)

lemma flow_counter_ok [simp]:
  "flow_table_ok (t\<lparr>fl_evicted_idle := n\<rparr>) = flow_table_ok t"
  "flow_table_ok (t\<lparr>fl_evicted_capacity := n\<rparr>) = flow_table_ok t"
  "flow_table_ok (t\<lparr>fl_created := n\<rparr>) = flow_table_ok t"
  "flow_table_ok (count_closed t i) = flow_table_ok t"
  by (simp_all add: flow_table_ok_def)

lemma evict_ok:
  "flow_table_ok t \<Longrightarrow> flow_table_ok (flow_table_evict_idle t now)"
  "flow_table_ok t \<Longrightarrow> flow_table_ok (flow_table_evict_closed t)"
  by (rule evict_idle_invariant, assumption, simp add: evict_idle_one_def remove_flow_ok,
      rule evict_closed_invariant, assumption, simp add: evict_closed_one_def remove_flow_ok)

definition flow_same :: "flow_table \<Rightarrow> flow_table \<Rightarrow> bool" where
  "flow_same t t' \<longleftrightarrow> fl_live t' = fl_live t \<and> fl_max_flows t' = fl_max_flows t \<and>
     fl_stream_buffer_bytes t' = fl_stream_buffer_bytes t \<and>
     fl_timeout_seconds t' = fl_timeout_seconds t"

lemma evict_same:
  "flow_same t (flow_table_evict_idle t now)" "flow_same t (flow_table_evict_closed t)"
  by (rule evict_idle_invariant, simp add: flow_same_def, simp add: flow_same_def evict_idle_one_def,
      rule evict_closed_invariant, simp add: flow_same_def, simp add: flow_same_def evict_closed_one_def)

lemma flow_init_ok:
  "flow_table_init c t0 n sb timeout = (True, t) \<Longrightarrow> flow_table_ok t \<and> fl_live t \<and> fl_flows t = [] \<and>
     fl_max_flows t = n \<and> fl_stream_buffer_bytes t = sb \<and> fl_timeout_seconds t = timeout"
proof -
  assume i: "flow_table_init c t0 n sb timeout = (True, t)"
  then have b: "0 < n" "0 < sb" "sb \<le> 1048576" "n \<le> 134217728 div 4 div sb"
    by (auto simp: flow_table_init_def split: if_splits)
  have "n * sb \<le> 134217728 div 4 div sb * sb" using b(4) by (rule mult_right_mono) simp
  also have "\<dots> \<le> 134217728 div 4" by (rule div_times_less_eq_dividend)
  finally have "n * (4 * sb) \<le> 134217728" by simp
  then show ?thesis
    using i b by (auto simp: flow_table_init_def flow_table_ok_def flow_table_zero_def split: if_splits)
qed

section \<open>Lookup\<close>

text \<open>The flows that survive the two evictions of a lookup.\<close>

definition flow_survivors :: "flow_table \<Rightarrow> u64 \<Rightarrow> flow_info list" where
  "flow_survivors t now = filter (\<lambda>f. \<not> flow_is_closed f \<and>
     (fl_timeout_seconds t \<noteq> 0 \<longrightarrow> \<not> flow_expired now (fl_timeout_seconds t) f)) (fl_flows t)"

lemma survivors_evicted:
  fixes now :: u64
  assumes "fl_live t"
  defines "t1 \<equiv> flow_table_evict_closed (flow_table_evict_idle t now)"
  shows "fl_flows t1 = flow_survivors t now" "flow_same t t1" "flow_table_ok t \<Longrightarrow> flow_table_ok t1"
proof -
  have s: "flow_same t (flow_table_evict_idle t now)" "flow_same (flow_table_evict_idle t now) t1"
    using evict_same by (simp_all add: t1_def)
  then show "flow_same t t1" by (simp add: flow_same_def)
  show "fl_flows t1 = flow_survivors t now"
    using assms(1) s(1) by (auto simp: t1_def evict_closed_flows evict_idle_flows flow_survivors_def
        flow_same_def intro!: filter_cong)
qed (simp add: t1_def evict_ok)

lemma new_flow_ok: "key_ok key \<Longrightarrow> fl_stream_buffer_bytes t \<le> 1048576 \<Longrightarrow>
    flow_ok (fl_stream_buffer_bytes t) (new_flow t key now)"
  using tcp_ok_zero by (simp add: flow_ok_def new_flow_def flow_dir_ok_def tcp_direction_zero_def)

text \<open>What a lookup for key \<open>k\<close> does to the flows.\<close>

definition looked_up :: "flow_table \<Rightarrow> flow_key \<Rightarrow> u64 \<Rightarrow> nat \<Rightarrow> flow_table \<Rightarrow> bool" where
  "looked_up t k now i t' \<longleftrightarrow>
     (let live = flow_survivors t now in
      if \<exists>f \<in> set live. fi_key f = k then fl_flows t' = live \<and> i < length live \<and> fi_key (live ! i) = k
      else fl_flows t' ! i = new_flow t k now \<and>
        (if length live < fl_max_flows t then i = length live \<and> fl_flows t' = live @ [new_flow t k now]
         else \<exists>j < length live. i = length live - 1 \<and>
           fl_flows t' = remove_nth j live @ [new_flow t k now] \<and>
           (\<forall>f \<in> set live. fi_last_seen_time (live ! j) \<le> fi_last_seen_time f)))"

lemma get_or_create_ok:
  assumes N: "inet_ok N" and tok: "flow_table_ok t" "fl_live t" "protocol p = PROTO_TCP"
    and key: "flow_key_from_packet N p = Some (Some (k, d))"
  shows "\<exists>i t'. flow_table_get_or_create N t p now = Some (Some (i, d), t') \<and>
    flow_table_ok t' \<and> flow_same t t' \<and> i < length (fl_flows t') \<and> fi_key (fl_flows t' ! i) = k \<and>
    looked_up t k now i t'"
proof -
  define t1 where "t1 = flow_table_evict_closed (flow_table_evict_idle t now)"
  define live where "live = flow_survivors t now"
  have t1: "fl_flows t1 = live" "flow_same t t1" "flow_table_ok t1"
    using survivors_evicted [OF tok(2)] tok(1) by (simp_all add: t1_def live_def)
  have ko: "key_ok k" by (rule flow_key_ok [OF N key])
  have eq: "flow_key_equals (fi_key f) k \<longleftrightarrow> fi_key f = k" if "f \<in> set live" for f
    using t1 that ko key_equals_eq by (auto simp: flow_table_ok_def flow_ok_def)
  have call: "flow_table_get_or_create N t p now =
      (case find_flow_from k live 0 of
         Some i \<Rightarrow> Some (Some (i, d), t1)
       | None \<Rightarrow>
          let t2 = (if length live \<ge> fl_max_flows t1 then evict_oldest_flow t1 else t1) in
          if length (fl_flows t2) \<ge> fl_max_flows t2 then Some (None, t2)
          else Some (Some (length (fl_flows t2), d),
            t2\<lparr>fl_flows := fl_flows t2 @ [new_flow t2 k now], fl_created := fl_created t2 + 1\<rparr>))"
    using tok key by (simp add: flow_table_get_or_create_def t1_def [symmetric] t1(1) Let_def)
  show ?thesis
  proof (cases "find_flow_from k live 0")
    case (Some i)
    then have "i < length live" "fi_key (live ! i) = k"
      using find_flow_from_cases [of live k 0] eq by auto
    then show ?thesis using call Some t1 by (auto simp: looked_up_def live_def [symmetric] Let_def)
  next
    case None
    then have nk: "\<forall>f \<in> set live. fi_key f \<noteq> k"
      using find_flow_from_cases [of live k 0] eq by auto
    define t2 where "t2 = (if length live \<ge> fl_max_flows t1 then evict_oldest_flow t1 else t1)"
    have len: "length live \<le> fl_max_flows t1" "0 < fl_max_flows t1" "fl_max_flows t1 = fl_max_flows t"
      using t1 by (simp_all add: flow_table_ok_def flow_same_def)
    have t2: "flow_table_ok t2 \<and> flow_same t t2 \<and> set (fl_flows t2) \<subseteq> set live \<and>
      (if length live < fl_max_flows t then fl_flows t2 = live
       else \<exists>j < length live. fl_flows t2 = remove_nth j live \<and>
         (\<forall>f \<in> set live. fi_last_seen_time (live ! j) \<le> fi_last_seen_time f))"
    proof (cases "length live < fl_max_flows t")
      case False
      then have "fl_flows t1 \<noteq> []" using len t1(1) by auto
      from evict_oldest_cases [OF this] obtain j where j: "j < length live"
        "evict_oldest_flow t1 = remove_flow_at (t1\<lparr>fl_evicted_capacity := fl_evicted_capacity t1 + 1\<rparr>) j"
        "\<forall>f \<in> set live. fi_last_seen_time (live ! j) \<le> fi_last_seen_time f"
        unfolding t1(1) by blast
      then show ?thesis
        using False len t1 set_remove_nth [of j live]
        by (auto simp: t2_def remove_flow_ok remove_flow_items flow_same_def)
    qed (use t1 len in \<open>simp add: t2_def\<close>)
    have l2: "length (fl_flows t2) < fl_max_flows t" "fl_max_flows t2 = fl_max_flows t"
      "length live < fl_max_flows t \<or> length (fl_flows t2) = length live - 1"
      "new_flow t2 k now = new_flow t k now"
      using t2 len by (auto simp: length_remove_nth flow_same_def new_flow_def split: if_splits)
    define t3 where "t3 = t2\<lparr>fl_flows := fl_flows t2 @ [new_flow t k now], fl_created := fl_created t2 + 1\<rparr>"
    have "flow_table_ok t3"
      using t2 l2 nk new_flow_ok [OF ko, of t2 now]
      by (auto simp: t3_def flow_table_ok_def new_flow_def)
    moreover have "looked_up t k now (length (fl_flows t2)) t3"
      using t2 nk l2(3) by (auto simp: looked_up_def live_def [symmetric] t3_def Let_def split: if_splits)
    moreover have "flow_table_get_or_create N t p now = Some (Some (length (fl_flows t2), d), t3)"
      using call None l2 by (simp add: t2_def [symmetric] t3_def not_le Let_def)
    ultimately show ?thesis using t2 by (auto simp: t3_def flow_same_def new_flow_def)
  qed
qed



section \<open>Accounting\<close>

definition live_sum :: "(tcp_direction \<Rightarrow> u64) \<Rightarrow> flow_info list \<Rightarrow> u64" where
  "live_sum c fs = sum_list (map (\<lambda>f. c (tcp_a f) + c (tcp_b f)) fs)"

lemma live_sum_remove: "i < length fs \<Longrightarrow>
    live_sum c (remove_nth i fs) + (c (tcp_a (fs ! i)) + c (tcp_b (fs ! i))) = live_sum c fs"
  by (subst (3) id_take_nth_drop [of i fs]) (simp_all add: live_sum_def remove_nth_def algebra_simps)

lemma snapshot_loop_sums:
  "snapshot_loop fs (s, n) =
     (s\<lparr>st_retransmissions := st_retransmissions s + live_sum retransmissions fs,
        st_out_of_order_segments := st_out_of_order_segments s + live_sum out_of_order_segments fs,
        st_overlapping_segments := st_overlapping_segments s + live_sum overlapping_segments fs,
        st_gaps := st_gaps s + live_sum gaps fs\<rparr>,
      n + sum_list (map (\<lambda>f. direction_in_use (tcp_a f) + direction_in_use (tcp_b f)) fs))"
  by (induction fs arbitrary: s n) (simp_all add: live_sum_def algebra_simps)

lemma snapshot_fields:
  "st_retransmissions (flow_table_snapshot_stats t) =
     fl_retransmissions_total t + live_sum retransmissions (fl_flows t)"
  "st_out_of_order_segments (flow_table_snapshot_stats t) =
     fl_out_of_order_segments_total t + live_sum out_of_order_segments (fl_flows t)"
  "st_overlapping_segments (flow_table_snapshot_stats t) =
     fl_overlapping_segments_total t + live_sum overlapping_segments (fl_flows t)"
  "st_gaps (flow_table_snapshot_stats t) = fl_gaps_total t + live_sum gaps (fl_flows t)"
  "st_flows_created (flow_table_snapshot_stats t) = fl_created t"
  "st_flows_active (flow_table_snapshot_stats t) = of_nat (length (fl_flows t))"
  "st_flows_closed_fin (flow_table_snapshot_stats t) = fl_closed_fin t"
  "st_flows_closed_rst (flow_table_snapshot_stats t) = fl_closed_rst t"
  "st_flows_evicted_idle (flow_table_snapshot_stats t) = fl_evicted_idle t"
  "st_flows_evicted_capacity (flow_table_snapshot_stats t) = fl_evicted_capacity t"
  "st_stream_bytes_in_use (flow_table_snapshot_stats t) = sum_list (map (\<lambda>f.
     direction_in_use (tcp_a f) + direction_in_use (tcp_b f)) (fl_flows t)) * fl_stream_buffer_bytes t"
  by (simp_all add: flow_table_snapshot_stats_def Let_def snapshot_loop_sums)

text \<open>The four traffic totals of a snapshot, and what a snapshot says about the fate of flows.\<close>

definition traffic_totals :: "flow_table_stats \<Rightarrow> u64 \<times> u64 \<times> u64 \<times> u64" where
  "traffic_totals s = (st_retransmissions s, st_out_of_order_segments s, st_overlapping_segments s, st_gaps s)"

definition flows_balanced :: "flow_table_stats \<Rightarrow> bool" where
  "flows_balanced s \<longleftrightarrow> st_flows_created s = st_flows_active s + st_flows_closed_fin s +
     st_flows_closed_rst s + st_flows_evicted_idle s + st_flows_evicted_capacity s"

definition same_account :: "flow_table_stats \<Rightarrow> flow_table \<Rightarrow> bool" where
  "same_account s t \<longleftrightarrow> traffic_totals (flow_table_snapshot_stats t) = traffic_totals s \<and>
     (flows_balanced s \<longrightarrow> flows_balanced (flow_table_snapshot_stats t))"

text \<open>Removing a flow moves its counters to the totals; whoever counts the removal keeps the balance.\<close>

lemma remove_flow_totals:
  "traffic_totals (flow_table_snapshot_stats (remove_flow_at t i)) = traffic_totals (flow_table_snapshot_stats t)"
proof (cases "i < length (fl_flows t)")
  case True
  have s: "live_sum c (fl_flows t) = live_sum c (remove_nth i (fl_flows t)) +
      (c (tcp_a (fl_flows t ! i)) + c (tcp_b (fl_flows t ! i)))" for c
    using live_sum_remove [OF True, of c] by simp
  show ?thesis
    using True by (simp add: traffic_totals_def snapshot_fields s)
      (simp add: remove_flow_at_def accumulate_direction_totals_def Let_def algebra_simps)
qed (simp add: remove_flow_at_def)

lemma remove_flow_active: "i < length (fl_flows t) \<Longrightarrow>
    (of_nat (length (fl_flows (remove_flow_at t i))) :: u64) = of_nat (length (fl_flows t)) - 1"
  by (cases "length (fl_flows t)") (simp_all add: length_remove_flow)

lemma account_steps:
  assumes "i < length (fl_flows t)"
  shows "same_account s t \<Longrightarrow> same_account s (evict_idle_one t i)"
    and "same_account s t \<Longrightarrow> same_account s (evict_closed_one t i)"
    and "same_account s t \<Longrightarrow>
      same_account s (remove_flow_at (t\<lparr>fl_evicted_capacity := fl_evicted_capacity t + 1\<rparr>) i)"
proof -
  have cc: "fl_closed_fin (count_closed t i) = fl_closed_fin t \<and> fl_closed_rst (count_closed t i) = fl_closed_rst t + 1 \<or>
      fl_closed_fin (count_closed t i) = fl_closed_fin t + 1 \<and> fl_closed_rst (count_closed t i) = fl_closed_rst t"
    by (simp add: count_closed_def)
  have tt: "traffic_totals (flow_table_snapshot_stats (t\<lparr>fl_evicted_idle := n\<rparr>)) = traffic_totals (flow_table_snapshot_stats t)"
    "traffic_totals (flow_table_snapshot_stats (t\<lparr>fl_evicted_capacity := n\<rparr>)) = traffic_totals (flow_table_snapshot_stats t)"
    "traffic_totals (flow_table_snapshot_stats (count_closed t i)) = traffic_totals (flow_table_snapshot_stats t)" for n
    by (simp_all add: traffic_totals_def snapshot_fields count_closed_def)
  show "same_account s t \<Longrightarrow> same_account s (evict_idle_one t i)"
    "same_account s t \<Longrightarrow> same_account s (evict_closed_one t i)"
    "same_account s t \<Longrightarrow>
      same_account s (remove_flow_at (t\<lparr>fl_evicted_capacity := fl_evicted_capacity t + 1\<rparr>) i)"
    using assms cc
    by (auto simp: same_account_def evict_idle_one_def evict_closed_one_def remove_flow_totals tt
        flows_balanced_def snapshot_fields remove_flow_active algebra_simps)
qed

lemma evict_account:
  "same_account s t \<Longrightarrow> same_account s (flow_table_evict_idle t now)"
  "same_account s t \<Longrightarrow> same_account s (flow_table_evict_closed t)"
  using evict_idle_invariant [of "same_account s" t now] evict_closed_invariant [of "same_account s" t]
    account_steps by blast+

lemma evict_oldest_account: "same_account s t \<Longrightarrow> same_account s (evict_oldest_flow t)"
proof (cases "fl_flows t = []")
  case False
  assume "same_account s t"
  with evict_oldest_cases [OF False] account_steps(3) show ?thesis by auto
qed (simp add: evict_oldest_flow_def)

lemma add_flow_account:
  "same_account s t \<Longrightarrow> same_account s
     (t\<lparr>fl_flows := fl_flows t @ [new_flow t2 k now], fl_created := fl_created t + 1\<rparr>)"
  by (auto simp: same_account_def traffic_totals_def snapshot_fields flows_balanced_def live_sum_def
      new_flow_def tcp_direction_zero_def algebra_simps)

lemma get_or_create_account:
  assumes "flow_table_get_or_create N t p now = Some (r, t')"
  shows "same_account (flow_table_snapshot_stats t) t'"
proof -
  let ?s = "flow_table_snapshot_stats t"
  have "same_account ?s t" by (simp add: same_account_def)
  then have e: "same_account ?s (flow_table_evict_closed (flow_table_evict_idle t now))" (is "same_account _ ?t1")
    by (intro evict_account)
  have o: "same_account ?s (if length (fl_flows ?t1) \<ge> fl_max_flows ?t1 then evict_oldest_flow ?t1 else ?t1)"
    using e evict_oldest_account by simp
  show ?thesis
    using assms e o add_flow_account [OF o] \<open>same_account ?s t\<close>
    by (auto simp: flow_table_get_or_create_def Let_def bind_eq_Some_conv split: if_splits option.splits)
qed



section \<open>A platform and a packet\<close>

definition ex_inet :: inet where
  "ex_inet = \<lparr>af_inet = 2, af_inet6 = 10,
     pton4 = (\<lambda>s. if s = asc ''10.0.0.1'' then Some [10, 0, 0, 1]
                  else if s = asc ''10.0.0.2'' then Some [10, 0, 0, 2] else None),
     pton6 = (\<lambda>s. None)\<rparr>"

lemma ex_inet_ok: "inet_ok ex_inet"
  by (auto simp: inet_ok_def ex_inet_def)

definition ex_tcp_packet :: "string \<Rightarrow> u16 \<Rightarrow> string \<Rightarrow> u16 \<Rightarrow> packet_info" where
  "ex_tcp_packet src sp dst dp = packet_info_zero\<lparr>src_ip := put_str (replicate 46 0) (asc src),
     dst_ip := put_str (replicate 46 0) (asc dst), src_port := sp, dst_port := dp,
     protocol := PROTO_TCP, has_ports := True\<rparr>"

definition ex_key :: flow_key where
  "ex_key = \<lparr>a_ip = \<lparr>ip_family = 2, ip_bytes = [10, 0, 0, 1] @ replicate 12 0\<rparr>, a_port = 4000,
     b_ip = \<lparr>ip_family = 2, ip_bytes = [10, 0, 0, 2] @ replicate 12 0\<rparr>, b_port = 80,
     transport_protocol = 6\<rparr>"

lemma cstr_ex_addr:
  "cstr (put_str (replicate 46 0) (asc ''10.0.0.1'')) = asc ''10.0.0.1''"
  "cstr (put_str (replicate 46 0) (asc ''10.0.0.2'')) = asc ''10.0.0.2''"
  by (rule cstr_put_fits, simp add: asc_def, simp add: asc_def)+

lemma c_str_ex_addr: "c_str (put_str (replicate 46 0) t) = Some (cstr (put_str (replicate 46 0) t))"
  using put_str_terminated [of "replicate 46 0" 46 t] by (simp add: terminated_def c_str_terminated)

lemma asc_differ: "asc ''10.0.0.2'' \<noteq> asc ''10.0.0.1''"
  by (simp add: asc_def)

lemma parse_ex_addr:
  "parse_ip_address ex_inet (asc ''10.0.0.1'') = Some (Some (a_ip ex_key))"
  "parse_ip_address ex_inet (asc ''10.0.0.2'') = Some (Some (b_ip ex_key))"
  using asc_differ by (simp_all add: parse_ip_address_def ex_inet_def ex_key_def blit_def)

lemma ex_order: "compare_endpoint (a_ip ex_key) 4000 (b_ip ex_key) 80 = -1"
  "compare_endpoint (b_ip ex_key) 80 (a_ip ex_key) 4000 = 1"
  by (simp_all add: ex_key_def compare_endpoint_def)

lemma ex_packet_key:
  "flow_key_from_packet ex_inet (ex_tcp_packet ''10.0.0.1'' 4000 ''10.0.0.2'' 80) =
     Some (Some (ex_key, FLOW_DIR_A_TO_B))"
  "flow_key_from_packet ex_inet (ex_tcp_packet ''10.0.0.2'' 80 ''10.0.0.1'' 4000) =
     Some (Some (ex_key, FLOW_DIR_B_TO_A))"
  by (simp_all add: flow_key_from_packet_def ex_tcp_packet_def packet_protocol_to_flow_protocol_def c_str_ex_addr
      cstr_ex_addr parse_ex_addr ex_order) (simp_all add: ex_key_def)

lemma ex_packet_ends:
  "packet_ends ex_inet (ex_tcp_packet ''10.0.0.1'' 4000 ''10.0.0.2'' 80) =
     Some ((a_ip ex_key, 4000), (b_ip ex_key, 80))"
  "packet_ends ex_inet (ex_tcp_packet ''10.0.0.2'' 80 ''10.0.0.1'' 4000) =
     Some ((b_ip ex_key, 80), (a_ip ex_key, 4000))"
  by (simp_all add: packet_ends_def ex_tcp_packet_def cstr_ex_addr parse_ex_addr)

lemma ex_packet_tcp: "protocol (ex_tcp_packet s sp d dp) = PROTO_TCP"
  by (simp add: ex_tcp_packet_def)

section \<open>Properties\<close>

text \<open>C16. Both directions of a conversation share one key and nothing else does. Two TCP packets
  get equal flow keys exactly when they run between the same two ends (address and port), in either
  direction; and then they get the same direction exactly when they have the same source.\<close>

theorem flow_key_identifies_conversation:
  assumes "inet_ok N" "protocol p = PROTO_TCP" "protocol q = PROTO_TCP"
    "flow_key_from_packet N p = Some (Some (k, dir))" "flow_key_from_packet N q = Some (Some (k', dir'))"
    "packet_ends N p = Some (s, d)" "packet_ends N q = Some (s', d')"
  shows "(flow_key_equals k k' \<longleftrightarrow> {s, d} = {s', d'}) \<and> ({s, d} = {s', d'} \<longrightarrow> (dir = dir' \<longleftrightarrow> s = s'))"
proof -
  note p = tcp_key_ends [OF assms(1,2,4)] and q = tcp_key_ends [OF assms(1,3,5)]
  have ko: "key_ok k" "key_ok k'" using flow_key_ok assms(1,4,5) by blast+
  have eq: "k = k' \<longleftrightarrow> {(a_ip k, a_port k), (b_ip k, b_port k)} = {(a_ip k', a_port k'), (b_ip k', b_port k')}"
  proof
    assume "{(a_ip k, a_port k), (b_ip k, b_port k)} = {(a_ip k', a_port k'), (b_ip k', b_port k')}"
    then consider "(a_ip k, a_port k) = (a_ip k', a_port k')" "(b_ip k, b_port k) = (b_ip k', b_port k')"
      | "(a_ip k, a_port k) = (b_ip k', b_port k')" "(b_ip k, b_port k) = (a_ip k', a_port k')"
      by (metis doubleton_eq_iff)
    then show "k = k'"
    proof cases
      case 1
      then show ?thesis using p q by auto
    next
      case 2
      then have "compare_endpoint (a_ip k) (a_port k) (b_ip k) (b_port k) = 0"
        using p q compare_endpoint_antisym [of "b_ip k" "b_port k" "a_ip k" "a_port k"] by auto
      then have "a_ip k = b_ip k \<and> a_port k = b_port k"
        using ko compare_endpoint_zero by (simp add: key_ok_def)
      then show ?thesis using 2 p q by auto
    qed
  qed simp
  have "flow_key_equals k k' \<longleftrightarrow> {s, d} = {s', d'}"
    using key_equals_eq [OF ko] eq p q assms(6,7) by auto
  moreover have "dir = dir' \<longleftrightarrow> s = s'" if "{s, d} = {s', d'}"
  proof -
    have "k = k'" using that eq p q assms(6,7) by auto
    then show ?thesis using p q assms(6,7) by (cases dir; cases dir') auto
  qed
  ultimately show ?thesis by blast
qed

theorem flow_key_identifies_conversation_witness:
  "flow_key_equals ex_key ex_key \<and> (FLOW_DIR_A_TO_B = FLOW_DIR_B_TO_A \<longleftrightarrow>
     (a_ip ex_key, 4000 :: u16) = (b_ip ex_key, 80))"
  using flow_key_identifies_conversation [OF ex_inet_ok ex_packet_tcp ex_packet_tcp ex_packet_key(1)
      ex_packet_key(2) ex_packet_ends] by auto

text \<open>C17. What a lookup does. For a TCP packet with key \<open>k\<close>, \<open>flow_table_get_or_create\<close> first drops
  exactly the closed and the idle flows. If a flow with key \<open>k\<close> is left it is returned untouched;
  otherwise a fresh flow is added, and a flow is sacrificed for it only when the table is full, the
  one seen longest ago. The table stays within its limits and keeps its keys distinct, and the
  call always returns the flow of the packet.\<close>

theorem flow_lookup_exact:
  assumes "inet_ok N" "flow_table_ok t" "fl_live t" "protocol p = PROTO_TCP"
    "flow_key_from_packet N p = Some (Some (k, d))"
  shows "\<exists>i t'. flow_table_get_or_create N t p now = Some (Some (i, d), t') \<and>
    flow_table_ok t' \<and> i < length (fl_flows t') \<and> fi_key (fl_flows t' ! i) = k \<and>
    (let live = filter (\<lambda>f. \<not> flow_is_closed f \<and>
          (fl_timeout_seconds t \<noteq> 0 \<longrightarrow> flow_idle now f < ucast (fl_timeout_seconds t))) (fl_flows t);
         new = new_flow t k now
     in if \<exists>f \<in> set live. fi_key f = k then fl_flows t' = live
        else fl_flows t' ! i = new \<and>
          (if length live < fl_max_flows t then fl_flows t' = live @ [new]
           else \<exists>j < length live. fl_flows t' = remove_nth j live @ [new] \<and>
             (\<forall>f \<in> set live. fi_last_seen_time (live ! j) \<le> fi_last_seen_time f)))"
proof -
  have s: "filter (\<lambda>f. \<not> flow_is_closed f \<and>
      (fl_timeout_seconds t \<noteq> 0 \<longrightarrow> flow_idle now f < ucast (fl_timeout_seconds t))) (fl_flows t) =
      flow_survivors t now"
    by (simp add: flow_survivors_def flow_expired_def not_le)
  obtain i t' where g: "flow_table_get_or_create N t p now = Some (Some (i, d), t')" "flow_table_ok t'"
    "i < length (fl_flows t')" "fi_key (fl_flows t' ! i) = k" "looked_up t k now i t'"
    using get_or_create_ok [OF assms, of now] by blast
  show ?thesis
    unfolding s Let_def using g
    by (intro exI [of _ i] exI [of _ t']) (auto simp: looked_up_def Let_def split: if_splits)
qed

definition ex_flow_table :: flow_table where
  "ex_flow_table = snd (flow_table_init True flow_table_zero 2 1024 60)"

lemma ex_flow_table_ok: "flow_table_ok ex_flow_table" "fl_live ex_flow_table" "fl_flows ex_flow_table = []"
  "fl_max_flows ex_flow_table = 2"
  using flow_init_ok [of True flow_table_zero 2 1024 60 ex_flow_table]
  by (simp_all add: ex_flow_table_def flow_table_init_def)

theorem flow_lookup_exact_witness:
  "\<exists>t'. flow_table_get_or_create ex_inet ex_flow_table (ex_tcp_packet ''10.0.0.2'' 80 ''10.0.0.1'' 4000) 7 =
      Some (Some (0, FLOW_DIR_B_TO_A), t') \<and> fl_flows t' = [new_flow ex_flow_table ex_key 7]"
  using flow_lookup_exact [OF ex_inet_ok ex_flow_table_ok(1,2) ex_packet_tcp ex_packet_key(2), of 7]
  by (auto simp: ex_flow_table_ok Let_def)

text \<open>C18. Nothing is lost in the accounts. However a lookup evicts flows, the totals a snapshot
  reports (retransmissions, out-of-order and overlapping segments, gaps) do not change, and if every
  flow ever created was accounted for before, as active, closed by FIN, closed by RST, evicted idle or
  evicted for capacity, it still is.\<close>

theorem flow_accounts_conserved:
  assumes "flow_table_get_or_create N t p now = Some (r, t')"
  shows "traffic_totals (flow_table_snapshot_stats t') = traffic_totals (flow_table_snapshot_stats t) \<and>
    (flows_balanced (flow_table_snapshot_stats t) \<longrightarrow> flows_balanced (flow_table_snapshot_stats t'))"
  using get_or_create_account [OF assms] by (simp add: same_account_def)

theorem flow_accounts_conserved_witness:
  "\<exists>r t'. flow_table_get_or_create ex_inet ex_flow_table (ex_tcp_packet ''10.0.0.2'' 80 ''10.0.0.1'' 4000) 7 =
      Some (r, t') \<and> flows_balanced (flow_table_snapshot_stats t')"
proof -
  obtain i t' where g: "flow_table_get_or_create ex_inet ex_flow_table
      (ex_tcp_packet ''10.0.0.2'' 80 ''10.0.0.1'' 4000) 7 = Some (Some (i, FLOW_DIR_B_TO_A), t')"
    using get_or_create_ok [OF ex_inet_ok ex_flow_table_ok(1,2) ex_packet_tcp ex_packet_key(2), of 7] by blast
  have "flows_balanced (flow_table_snapshot_stats ex_flow_table)"
    by (simp add: flows_balanced_def snapshot_fields ex_flow_table_def flow_table_init_def flow_table_zero_def)
  then show ?thesis using flow_accounts_conserved [OF g] g by blast
qed

end
