(* ===== verification/Text.thy ===== *)
theory Text
  imports Common
begin

text \<open>
  Text as the C library prints it: \<open>%u\<close>, \<open>%zu\<close> and \<open>%0nx\<close> conversions, and the ASCII classes of
  \<open>ctype.h\<close> in the C locale, which the program never leaves.
\<close>

lemma put_str_ok [simp, intro]: "terminated n buf \<Longrightarrow> terminated n (put_str buf s)"
  by (cases buf) (auto simp: terminated_def put_str_def Let_def)

section \<open>Numbers\<close>

definition hex_digit :: "nat \<Rightarrow> u8" where
  "hex_digit d = (if d < 10 then of_nat (48 + d) else of_nat (87 + d))"

text \<open>\<open>%0wx\<close> of a number with at most \<open>w\<close> digits.\<close>

fun hex_fixed :: "nat \<Rightarrow> nat \<Rightarrow> bytes" where
  "hex_fixed 0 n = []"
| "hex_fixed (Suc w) n = hex_fixed w (n div 16) @ [hex_digit (n mod 16)]"

definition dec_digit :: "nat \<Rightarrow> u8" where
  "dec_digit d = of_nat (48 + d)"

fun dec :: "nat \<Rightarrow> bytes" where
  "dec n = (if n < 10 then [dec_digit n] else dec (n div 10) @ [dec_digit (n mod 10)])"

declare dec.simps [simp del]

lemma length_hex_fixed [simp]: "length (hex_fixed w n) = w"
  by (induction w arbitrary: n) simp_all

lemma unat_hex_digit: "d < 16 \<Longrightarrow> unat (hex_digit d) = (if d < 10 then 48 + d else 87 + d)"
  by (simp add: hex_digit_def unat_of_nat del: of_nat_add)

lemma unat_dec_digit: "d < 10 \<Longrightarrow> unat (dec_digit d) = 48 + d"
  by (simp add: dec_digit_def unat_of_nat del: of_nat_add)

lemma hex_digit_nonzero: "d < 16 \<Longrightarrow> hex_digit d \<noteq> 0"
  using unat_hex_digit [of d] by (auto split: if_splits)

lemma dec_digit_nonzero: "d < 10 \<Longrightarrow> dec_digit d \<noteq> 0"
  using unat_dec_digit [of d] by auto

lemma hex_fixed_no_nul [simp]: "0 \<notin> set (hex_fixed w n)"
  by (induction w arbitrary: n) (simp_all add: hex_digit_nonzero [symmetric])

lemma dec_no_nul [simp]: "0 \<notin> set (dec n)"
proof (induction n rule: dec.induct)
  case (1 n)
  then show ?case
    by (subst dec.simps) (simp add: dec_digit_nonzero [symmetric])
qed

text \<open>Reading a number back.\<close>

definition hex_value :: "u8 \<Rightarrow> nat" where
  "hex_value b = (if unat b < 58 then unat b - 48 else unat b - 87)"

definition dec_number :: "bytes \<Rightarrow> nat" where
  "dec_number bs = foldl (\<lambda>n b. 10 * n + (unat b - 48)) 0 bs"

definition hex_number :: "bytes \<Rightarrow> nat" where
  "hex_number bs = foldl (\<lambda>n b. 16 * n + hex_value b) 0 bs"

lemma hex_number_fixed: "n < 16 ^ w \<Longrightarrow> hex_number (hex_fixed w n) = n"
proof (induction w arbitrary: n)
  case (Suc w)
  then have "n div 16 < 16 ^ w" by (simp add: less_mult_imp_div_less mult.commute)
  then have "hex_number (hex_fixed w (n div 16)) = n div 16" by (rule Suc.IH)
  moreover have "hex_value (hex_digit (n mod 16)) = n mod 16"
    by (simp add: hex_value_def unat_hex_digit)
  ultimately show ?case by (simp add: hex_number_def)
qed (simp add: hex_number_def)

lemma dec_number_dec: "dec_number (dec n) = n"
proof (induction n rule: dec.induct)
  case (1 n)
  then show ?case
    by (subst dec.simps) (simp add: dec_number_def unat_dec_digit)
qed

lemma dec_inject: "dec m = dec n \<longleftrightarrow> m = n"
  using dec_number_dec by metis

text \<open>Dotted decimal, as \<open>inet_ntop (AF_INET)\<close> prints it.\<close>

definition ipv4_text :: "u8 \<Rightarrow> u8 \<Rightarrow> u8 \<Rightarrow> u8 \<Rightarrow> bytes" where
  "ipv4_text a b c d = dec (unat a) @ 46 # dec (unat b) @ 46 # dec (unat c) @ 46 # dec (unat d)"

lemma ipv4_text_no_nul: "0 \<notin> set (ipv4_text a b c d)"
  by (simp add: ipv4_text_def)

lemma length_dec: "n < 256 \<Longrightarrow> length (dec n) \<le> 3"
proof -
  assume n: "n < 256"
  have 1: "length (dec m) = 1" if "m < 10" for m using that by (subst dec.simps) simp
  have 2: "length (dec m) \<le> 2" if "m < 100" for m
    using that 1 [of "m div 10"] by (subst dec.simps) auto
  show ?thesis using n 2 [of "n div 10"] by (subst dec.simps) auto
qed

lemma length_ipv4_text: "length (ipv4_text a b c d) \<le> 15"
  using length_dec [of "unat a"] length_dec [of "unat b"] length_dec [of "unat c"] length_dec [of "unat d"]
  by (simp add: ipv4_text_def)

section \<open>Character classes\<close>

definition isdigit :: "u8 \<Rightarrow> bool" where "isdigit c \<longleftrightarrow> 48 \<le> c \<and> c \<le> 57"
definition isupper :: "u8 \<Rightarrow> bool" where "isupper c \<longleftrightarrow> 65 \<le> c \<and> c \<le> 90"
definition tolower :: "u8 \<Rightarrow> u8" where "tolower c = (if isupper c then c + 32 else c)"
definition isspace :: "u8 \<Rightarrow> bool" where "isspace c \<longleftrightarrow> c = 32 \<or> 9 \<le> c \<and> c \<le> 13"
definition isprint :: "u8 \<Rightarrow> bool" where "isprint c \<longleftrightarrow> 32 \<le> c \<and> c \<le> 126"

lemma tolower_zero [simp]: "tolower c = 0 \<longleftrightarrow> c = 0"
proof -
  have "c + 32 \<noteq> 0" if "isupper c"
  proof
    assume z: "c + 32 = 0"
    have "unat c \<le> 90" "65 \<le> unat c" using that by (simp_all add: isupper_def word_le_nat_alt)
    moreover have "unat (c + 32) = (unat c + 32) mod 256" by (simp add: unat_word_ariths)
    ultimately show False using z by simp
  qed
  then show ?thesis by (auto simp: tolower_def isupper_def)
qed

section \<open>Output\<close>

text \<open>
  What a sequence of \<open>printf\<close>, \<open>fputc\<close> and \<open>putchar\<close> calls writes, one item per call; an item is \<open>None\<close>
  when its call reads a string past its array.
\<close>

fun cat :: "bytes option list \<Rightarrow> bytes option" where
  "cat [] = Some []"
| "cat (x # xs) = do { a \<leftarrow> x; b \<leftarrow> cat xs; Some (a @ b) }"

definition lit :: "string \<Rightarrow> bytes option" where "lit s = Some (asc s)"
definition out_u :: "nat \<Rightarrow> bytes option" where "out_u n = Some (dec n)"
definition when_out :: "bool \<Rightarrow> bytes option \<Rightarrow> bytes option" where "when_out b x = (if b then x else Some [])"

lemma cat_Some: "(\<And>x. x \<in> set xs \<Longrightarrow> x \<noteq> None) \<Longrightarrow> cat xs = Some (concat (map the xs))"
proof (induction xs)
  case (Cons x xs)
  then obtain y where "x = Some y" by fastforce
  then show ?case using Cons by simp
qed simp

end
