(* ===== verification/App_Contract.thy ===== *)
theory App_Contract
  imports Text Byte_Reader
begin

text \<open>
  What the application decoders share: the result type of \<open>include/app_decoder.h\<close>, the cleared
  \<open>AppInfo\<close>, and their contract as the locale \<open>app_decoder\<close>. A decoder never touches memory
  outside its input, leaves every text field terminated within its array, and reports its protocol
  exactly when it succeeds. Each decoder interprets the locale, and the dispatcher of
  \<open>app_decoder.c\<close> rests on the locale's facts only.
\<close>

datatype app_decode_result = DECODE_NO_MATCH | DECODE_OK | DECODE_NEED_MORE | DECODE_MALFORMED

definition app_info_clear :: app_info where
  "app_info_clear = app_info_zero\<lparr>app_protocol := APP_PROTO_UNKNOWN\<rparr>"

lemma app_info_clear_zero [simp]: "app_info_clear = app_info_zero"
  by (simp add: app_info_clear_def app_info_zero_def)

lemmas app_info_zero_fields [simp] = app_info_zero_ok [unfolded app_info_ok_def]

lemma app_protocol_zero [simp]: "app_protocol app_info_zero = APP_PROTO_UNKNOWN"
  by (simp add: app_info_zero_def)

text \<open>
  A read inside a condition: \<open>need m fail k\<close> goes on with \<open>k\<close> when the read \<open>m\<close> gives a value
  and leaves with \<open>fail\<close> when it does not.
\<close>

definition need :: "('a option \<times> 'r) option \<Rightarrow> 'b option \<Rightarrow> ('a \<Rightarrow> 'r \<Rightarrow> 'b option) \<Rightarrow> 'b option" where
  "need m fail k = do { (v, r) \<leftarrow> m; case v of None \<Rightarrow> fail | Some x \<Rightarrow> k x r }"

lemma need_Some [simp]:
  "need (Some (Some x, r)) fail k = k x r" "need (Some (None, r)) fail k = fail"
  by (simp_all add: need_def)

lemma need_if [simp]:
  "need (Some (if b then (Some x, r) else (None, r'))) fail k = (if b then k x r else fail)"
  by simp

text \<open>Reads through an offset inside a vector of known length; \<open>app_tls.c\<close> and \<open>app_quic.c\<close>
  have the same helpers.\<close>

definition remaining :: "nat \<Rightarrow> nat \<Rightarrow> nat \<Rightarrow> bool" where
  "remaining len off needed \<longleftrightarrow> off \<le> len \<and> needed \<le> len - off"

definition read_u8_at :: "bytes \<Rightarrow> nat \<Rightarrow> nat \<Rightarrow> (u8 option \<times> nat) option" where
  "read_u8_at d n off =
     (if \<not> remaining n off 1 then Some (None, off)
      else do { b \<leftarrow> rd d off; Some (Some b, off + 1) })"

definition read_u16_at :: "bytes \<Rightarrow> nat \<Rightarrow> nat \<Rightarrow> (u16 option \<times> nat) option" where
  "read_u16_at d n off =
     (if \<not> remaining n off 2 then Some (None, off)
      else do { b0 \<leftarrow> rd d off; b1 \<leftarrow> rd d (off + 1); Some (Some (be16 b0 b1), off + 2) })"

definition read_u24_at :: "bytes \<Rightarrow> nat \<Rightarrow> nat \<Rightarrow> (nat option \<times> nat) option" where
  "read_u24_at d n off =
     (if \<not> remaining n off 3 then Some (None, off)
      else do { b0 \<leftarrow> rd d off; b1 \<leftarrow> rd d (off + 1); b2 \<leftarrow> rd d (off + 2);
        Some (Some (push_bit 16 (unat b0) OR push_bit 8 (unat b1) OR unat b2), off + 3) })"

definition read_u32_at :: "bytes \<Rightarrow> nat \<Rightarrow> nat \<Rightarrow> (u32 option \<times> nat) option" where
  "read_u32_at d n off =
     (if \<not> remaining n off 4 then Some (None, off)
      else do { b0 \<leftarrow> rd d off; b1 \<leftarrow> rd d (off + 1); b2 \<leftarrow> rd d (off + 2); b3 \<leftarrow> rd d (off + 3);
        Some (Some (be32 b0 b1 b2 b3), off + 4) })"

lemma read_at_in [mem_simps]:
  assumes "n \<le> length d"
  shows "read_u8_at d n off = Some (if remaining n off 1 then (Some (d ! off), off + 1) else (None, off))"
    and "read_u16_at d n off = Some (if remaining n off 2
       then (Some (be16 (d ! off) (d ! (off + 1))), off + 2) else (None, off))"
    and "read_u24_at d n off = Some (if remaining n off 3
       then (Some (push_bit 16 (unat (d ! off)) OR push_bit 8 (unat (d ! (off + 1))) OR unat (d ! (off + 2))), off + 3)
       else (None, off))"
    and "read_u32_at d n off = Some (if remaining n off 4
       then (Some (be32 (d ! off) (d ! (off + 1)) (d ! (off + 2)) (d ! (off + 3))), off + 4) else (None, off))"
  using assms
  by (auto simp: read_u8_at_def read_u16_at_def read_u24_at_def read_u32_at_def remaining_def rd_def)

lemma need_cong [fundef_cong]:
  "m = m' \<Longrightarrow> f = f' \<Longrightarrow> (\<And>x r. m' = Some (Some x, r) \<Longrightarrow> k x r = k' x r) \<Longrightarrow> need m f k = need m' f' k'"
  by (cases m') (auto simp: need_def split: option.splits)

lemma read_at_SomeD:
  "read_u8_at d n off = Some (Some v, off') \<Longrightarrow> off' = off + 1 \<and> off' \<le> n"
  "read_u16_at d n off = Some (Some w, off') \<Longrightarrow> off' = off + 2 \<and> off' \<le> n"
  by (auto simp: read_u8_at_def read_u16_at_def remaining_def split: if_splits bind_splits)

text \<open>
  The unread bytes of a vector that ends at \<open>n\<close>, and the encoding of a 16-bit field. The
  specifications of the vector formats are written over these.
\<close>

definition unread :: "bytes \<Rightarrow> nat \<Rightarrow> nat \<Rightarrow> bytes \<Rightarrow> bool" where
  "unread d n off v \<longleftrightarrow> n \<le> length d \<and> off \<le> n \<and> take (n - off) (drop off d) = v"

definition put16 :: "u16 \<Rightarrow> bytes" where
  "put16 w = [hi8 w, lo8 w]"

lemma put16_nth [simp]: "put16 w ! 0 = hi8 w" "put16 w ! Suc 0 = lo8 w" "length (put16 w) = 2"
  by (simp_all add: put16_def)

lemma unread_iff:
  "unread d n off v \<longleftrightarrow> (\<exists>pre post. d = pre @ v @ post \<and> length pre = off \<and> n = off + length v)"
proof
  assume u: "unread d n off v"
  then have n: "n \<le> length d" "off \<le> n" "v = take (n - off) (drop off d)" by (auto simp: unread_def)
  have "d = take off d @ take (n - off) (drop off d) @ drop (n - off) (drop off d)"
    by (simp only: append_take_drop_id)
  then show "\<exists>pre post. d = pre @ v @ post \<and> length pre = off \<and> n = off + length v"
    using n by (intro exI [of _ "take off d"] exI [of _ "drop n d"]) simp
qed (auto simp: unread_def)

lemma unread_all: "unread d (length d) 0 d"
  by (simp add: unread_def)

lemma unread_length: "unread d n off v \<Longrightarrow> length v = n - off"
  by (auto simp: unread_def)

lemma unread_append:
  assumes "unread d n off (x @ v)"
  shows "unread d n (off + length x) v" "take (length x) (drop off d) = x" "length x \<le> n - off"
    "unread d (off + length x) off x"
proof -
  obtain pre post where d: "d = pre @ x @ v @ post" "length pre = off" "n = off + length x + length v"
    using assms by (auto simp: unread_iff)
  show "unread d n (off + length x) v" unfolding unread_iff using d by (intro exI [of _ "pre @ x"] exI [of _ post]) simp
  show "take (length x) (drop off d) = x" "length x \<le> n - off" using d by auto
  show "unread d (off + length x) off x" unfolding unread_iff using d by (intro exI [of _ pre] exI [of _ "v @ post"]) simp
qed

lemma unread_drop: "unread d n off v \<Longrightarrow> unread (drop off d) (length v) 0 v"
  by (auto simp: unread_def)

lemma unread_nth: "unread d n off v \<Longrightarrow> i < length v \<Longrightarrow> d ! (off + i) = v ! i"
  by (auto simp: unread_def)

lemma unread_Cons:
  assumes "unread d n off (b # v)"
  shows "read_u8_at d n off = Some (Some b, off + 1)" "unread d n (off + 1) v"
proof -
  have "n \<le> length d" "1 \<le> n - off" "off \<le> n" using assms unread_length [OF assms] by (auto simp: unread_def)
  then show "read_u8_at d n off = Some (Some b, off + 1)"
    using unread_nth [OF assms, of 0] by (simp add: read_at_in remaining_def)
  show "unread d n (off + 1) v" using unread_append(1) [of d n off "[b]" v] assms by simp
qed

lemma unread_put16:
  assumes "unread d n off (put16 w @ v)"
  shows "read_u16_at d n off = Some (Some w, off + 2)" "unread d n (off + 2) v"
proof -
  have "n \<le> length d" "2 \<le> n - off" "off \<le> n" using assms unread_length [OF assms] by (auto simp: unread_def)
  then show "read_u16_at d n off = Some (Some w, off + 2)"
    using unread_nth [OF assms, of 0] unread_nth [OF assms, of 1]
    by (simp add: read_at_in remaining_def put16_def)
  show "unread d n (off + 2) v" using unread_append(1) [of d n off "put16 w" v] assms by simp
qed

text \<open>Vectors with a one-byte and a two-byte length.\<close>

definition vec8 :: "bytes \<Rightarrow> bytes" where
  "vec8 x = of_nat (length x) # x"

definition vec16 :: "bytes \<Rightarrow> bytes" where
  "vec16 x = put16 (of_nat (length x)) @ x"

lemma length_vec [simp]: "length (vec8 x) = length x + 1" "length (vec16 x) = length x + 2"
  by (simp_all add: vec8_def vec16_def)

lemma unat_of_nat_u16: "n < 65536 \<Longrightarrow> unat (of_nat n :: u16) = n"
  by (simp add: unat_of_nat)

lemma unat_of_nat_u8: "n < 256 \<Longrightarrow> unat (of_nat n :: u8) = n"
  by (simp add: unat_of_nat)

lemma unread_vec8:
  assumes "unread d n off (vec8 x @ v)" "length x < 256"
  shows "\<exists>w. read_u8_at d n off = Some (Some w, off + 1) \<and> unat w = length x" "unread d n (off + 1) (x @ v)"
  using unread_Cons [of d n off _ "x @ v"] assms by (auto simp: vec8_def unat_of_nat_u8)

lemma unread_vec16:
  assumes "unread d n off (vec16 x @ v)" "length x < 65536"
  shows "\<exists>w. read_u16_at d n off = Some (Some w, off + 2) \<and> unat w = length x" "unread d n (off + 2) (x @ v)"
proof -
  have "unread d n off (put16 (of_nat (length x)) @ x @ v)" using assms(1) by (simp add: vec16_def)
  from unread_put16 [OF this] assms(2)
  show "\<exists>w. read_u16_at d n off = Some (Some w, off + 2) \<and> unat w = length x" "unread d n (off + 2) (x @ v)"
    by (auto simp: unat_of_nat_u16)
qed

section \<open>The contract\<close>

type_synonym decoder = "bytes option \<Rightarrow> nat \<Rightarrow> (app_decode_result \<times> app_info) option"

definition decoded_as :: "AppProtocol \<Rightarrow> (app_decode_result \<times> app_info) option \<Rightarrow> bool" where
  "decoded_as proto out \<longleftrightarrow> (\<exists>r a. out = Some (r, a) \<and> app_info_ok a \<and>
     app_protocol a = (if r = DECODE_OK then proto else APP_PROTO_UNKNOWN))"

lemma decoded_as_Some [simp]:
  "decoded_as proto (Some (r, a)) \<longleftrightarrow> app_info_ok a \<and>
     app_protocol a = (if r = DECODE_OK then proto else APP_PROTO_UNKNOWN)"
  by (simp add: decoded_as_def)

lemma decoded_asD: "decoded_as proto out \<Longrightarrow> \<exists>r a. out = Some (r, a) \<and> app_info_ok a \<and>
     app_protocol a = (if r = DECODE_OK then proto else APP_PROTO_UNKNOWN)"
  by (simp add: decoded_as_def)

locale app_decoder =
  fixes decode :: decoder
    and proto :: AppProtocol
  assumes decode_null: "decode None n = Some (DECODE_NO_MATCH, app_info_zero)"
    and decode_safe: "n \<le> length d \<Longrightarrow> decoded_as proto (decode (Some d) n)"
begin

lemma decode_defined:
  "(case data of None \<Rightarrow> True | Some d \<Rightarrow> n \<le> length d) \<Longrightarrow> \<exists>r a. decode data n = Some (r, a)"
  using decode_null decode_safe decoded_asD by (cases data) fastforce+

lemma decode_protocol: "n \<le> length d \<Longrightarrow> decode (Some d) n = Some (r, a) \<Longrightarrow>
    app_info_ok a \<and> app_protocol a = (if r = DECODE_OK then proto else APP_PROTO_UNKNOWN)"
  using decode_safe [of n d] by simp

end

lemma app_info_ok_update:
  assumes "app_info_ok a"
  shows "app_info_ok (a\<lparr>summary := put_str (summary a) s\<rparr>)"
    and "app_info_ok (a\<lparr>app_protocol := p\<rparr>)"
  using assms by (auto simp: app_info_ok_def)

end
