(* ===== verification/App_Dns.thy ===== *)
theory App_Dns
  imports App_Contract
begin

text \<open>
  \<open>src/app_dns.c\<close>: DNS and mDNS messages, over UDP and with the length prefix of TCP. The name
  reader follows compression pointers; its specification is the inductive relation \<open>name_at\<close>.
\<close>

section \<open>The decoder\<close>

text \<open>
  The loop of \<open>parse_dns_name\<close>. The inner \<open>None\<close> is the error return; the outer one would be an
  access outside the message or the output array.
\<close>

function dns_name_loop :: "bytes \<Rightarrow> nat \<Rightarrow> nat \<Rightarrow> bytes \<Rightarrow> nat \<Rightarrow> bool \<Rightarrow> nat \<Rightarrow> nat \<Rightarrow>
    (nat \<times> bytes) option option" where
  "dns_name_loop data n cursor out outlen jumped depth offset =
     (if \<not> cursor < n then Some None
      else do {
        label_len \<leftarrow> rd data cursor;
        if label_len = 0 then
          let offset' = (if \<not> jumped then cursor + 1 else offset) in
          if outlen = 0 then
            if length out < 2 then Some None
            else do { o1 \<leftarrow> wr out 0 (of_char CHR ''.''); o2 \<leftarrow> wr o1 1 0; Some (Some (offset', o2)) }
          else Some (Some (offset', out))
        else if label_len AND 0xc0 = 0xc0 then
          if cursor + 1 \<ge> n \<or> depth \<ge> 16 then Some None
          else do {
            low \<leftarrow> rd data (cursor + 1);
            let pointer = unat (be16 (label_len AND 0x3f) low);
            if pointer \<ge> n then Some None
            else dns_name_loop data n pointer out outlen True (depth + 1)
                   (if \<not> jumped then cursor + 2 else offset)
          }
        else if label_len AND 0xc0 \<noteq> 0 \<or> label_len > 63 then Some None
        else
          let cursor1 = cursor + 1; len = unat label_len in
          if cursor1 + len > n then Some None
          else if outlen \<noteq> 0 \<and> (outlen + 1 \<ge> length out \<or> outlen + 1 > 253) then Some None
          else do {
            out1 \<leftarrow> (if outlen \<noteq> 0 then wr out outlen (of_char CHR ''.'') else Some out);
            let outlen1 = (if outlen \<noteq> 0 then outlen + 1 else outlen);
            if outlen1 + len \<ge> length out1 \<or> outlen1 + len > 253 then Some None
            else do {
              label \<leftarrow> rd_slice data cursor1 len;
              out2 \<leftarrow> blit out1 outlen1 label;
              out3 \<leftarrow> wr out2 (outlen1 + len) 0;
              dns_name_loop data n (cursor1 + len) out3 (outlen1 + len) jumped depth offset
            }
          }
      })"
  by pat_completeness auto
termination
  by (relation "measures [\<lambda>(_, _, _, _, _, _, depth, _). 16 - depth, \<lambda>(_, n, cursor, _). n - cursor]") auto

declare dns_name_loop.simps [simp del]

definition parse_dns_name :: "bytes option \<Rightarrow> nat \<Rightarrow> nat \<Rightarrow> bytes \<Rightarrow> (nat \<times> bytes) option option" where
  "parse_dns_name data n offset out =
     (if data = None \<or> out = [] \<or> offset \<ge> n then Some None
      else do {
        d \<leftarrow> data;
        out0 \<leftarrow> wr out 0 0;
        dns_name_loop d n offset out0 0 False 0 offset
      })"

definition dns_header_is_plausible :: "u16 \<Rightarrow> u16 \<Rightarrow> u16 \<Rightarrow> u16 \<Rightarrow> bool" where
  "dns_header_is_plausible qdcount ancount nscount arcount \<longleftrightarrow>
     qdcount \<le> 64 \<and> ancount \<le> 512 \<and> nscount \<le> 512 \<and> arcount \<le> 512"

definition dns_summary :: "string \<Rightarrow> app_info \<Rightarrow> bytes" where
  "dns_summary label a = asc label @ asc '' '' @
     (if dns_is_response a then asc ''response'' else asc ''query'') @ asc '' id=0x'' @
     hex_fixed 4 (unat (dns_transaction_id a)) @ asc '' q='' @ dec (unat (dns_question_count a)) @
     asc '' '' @ cstr (dns_query_name a)"

definition decode_dns_message_as ::
    "AppProtocol \<Rightarrow> string \<Rightarrow> bytes option \<Rightarrow> nat \<Rightarrow> (app_decode_result \<times> app_info) option" where
  "decode_dns_message_as proto label data n =
     (case data of None \<Rightarrow> Some (DECODE_NO_MATCH, app_info_clear)
      | Some d \<Rightarrow>
      if n = 0 then Some (DECODE_NO_MATCH, app_info_clear)
      else if n < 12 then Some (DECODE_NEED_MORE, app_info_clear)
      else
        let short = Some (DECODE_NEED_MORE, app_info_clear) in
        need (br_read_u16_be (br_init (Some d) n)) short (\<lambda>tid r1.
        need (br_read_u16_be r1) short (\<lambda>flags r2.
        need (br_read_u16_be r2) short (\<lambda>qdcount r3.
        need (br_read_u16_be r3) short (\<lambda>ancount r4.
        need (br_read_u16_be r4) short (\<lambda>nscount r5.
        need (br_read_u16_be r5) short (\<lambda>arcount r6.
        if \<not> dns_header_is_plausible qdcount ancount nscount arcount then
          Some (DECODE_NO_MATCH, app_info_clear)
        else do {
          let a1 = app_info_clear\<lparr>app_protocol := proto, dns_transaction_id := tid,
                     dns_question_count := qdcount, dns_is_response := (flags AND 0x8000 \<noteq> 0),
                     dns_opcode := ucast (drop_bit 11 flags AND 0x0f), dns_rcode := ucast (flags AND 0x0f)\<rparr>;
          question \<leftarrow> (if qdcount > 0 then do {
              name \<leftarrow> parse_dns_name data n 12 (dns_query_name a1);
              case name of None \<Rightarrow> Some None
              | Some (off, text) \<Rightarrow>
                  need (br_read_u16_be (br_init (Some (drop off d)) (n - off))) (Some None) (\<lambda>qtype r7.
                  need (br_read_u16_be r7) (Some None) (\<lambda>qclass r8.
                    Some (Some (a1\<lparr>dns_query_name := text, dns_query_type := qtype,
                                  dns_query_class := qclass\<rparr>))))
            } else Some (Some a1));
          case question of None \<Rightarrow> Some (DECODE_MALFORMED, app_info_clear)
          | Some a2 \<Rightarrow> Some (DECODE_OK, a2\<lparr>summary := put_str (summary a2) (dns_summary label a2)\<rparr>)
        })))))))"

definition app_dns_decode_message :: decoder where
  "app_dns_decode_message = decode_dns_message_as APP_PROTO_DNS ''DNS''"

definition app_dns_decode_mdns_message :: decoder where
  "app_dns_decode_mdns_message = decode_dns_message_as APP_PROTO_MDNS ''mDNS''"

definition app_dns_decode_udp :: decoder where
  "app_dns_decode_udp data n = app_dns_decode_message data n"

definition app_dns_decode_mdns_udp :: decoder where
  "app_dns_decode_mdns_udp data n = app_dns_decode_mdns_message data n"

definition app_dns_decode_tcp_frame :: decoder where
  "app_dns_decode_tcp_frame data n =
     (case data of None \<Rightarrow> Some (DECODE_NO_MATCH, app_info_clear)
      | Some d \<Rightarrow>
      if n = 0 then Some (DECODE_NO_MATCH, app_info_clear)
      else if n < 2 then Some (DECODE_NEED_MORE, app_info_clear)
      else do {
        b0 \<leftarrow> rd d 0;
        b1 \<leftarrow> rd d 1;
        let frame_length = be16 b0 b1;
        if frame_length = 0 then Some (DECODE_MALFORMED, app_info_clear)
        else if n < 2 + unat frame_length then Some (DECODE_NEED_MORE, app_info_clear)
        else app_dns_decode_message (Some (drop 2 d)) (unat frame_length)
      })"



section \<open>What a compressed name denotes\<close>

text \<open>
  \<open>name_at d n c k e ls\<close>: at offset \<open>c\<close> of the message \<open>d\<close> of \<open>n\<close> bytes stands the name with
  labels \<open>ls\<close>, reached through \<open>k\<close> compression pointers; its encoding in place ends at \<open>e\<close>.
\<close>

definition dns_pointer :: "bytes \<Rightarrow> nat \<Rightarrow> nat" where
  "dns_pointer d c = unat (be16 (d ! c AND 0x3f) (d ! (c + 1)))"

inductive name_at :: "bytes \<Rightarrow> nat \<Rightarrow> nat \<Rightarrow> nat \<Rightarrow> nat \<Rightarrow> bytes list \<Rightarrow> bool" for d n where
  name_end: "c < n \<Longrightarrow> d ! c = 0 \<Longrightarrow> name_at d n c 0 (c + 1) []"
| name_label: "c < n \<Longrightarrow> 0 < unat (d ! c) \<Longrightarrow> unat (d ! c) \<le> 63 \<Longrightarrow> c + 1 + unat (d ! c) \<le> n \<Longrightarrow>
    name_at d n (c + 1 + unat (d ! c)) k e ls \<Longrightarrow>
    name_at d n c k e (take (unat (d ! c)) (drop (c + 1) d) # ls)"
| name_pointer: "c + 1 < n \<Longrightarrow> 192 \<le> unat (d ! c) \<Longrightarrow> dns_pointer d c < n \<Longrightarrow>
    name_at d n (dns_pointer d c) k e ls \<Longrightarrow> name_at d n c (Suc k) (c + 2) ls"

inductive_cases name_atE: "name_at d n c k e ls"

text \<open>The text of a name: its labels with dots between.\<close>

fun append_labels :: "bytes \<Rightarrow> bytes list \<Rightarrow> bytes" where
  "append_labels t [] = t"
| "append_labels t (l # ls) = append_labels (if t = [] then l else t @ 46 # l) ls"

definition name_text :: "bytes list \<Rightarrow> bytes" where
  "name_text ls = (if ls = [] then [46] else append_labels [] ls)"

lemma append_labels_length: "length t \<le> length (append_labels t ls)"
  by (induction t ls rule: append_labels.induct) auto

lemma and_push_bit: "a AND push_bit n b = push_bit n (drop_bit n a AND (b :: nat))"
  by (rule bit_eqI) (auto simp: bit_simps)

lemma div_64:
  assumes "x < 256"
  shows "(x div 64 = 3 \<longleftrightarrow> 192 \<le> x) \<and> (x div 64 = 0 \<longleftrightarrow> x \<le> (63 :: nat))"
proof -
  define q r where "q = x div 64" and "r = x mod 64"
  have x: "x = 64 * q + r" "r < 64" by (simp_all add: q_def r_def)
  then have "q < 4" using assms by linarith
  then consider "q = 0" | "q = 1" | "q = 2" | "q = 3" by linarith
  then show ?thesis unfolding q_def [symmetric] using x by cases simp_all
qed

lemma unat_and_c0: "unat (w AND 0xc0 :: u8) = 64 * (unat w div 64)"
proof -
  have "unat (w AND 0xc0) = unat w AND 192" by (simp add: unsigned_and_eq)
  also have "192 = push_bit 6 (3 :: nat)" by (simp add: push_bit_eq_mult)
  also have "unat w AND push_bit 6 3 = push_bit 6 (drop_bit 6 (unat w) AND 3)" by (rule and_push_bit)
  also have "drop_bit 6 (unat w) AND 3 = drop_bit 6 (unat w)"
  proof -
    have "(3 :: nat) = mask 2" by (simp add: mask_eq_exp_minus_1)
    moreover have "drop_bit 6 (unat w) < 2 ^ 2"
      using unat_u8_less [of w] by (simp add: drop_bit_eq_div less_mult_imp_div_less)
    ultimately show ?thesis by (simp only: take_bit_eq_mask [symmetric] take_bit_nat_eq_self)
  qed
  finally show ?thesis by (simp add: push_bit_eq_mult drop_bit_eq_div)
qed

lemma label_masks:
  fixes w :: u8
  shows "w AND 0xc0 = 0xc0 \<longleftrightarrow> 192 \<le> unat w" "w AND 0xc0 = 0 \<longleftrightarrow> unat w \<le> 63" "w > 63 \<longleftrightarrow> unat w > 63"
  using div_64 [OF unat_u8_less [of w]] unat_and_c0 [of w]
  by (auto simp: word_less_nat_alt word_unat_eq_iff)

text \<open>One round of the loop, with its memory accesses discharged.\<close>

definition put_label :: "bytes \<Rightarrow> nat \<Rightarrow> bytes \<Rightarrow> bytes" where
  "put_label out outlen l = (let t = (if outlen = 0 then [] else take outlen out @ [46])
     in t @ l @ 0 # drop (length t + length l + 1) out)"

lemma of_char_dot: "of_char CHR ''.'' = (46 :: u8)"
  by simp

lemma put_label_mem:
  fixes out l :: bytes
  assumes "length out = 256" "outlen \<le> 253"
  defines "o1 \<equiv> if outlen \<noteq> 0 then outlen + 1 else outlen"
  assumes fits: "o1 + length l \<le> 253"
  shows "\<exists>out1 out2. (if outlen \<noteq> 0 then wr out outlen 46 else Some out) = Some out1 \<and>
    length out1 = 256 \<and> blit out1 o1 l = Some out2 \<and>
    wr out2 (o1 + length l) 0 = Some (put_label out outlen l)"
proof -
  have comm: "length l + outlen = outlen + length l" by simp
  show ?thesis
  proof (cases "outlen = 0")
    case True
    then show ?thesis
      using assms by (auto simp: wr_def blit_def put_label_def list_update_append Cons_nth_drop_Suc
          upd_conv_take_nth_drop)
  next
    case False
    let ?out1 = "take outlen out @ 46 # drop (Suc outlen) out"
    have "out[outlen := 46] = ?out1" using assms(1,2) by (simp add: upd_conv_take_nth_drop)
    then show ?thesis
      using assms False by (auto simp: wr_def blit_def put_label_def list_update_append comm
          upd_conv_take_nth_drop)
  qed
qed

lemma dns_name_loop_round:
  assumes n: "n \<le> length d" and out: "length out = 256" "outlen \<le> 253"
  shows "dns_name_loop d n c out outlen jumped depth off =
    (if \<not> c < n then Some None
     else let len = unat (d ! c); o1 = (if outlen \<noteq> 0 then outlen + 1 else outlen) in
       if len = 0 then Some (Some (if \<not> jumped then c + 1 else off,
         if outlen = 0 then out[0 := 46, 1 := 0] else out))
       else if 192 \<le> len then
         if c + 1 \<ge> n \<or> depth \<ge> 16 \<or> dns_pointer d c \<ge> n then Some None
         else dns_name_loop d n (dns_pointer d c) out outlen True (depth + 1)
                (if \<not> jumped then c + 2 else off)
       else if 63 < len \<or> c + 1 + len > n \<or> o1 + len > 253 then Some None
       else dns_name_loop d n (c + 1 + len) (put_label out outlen (take len (drop (c + 1) d)))
              (o1 + len) jumped depth off)"
proof (cases "c < n")
  case True
  define len where "len = unat (d ! c)"
  define o1 where "o1 = (if outlen \<noteq> 0 then outlen + 1 else outlen)"
  define l where "l = take len (drop (c + 1) d)"
  have c: "rd d c = Some (d ! c)" using True n by (simp add: rd_def)
  have z: "d ! c = 0 \<longleftrightarrow> len = 0" by (simp add: len_def unat_eq_0)
  consider "len = 0" | "192 \<le> len" | "63 < len" "len < 192"
    | "0 < len" "len \<le> 63" "c + 1 + len > n \<or> o1 + len > 253"
    | "0 < len" "len \<le> 63" "c + 1 + len \<le> n" "o1 + len \<le> 253" by linarith
  then have "dns_name_loop d n c out outlen jumped depth off =
    (if len = 0 then Some (Some (if \<not> jumped then c + 1 else off,
         if outlen = 0 then out[0 := 46, 1 := 0] else out))
       else if 192 \<le> len then
         if c + 1 \<ge> n \<or> depth \<ge> 16 \<or> dns_pointer d c \<ge> n then Some None
         else dns_name_loop d n (dns_pointer d c) out outlen True (depth + 1)
                (if \<not> jumped then c + 2 else off)
       else if 63 < len \<or> c + 1 + len > n \<or> o1 + len > 253 then Some None
       else dns_name_loop d n (c + 1 + len) (put_label out outlen l) (o1 + len) jumped depth off)"
  proof cases
    case 1
    then show ?thesis using True c z out by (simp add: dns_name_loop.simps [of d n c] wr_def)
  next
    case 2
    then have "d ! c AND 0xc0 = 0xc0" "d ! c \<noteq> 0" using z by (auto simp: label_masks len_def)
    moreover have "c + 1 < n \<Longrightarrow> rd d (c + 1) = Some (d ! (c + 1))" using n by (simp add: rd_def)
    ultimately show ?thesis
      using True 2 c by (simp add: dns_name_loop.simps [of d n c] dns_pointer_def)
  next
    case 3
    then have "d ! c AND 0xc0 \<noteq> 0xc0" "d ! c AND 0xc0 \<noteq> 0" "d ! c \<noteq> 0"
      using z by (auto simp: label_masks len_def)
    then show ?thesis using True 3 c by (simp add: dns_name_loop.simps [of d n c])
  next
    case 4
    then have m: "d ! c AND 0xc0 \<noteq> 0xc0" "d ! c AND 0xc0 = 0" "\<not> d ! c > 63" "d ! c \<noteq> 0"
      using z by (auto simp: label_masks len_def)
    show ?thesis
      using True 4 c m out n
      by (auto simp: dns_name_loop.simps [of d n c] len_def [symmetric] o1_def wr_def Let_def)
  next
    case 5
    then have m: "d ! c AND 0xc0 \<noteq> 0xc0" "d ! c AND 0xc0 = 0" "\<not> d ! c > 63" "d ! c \<noteq> 0"
      using z by (auto simp: label_masks len_def)
    have ll: "length l = len" using 5 n by (simp add: l_def)
    have s: "rd_slice d (c + 1) len = Some l" using 5 n by (simp add: rd_slice_def l_def)
    obtain out1 out2 where p: "(if outlen \<noteq> 0 then wr out outlen 46 else Some out) = Some out1"
      "length out1 = 256" "blit out1 o1 l = Some out2" "wr out2 (o1 + len) 0 = Some (put_label out outlen l)"
      using put_label_mem [OF out, of l] 5 ll unfolding o1_def [symmetric] by blast
    have g: "\<not> (outlen \<noteq> 0 \<and> (outlen + 1 \<ge> length out \<or> outlen + 1 > 253))"
      "\<not> (o1 + len \<ge> length out1 \<or> o1 + len > 253)" "\<not> c + 1 + len > n" "\<not> (d ! c AND 0xc0 \<noteq> 0 \<or> d ! c > 63)"
      using 5 out p(2) m by (auto simp: o1_def split: if_splits)
    have "dns_name_loop d n c out outlen jumped depth off =
        dns_name_loop d n (c + 1 + len) (put_label out outlen l) (o1 + len) jumped depth off"
      by (subst dns_name_loop.simps) (use 5(4) in \<open>simp only: True not_True_eq_False if_False c bind.simps
        m(1,4) g Let_def len_def [symmetric] o1_def [symmetric] of_char_dot p s, simp\<close>)
    then show ?thesis using True 5 by simp
  qed
  then show ?thesis using True by (simp only: Let_def len_def o1_def l_def not_True_eq_False if_False)
qed (simp add: dns_name_loop.simps)

section \<open>The reader against the specification\<close>


lemma put_label_text:
  assumes "length out = 256" "outlen \<le> 253" "l \<noteq> []"
  defines "T \<equiv> if outlen = 0 then l else take outlen out @ 46 # l"
  assumes "length T \<le> 253"
  shows "length (put_label out outlen l) = 256" "take (length T) (put_label out outlen l) = T"
    "put_label out outlen l ! length T = 0"
    "length T = (if outlen \<noteq> 0 then outlen + 1 else outlen) + length l"
  using assms by (auto simp: put_label_def Let_def nth_append)

text \<open>The written array holds the text of a name.\<close>

definition holds_name :: "bytes \<Rightarrow> bytes \<Rightarrow> bool" where
  "holds_name out T \<longleftrightarrow> length out = 256 \<and> length T \<le> 253 \<and> take (length T) out = T \<and> out ! length T = 0"

lemma name_at_det: "name_at d n c k e ls \<Longrightarrow> name_at d n c k' e' ls' \<Longrightarrow> k' = k \<and> e' = e \<and> ls' = ls"
proof (induction arbitrary: k' e' ls' rule: name_at.induct)
  case (name_end c)
  from name_end(3) show ?case using name_end(2) by (cases rule: name_at.cases) auto
next
  case (name_label c k e ls)
  from name_label.prems show ?case
    by (cases rule: name_at.cases) (use name_label.hyps(1-4) in \<open>auto dest: name_label.IH [simplified]\<close>)
next
  case (name_pointer c k e ls)
  from name_pointer.prems show ?case
    by (cases rule: name_at.cases) (use name_pointer.hyps(1-3) in \<open>auto dest: name_pointer.IH [simplified]\<close>)
qed

lemma name_at_end_le: "name_at d n c k e ls \<Longrightarrow> c < e \<and> e \<le> n"
  by (induction rule: name_at.induct) auto

lemma name_at_labels: "name_at d n c k e ls \<Longrightarrow> n \<le> length d \<Longrightarrow> \<forall>l \<in> set ls. l \<noteq> [] \<and> length l \<le> 63"
  by (induction rule: name_at.induct) auto

lemma dns_name_loop_sound:
  assumes n: "n \<le> length d"
  shows "length out = 256 \<Longrightarrow> outlen \<le> 253 \<Longrightarrow> out ! outlen = 0 \<Longrightarrow> depth \<le> 16 \<Longrightarrow>
    \<exists>r. dns_name_loop d n c out outlen jumped depth off = Some r \<and>
      (\<forall>off' out'. r = Some (off', out') \<longrightarrow> (\<exists>k e ls. name_at d n c k e ls \<and> depth + k \<le> 16 \<and>
        off' = (if jumped then off else e) \<and>
        (let T = append_labels (take outlen out) ls in
         length T \<le> 253 \<and> holds_name out' (if T = [] then [46] else T))))"
proof (induction "(16 - depth) * (n + 1) + (n - c)" arbitrary: c out outlen jumped depth off rule: less_induct)
  case less
  note inv = less.prems
  let ?m = "\<lambda>dep c. (16 - dep) * (n + 1) + (n - c)"
  define len where "len = unat (d ! c)"
  define l where "l = take len (drop (c + 1) d)"
  define T1 where "T1 = (if outlen = 0 then l else take outlen out @ 46 # l)"
  consider "\<not> c < n" | "c < n" "len = 0"
    | "c < n" "192 \<le> len" "c + 1 < n" "depth < 16" "dns_pointer d c < n"
    | "c < n" "192 \<le> len" "c + 1 \<ge> n \<or> depth \<ge> 16 \<or> dns_pointer d c \<ge> n"
    | "c < n" "0 < len" "len \<le> 63" "c + 1 + len \<le> n" "length T1 \<le> 253"
    | "c < n" "0 < len" "len < 192" "63 < len \<or> c + 1 + len > n \<or> c + 1 + len \<le> n \<and> length T1 > 253"
    by linarith
  then show ?case
  proof cases
    case 2
    then have "name_at d n c 0 (c + 1) []" using name_end by (simp add: len_def unat_eq_0)
    moreover have "dns_name_loop d n c out outlen jumped depth off = Some (Some (if \<not> jumped then c + 1 else off,
         if outlen = 0 then out[0 := 46, 1 := 0] else out))"
      using 2 by (subst dns_name_loop_round [OF n inv(1,2)]) (simp add: len_def Let_def)
    moreover have "holds_name (if outlen = 0 then out[0 := 46, 1 := 0] else out)
        (if take outlen out = [] then [46] else take outlen out)"
    proof -
      obtain x y zs where "out = x # y # zs" using inv(1) by (cases out; cases "tl out") auto
      then show ?thesis using inv by (auto simp: holds_name_def min_def)
    qed
    ultimately show ?thesis
      using inv by (intro exI [of _ "Some (if \<not> jumped then c + 1 else off,
         if outlen = 0 then out[0 := 46, 1 := 0] else out)"] conjI allI impI exI [of _ 0] exI [of _ "c + 1"]
         exI [of _ "[]"]) (auto simp: Let_def)
  next
    case 3
    have eq: "dns_name_loop d n c out outlen jumped depth off =
        dns_name_loop d n (dns_pointer d c) out outlen True (depth + 1) (if \<not> jumped then c + 2 else off)"
      using 3 by (subst dns_name_loop_round [OF n inv(1,2)]) (simp add: len_def Let_def)
    have "?m (depth + 1) (dns_pointer d c) < ?m depth c"
    proof -
      obtain m where m: "16 - depth = Suc m" using 3(4) by (metis Suc_diff_Suc)
      then have "16 - (depth + 1) = m" by simp
      then show ?thesis unfolding m by simp
    qed
    from less.hyps [OF this inv(1,2,3), of True "if \<not> jumped then c + 2 else off"] 3(4)
    obtain r where r: "dns_name_loop d n c out outlen jumped depth off = Some r"
      "\<And>off' out'. r = Some (off', out') \<Longrightarrow> \<exists>k e ls. name_at d n (dns_pointer d c) k e ls \<and>
        depth + 1 + k \<le> 16 \<and> off' = (if \<not> jumped then c + 2 else off) \<and>
        (let T = append_labels (take outlen out) ls in
         length T \<le> 253 \<and> holds_name out' (if T = [] then [46] else T))"
      unfolding eq [symmetric] by fastforce
    have "name_at d n c (Suc k) (c + 2) ls" if "name_at d n (dns_pointer d c) k e ls" for k e ls
      using name_pointer [of c n d] 3 that by (simp add: len_def)
    note step = this
    show ?thesis
    proof (intro exI [of _ r] conjI allI impI r(1))
      fix off' out'
      assume "r = Some (off', out')"
      from r(2) [OF this] obtain k e ls where k: "name_at d n (dns_pointer d c) k e ls"
        "depth + 1 + k \<le> 16" "off' = (if \<not> jumped then c + 2 else off)"
        "let T = append_labels (take outlen out) ls in
          length T \<le> 253 \<and> holds_name out' (if T = [] then [46] else T)" by blast
      then show "\<exists>k e ls. name_at d n c k e ls \<and> depth + k \<le> 16 \<and> off' = (if jumped then off else e) \<and>
          (let T = append_labels (take outlen out) ls in
           length T \<le> 253 \<and> holds_name out' (if T = [] then [46] else T))"
        using step [OF k(1)] by (intro exI [of _ "Suc k"] exI [of _ "c + 2"] exI [of _ ls]) simp
    qed
  next
    case 5
    have ll: "length l = len" "l \<noteq> []" using 5 n by (auto simp: l_def)
    note p = put_label_text [OF inv(1,2) ll(2), folded T1_def, OF 5(5)]
    have t: "take (length T1) (put_label out outlen l) = T1" "length T1 = (if outlen \<noteq> 0 then outlen + 1 else outlen) + len"
      using p ll by simp_all
    have eq: "dns_name_loop d n c out outlen jumped depth off =
        dns_name_loop d n (c + 1 + len) (put_label out outlen l) (length T1) jumped depth off"
      unfolding t(2) using 5 t(2)
      by (subst dns_name_loop_round [OF n inv(1,2)]) (auto simp: len_def l_def Let_def)
    have "?m depth (c + 1 + len) < ?m depth c" using 5 by simp
    from less.hyps [OF this p(1) 5(5) p(3) inv(4), of jumped off]
    obtain r where r: "dns_name_loop d n c out outlen jumped depth off = Some r"
      "\<forall>off' out'. r = Some (off', out') \<longrightarrow> (\<exists>k e ls. name_at d n (c + 1 + len) k e ls \<and> depth + k \<le> 16 \<and>
        off' = (if jumped then off else e) \<and>
        (let T = append_labels T1 ls in length T \<le> 253 \<and> holds_name out' (if T = [] then [46] else T)))"
      unfolding eq [symmetric] t(1) by blast
    have "name_at d n c k e (l # ls)" if "name_at d n (c + 1 + len) k e ls" for k e ls
      using name_label [of c n d] 5 that by (simp add: len_def l_def)
    moreover have "append_labels (take outlen out) (l # ls) = append_labels T1 ls" for ls
      using inv(1,2) by (auto simp: T1_def)
    ultimately show ?thesis using r by (metis (no_types, lifting))
  next
    case 6
    have "dns_name_loop d n c out outlen jumped depth off = Some None"
    proof -
      have "length T1 = (if outlen \<noteq> 0 then outlen + 1 else outlen) + len" if "c + 1 + len \<le> n"
        using that n inv by (simp add: T1_def l_def)
      then show ?thesis
        using 6 by (subst dns_name_loop_round [OF n inv(1,2)]) (auto simp: len_def Let_def)
    qed
    then show ?thesis by simp
  next
    case 1
    then have "dns_name_loop d n c out outlen jumped depth off = Some None"
      by (subst dns_name_loop_round [OF n inv(1,2)]) simp
    then show ?thesis by simp
  next
    case 4
    then have "dns_name_loop d n c out outlen jumped depth off = Some None"
      by (subst dns_name_loop_round [OF n inv(1,2)]) (auto simp: len_def Let_def)
    then show ?thesis by simp
  qed
qed


lemma dns_name_loop_complete:
  assumes n: "n \<le> length d"
  shows "name_at d n c k e ls \<Longrightarrow> length out = 256 \<Longrightarrow> outlen \<le> 253 \<Longrightarrow> out ! outlen = 0 \<Longrightarrow>
    depth + k \<le> 16 \<Longrightarrow> length (append_labels (take outlen out) ls) \<le> 253 \<Longrightarrow>
    \<exists>r. dns_name_loop d n c out outlen jumped depth off = Some (Some r)"
proof (induction arbitrary: out outlen jumped depth off rule: name_at.induct)
  case (name_end c)
  then show ?case by (subst dns_name_loop_round [OF n]) (auto simp: Let_def)
next
  case (name_label c k e ls)
  define l where "l = take (unat (d ! c)) (drop (c + 1) d)"
  define T1 where "T1 = (if outlen = 0 then l else take outlen out @ 46 # l)"
  have ll: "length l = unat (d ! c)" "l \<noteq> []" using name_label.hyps n by (auto simp: l_def)
  have T: "append_labels (take outlen out) (l # ls) = append_labels T1 ls"
    using name_label.prems(1,2) by (auto simp: T1_def)
  then have T1: "length (append_labels T1 ls) \<le> 253" using name_label.prems(5) by (simp add: l_def)
  then have fit: "length T1 \<le> 253" using append_labels_length [of T1 ls] by simp
  note p = put_label_text [OF name_label.prems(1,2) ll(2), folded T1_def, OF fit]
  have "\<exists>r. dns_name_loop d n (c + 1 + unat (d ! c)) (put_label out outlen l) (length T1) jumped depth off = Some (Some r)"
    using name_label.IH [OF p(1) fit p(3) name_label.prems(4)] T1 p(2) by simp
  then show ?case
    using name_label.hyps fit p(4) ll(1)
    by (subst dns_name_loop_round [OF n name_label.prems(1,2)]) (cases "outlen = 0"; simp add: Let_def l_def)
next
  case (name_pointer c k e ls)
  then show ?case
    by (subst dns_name_loop_round [OF n]) (auto simp: Let_def)
qed



lemma append_labels_Nil: "append_labels t ls = [] \<longleftrightarrow> t = [] \<and> (\<forall>l \<in> set ls. l = [])"
  by (induction t ls rule: append_labels.induct) auto

lemma name_text_append:
  "name_at d n c k e ls \<Longrightarrow> n \<le> length d \<Longrightarrow>
    (if append_labels [] ls = [] then [46] else append_labels [] ls) = name_text ls"
  using name_at_labels [of d n c k e ls] by (cases ls) (auto simp: name_text_def append_labels_Nil)

lemma name_text_length: "length (append_labels [] ls) \<le> length (name_text ls)"
  by (simp add: name_text_def)

lemma parse_dns_name_sound:
  assumes n: "n \<le> length d" and out: "length out = 256"
  shows "\<exists>r. parse_dns_name (Some d) n off out = Some r \<and>
    (\<forall>off' out'. r = Some (off', out') \<longrightarrow>
      (\<exists>k ls. name_at d n off k off' ls \<and> k \<le> 16 \<and> holds_name out' (name_text ls)))"
proof (cases "off < n")
  case True
  have "length (out[0 := 0]) = 256" "(out[0 := 0]) ! 0 = 0" using out by (cases out; simp)+
  from dns_name_loop_sound [OF n this(1) _ this(2), of 0 off False off]
  obtain r where r: "dns_name_loop d n off (out[0 := 0]) 0 False 0 off = Some r"
    "\<And>off' out'. r = Some (off', out') \<Longrightarrow> \<exists>k e ls. name_at d n off k e ls \<and> k \<le> 16 \<and> off' = e \<and>
      holds_name out' (if append_labels [] ls = [] then [46] else append_labels [] ls)"
    by (simp add: Let_def) meson
  have "parse_dns_name (Some d) n off out = Some r"
    using True out r(1) by (auto simp: parse_dns_name_def wr_def)
  moreover have "\<exists>k ls. name_at d n off k off' ls \<and> k \<le> 16 \<and> holds_name out' (name_text ls)"
    if "r = Some (off', out')" for off' out'
  proof -
    from r(2) [OF that] obtain k ls where k: "name_at d n off k off' ls" "k \<le> 16"
      "holds_name out' (if append_labels [] ls = [] then [46] else append_labels [] ls)" by blast
    then show ?thesis unfolding name_text_append [OF k(1) n] by blast
  qed
  ultimately show ?thesis by blast
qed (simp add: parse_dns_name_def)

lemma parse_dns_name_complete:
  assumes n: "n \<le> length d" and out: "length out = 256"
    and name: "name_at d n off k e ls" "k \<le> 16" "length (name_text ls) \<le> 253"
  shows "\<exists>out'. parse_dns_name (Some d) n off out = Some (Some (e, out')) \<and> holds_name out' (name_text ls)"
proof -
  have off: "off < n" using name_at_end_le [OF name(1)] by simp
  have o: "length (out[0 := 0]) = 256" "(out[0 := 0]) ! 0 = 0" using out by (cases out; simp)+
  have len: "length (append_labels [] ls) \<le> 253" using name(3) name_text_length [of ls] by simp
  obtain r where "dns_name_loop d n off (out[0 := 0]) 0 False 0 off = Some (Some r)"
    using dns_name_loop_complete [OF n name(1) o(1) _ o(2), of 0 False off] name(2) len by auto
  then have p: "parse_dns_name (Some d) n off out = Some (Some r)"
    using off out by (auto simp: parse_dns_name_def wr_def)
  obtain e' out' where r: "r = (e', out')" by (cases r)
  from parse_dns_name_sound [OF n out, of off] p r
  obtain k' ls' where "name_at d n off k' e' ls'" "holds_name out' (name_text ls')" by auto
  with name_at_det [OF name(1)] have "e' = e" "holds_name out' (name_text ls)" by auto
  with p r show ?thesis by simp
qed

lemma holds_name_split: "holds_name out T \<Longrightarrow> out = T @ 0 # drop (Suc (length T)) out"
proof -
  assume h: "holds_name out T"
  then have "length T < length out" by (simp add: holds_name_def)
  from id_take_nth_drop [OF this] h show ?thesis by (simp add: holds_name_def)
qed

lemma holds_name_terminated: "holds_name out T \<Longrightarrow> terminated 256 out"
proof -
  assume h: "holds_name out T"
  have "0 \<in> set (T @ 0 # drop (Suc (length T)) out)" by simp
  with h show ?thesis by (simp add: terminated_def holds_name_split [OF h, symmetric]) (simp add: holds_name_def)
qed

lemma holds_name_cstr: "holds_name out T \<Longrightarrow> 0 \<notin> set T \<Longrightarrow> cstr out = T"
proof -
  assume h: "holds_name out T" "0 \<notin> set T"
  have "cstr (T @ 0 # drop (Suc (length T)) out) = T" using h(2) by (simp add: cstr_append)
  then show ?thesis by (simp add: holds_name_split [OF h(1), symmetric])
qed

lemma decode_dns_safe:
  assumes n: "n \<le> length d"
  shows "decoded_as proto (decode_dns_message_as proto label (Some d) n)"
proof -
  obtain r where r: "parse_dns_name (Some d) n 12 (dns_query_name app_info_zero) = Some r"
    "\<And>off' out'. r = Some (off', out') \<Longrightarrow> off' \<le> n \<and> terminated 256 out'"
    using parse_dns_name_sound [OF n, of "dns_query_name app_info_zero" 12]
    by (auto simp: app_info_zero_def dest!: name_at_end_le holds_name_terminated)
  have q: "off \<le> n \<Longrightarrow> n - off \<le> length (drop off d)" for off using n by simp
  have ok: "app_info_ok app_info_zero" by simp
  show ?thesis
    using n ok r
    by (cases r) (auto simp: decode_dns_message_as_def br_init_at br_at_in q Let_def app_info_ok_def)
qed


text \<open>The five decoders keep the contract of an application decoder.\<close>

lemma decode_dns_null: "decode_dns_message_as proto label None n = Some (DECODE_NO_MATCH, app_info_zero)"
  by (simp add: decode_dns_message_as_def)

interpretation dns_message: app_decoder app_dns_decode_message APP_PROTO_DNS
  by unfold_locales (simp_all add: app_dns_decode_message_def decode_dns_safe decode_dns_null)

interpretation mdns_message: app_decoder app_dns_decode_mdns_message APP_PROTO_MDNS
  by unfold_locales (simp_all add: app_dns_decode_mdns_message_def decode_dns_safe decode_dns_null)

interpretation dns_udp: app_decoder app_dns_decode_udp APP_PROTO_DNS
  by unfold_locales (simp_all add: app_dns_decode_udp_def dns_message.decode_null dns_message.decode_safe)

interpretation mdns_udp: app_decoder app_dns_decode_mdns_udp APP_PROTO_MDNS
  by unfold_locales (simp_all add: app_dns_decode_mdns_udp_def mdns_message.decode_null mdns_message.decode_safe)

interpretation dns_tcp: app_decoder app_dns_decode_tcp_frame APP_PROTO_DNS
  by unfold_locales (auto simp: app_dns_decode_tcp_frame_def rd_def Let_def dns_message.decode_safe)

section \<open>Encoding and decoding a query\<close>

definition dns_wire :: "bytes list \<Rightarrow> bytes" where
  "dns_wire ls = concat (map (\<lambda>l. of_nat (length l) # l) ls) @ [0]"

definition dns_question :: "u16 \<Rightarrow> u16 \<Rightarrow> bytes list \<Rightarrow> u16 \<Rightarrow> u16 \<Rightarrow> bytes" where
  "dns_question tid flags ls qtype qclass =
     put16 tid @ put16 flags @ put16 1 @ put16 0 @ put16 0 @ put16 0 @ dns_wire ls @ put16 qtype @ put16 qclass"

lemma name_at_wire:
  assumes "\<forall>l \<in> set ls. l \<noteq> [] \<and> length l \<le> 63"
  shows "d = pre @ dns_wire ls @ rest \<Longrightarrow> n = length d \<Longrightarrow>
    name_at d n (length pre) 0 (length pre + length (dns_wire ls)) ls"
  using assms
proof (induction ls arbitrary: pre)
  case Nil
  then show ?case using name_end [of "length pre" n d] by (simp add: dns_wire_def nth_append)
next
  case (Cons l ls)
  have len: "unat (of_nat (length l) :: u8) = length l" using Cons.prems(3) by (simp add: unat_of_nat)
  let ?pre = "pre @ of_nat (length l) # l"
  have d: "d = ?pre @ dns_wire ls @ rest" using Cons.prems(1) by (simp add: dns_wire_def)
  have "name_at d n (length ?pre) 0 (length ?pre + length (dns_wire ls)) ls"
    using Cons.IH [OF d Cons.prems(2)] Cons.prems(3) by simp
  moreover have c: "d ! length pre = of_nat (length l)" "take (length l) (drop (length pre + 1) d) = l"
    using d by (simp_all add: nth_append)
  moreover have "length pre + 1 + length l \<le> n" "0 < length l" "length l \<le> 63"
    using d Cons.prems(2,3) by (auto simp: dns_wire_def)
  moreover have "length pre + length (dns_wire (l # ls)) = length ?pre + length (dns_wire ls)"
    by (simp add: dns_wire_def)
  ultimately show ?case
    using name_label [of "length pre" n d 0 "length ?pre + length (dns_wire ls)" ls]
    by (simp add: len add_ac)
qed

lemma be16_1: "be16 0 1 = 1" and be16_0: "be16 0 0 = 0"
  by (rule bit_word_eqI, auto simp: be16_def bit_simps)+

lemma dns_query_name_zero: "dns_query_name app_info_zero = replicate 256 0"
  by (simp add: app_info_zero_def)

lemma decode_question:
  assumes labels: "\<forall>l \<in> set ls. l \<noteq> [] \<and> length l \<le> 63" and fits: "length (name_text ls) \<le> 253"
  shows "\<exists>nm. holds_name nm (name_text ls) \<and>
    decode_dns_message_as proto label (Some (dns_question tid flags ls qtype qclass))
      (length (dns_question tid flags ls qtype qclass)) =
    Some (DECODE_OK, let a = app_info_zero\<lparr>app_protocol := proto, dns_transaction_id := tid,
        dns_question_count := 1, dns_is_response := (flags AND 0x8000 \<noteq> 0),
        dns_opcode := ucast (drop_bit 11 flags AND 0x0f), dns_rcode := ucast (flags AND 0x0f),
        dns_query_name := nm, dns_query_type := qtype, dns_query_class := qclass\<rparr>
      in a\<lparr>summary := put_str (summary a) (dns_summary label a)\<rparr>)"
proof -
  define d where "d = dns_question tid flags ls qtype qclass"
  define e where "e = 12 + length (dns_wire ls)"
  define pre where "pre = put16 tid @ put16 flags @ put16 1 @ put16 0 @ put16 0 @ put16 0"
  have d: "d = pre @ dns_wire ls @ put16 qtype @ put16 qclass" by (simp add: d_def dns_question_def pre_def)
  have l: "length pre = 12" "length d = e + 4" by (simp_all add: d pre_def e_def)
  have "name_at d (length d) 12 0 e ls"
    using name_at_wire [OF labels d refl] l by (simp add: e_def)
  from parse_dns_name_complete [OF order_refl _ this _ fits, of "replicate 256 0"]
  obtain nm where t: "parse_dns_name (Some d) (length d) 12 (replicate 256 0) = Some (Some (e, nm))"
    "holds_name nm (name_text ls)" by auto
  have hd: "d ! 0 = hi8 tid" "d ! 1 = lo8 tid" "d ! 2 = hi8 flags" "d ! 3 = lo8 flags" "d ! 4 = 0" "d ! 5 = 1"
    "d ! 6 = 0" "d ! 7 = 0" "d ! 8 = 0" "d ! 9 = 0" "d ! 10 = 0" "d ! 11 = 0"
    by (simp_all add: d pre_def put16_def nth_append hi8_def lo8_def)
  have e: "12 \<le> e" by (simp add: e_def)
  have tl: "drop e d = put16 qtype @ put16 qclass" by (simp add: d e_def l)
  have "decode_dns_message_as proto label (Some d) (length d) =
    Some (DECODE_OK, let a = app_info_zero\<lparr>app_protocol := proto, dns_transaction_id := tid,
        dns_question_count := 1, dns_is_response := (flags AND 0x8000 \<noteq> 0),
        dns_opcode := ucast (drop_bit 11 flags AND 0x0f), dns_rcode := ucast (flags AND 0x0f),
        dns_query_name := nm, dns_query_type := qtype, dns_query_class := qclass\<rparr>
      in a\<lparr>summary := put_str (summary a) (dns_summary label a)\<rparr>)"
    using l t(1) hd e
    by (simp add: decode_dns_message_as_def br_init_at br_at_in Let_def be16_1 be16_0 tl put16_def
        dns_header_is_plausible_def dns_query_name_zero del: add_2_eq_Suc add_2_eq_Suc')
  with t(2) show ?thesis by (auto simp: d_def)
qed


lemma append_labels_no_nul: "0 \<notin> set t \<Longrightarrow> \<forall>l \<in> set ls. 0 \<notin> set l \<Longrightarrow> 0 \<notin> set (append_labels t ls)"
  by (induction t ls rule: append_labels.induct) auto

lemma name_text_no_nul: "\<forall>l \<in> set ls. 0 \<notin> set l \<Longrightarrow> 0 \<notin> set (name_text ls)"
  by (simp add: name_text_def append_labels_no_nul)

section \<open>Properties\<close>

text \<open>C19. The name reader is exact for compressed names: it never reads outside the message or writes
  outside the 256-byte field, whatever the bytes (self-referencing pointers included); a name it
  accepts is the one that the encoding denotes, with the offset just after its in-place encoding;
  and it accepts every well-encoded name with at most 16 pointers and at most 253 characters.\<close>

theorem dns_name_exact:
  assumes "n \<le> length d" "length out = 256"
  shows "parse_dns_name (Some d) n off out \<noteq> None \<and>
    (\<forall>e out'. parse_dns_name (Some d) n off out = Some (Some (e, out')) \<longrightarrow>
      (\<exists>k ls. name_at d n off k e ls \<and> k \<le> 16 \<and> holds_name out' (name_text ls))) \<and>
    (\<forall>k e ls. name_at d n off k e ls \<and> k \<le> 16 \<and> length (name_text ls) \<le> 253 \<longrightarrow>
      (\<exists>out'. parse_dns_name (Some d) n off out = Some (Some (e, out')) \<and> holds_name out' (name_text ls)))"
  using parse_dns_name_sound [OF assms, of off] parse_dns_name_complete [OF assms, of off] by auto

definition ex_dns_name :: bytes where
  "ex_dns_name = [1, 97, 0, 1, 98, 0xc0, 0]"

text \<open>The name \<open>b.a\<close> at offset 3, whose second label is behind a pointer.\<close>

lemma dns_name_exact_witness:
  "\<exists>out'. parse_dns_name (Some ex_dns_name) 7 3 (replicate 256 0) = Some (Some (7, out')) \<and>
     holds_name out' [98, 46, 97]"
proof -
  have "name_at ex_dns_name 7 2 0 3 []" using name_end [of 2 7 ex_dns_name] by (simp add: ex_dns_name_def numeral_3_eq_3)
  then have "name_at ex_dns_name 7 0 0 3 [[97]]"
    using name_label [of 0 7 ex_dns_name 0 3 "[]"] by (simp add: ex_dns_name_def numeral_2_eq_2 numeral_3_eq_3)
  then have "name_at ex_dns_name 7 5 1 7 [[97]]"
    using name_pointer [of 5 7 ex_dns_name 0 3 "[[97]]"]
    by (simp add: ex_dns_name_def dns_pointer_def be16_0)
  then have "name_at ex_dns_name 7 3 1 7 [[98], [97]]"
    using name_label [of 3 7 ex_dns_name 1 7 "[[97]]"] by (simp add: ex_dns_name_def)
  moreover have "7 \<le> length ex_dns_name" "length (replicate 256 0 :: bytes) = 256" by (simp_all add: ex_dns_name_def)
  moreover have "length (name_text [[98], [97 :: u8]]) \<le> 253" "(1 :: nat) \<le> 16" by (simp_all add: name_text_def)
  ultimately have "\<exists>out'. parse_dns_name (Some ex_dns_name) 7 3 (replicate 256 0) = Some (Some (7, out')) \<and>
      holds_name out' (name_text [[98], [97]])"
    using dns_name_exact [of 7 ex_dns_name "replicate 256 0" 3] by blast
  then show ?thesis by (simp add: name_text_def)
qed

text \<open>C20. Decoding recovers an encoded question: for every transaction id, flag word, type, class and
  list of labels of 1 to 63 bytes without NUL whose text has at most 253 characters, the DNS decoder
  applied to the encoded message reports DNS with exactly these values and the dotted name.\<close>

theorem dns_question_roundtrip:
  assumes "\<forall>l \<in> set ls. l \<noteq> [] \<and> length l \<le> 63 \<and> 0 \<notin> set l" "length (name_text ls) \<le> 253"
  shows "\<exists>a. app_dns_decode_message (Some (dns_question tid flags ls qtype qclass))
        (length (dns_question tid flags ls qtype qclass)) = Some (DECODE_OK, a) \<and>
      app_protocol a = APP_PROTO_DNS \<and> dns_transaction_id a = tid \<and> dns_question_count a = 1 \<and>
      dns_is_response a = (flags AND 0x8000 \<noteq> 0) \<and> dns_opcode a = ucast (drop_bit 11 flags AND 0x0f) \<and>
      dns_rcode a = ucast (flags AND 0x0f) \<and> cstr (dns_query_name a) = name_text ls \<and>
      dns_query_type a = qtype \<and> dns_query_class a = qclass"
proof -
  have l: "\<forall>l \<in> set ls. l \<noteq> [] \<and> length l \<le> 63" "0 \<notin> set (name_text ls)"
    using assms(1) name_text_no_nul [of ls] by auto
  from l(2) show ?thesis
    using decode_question [OF l(1) assms(2), of APP_PROTO_DNS "''DNS''" tid flags qtype qclass]
    by (auto simp: app_dns_decode_message_def Let_def holds_name_cstr)
qed

lemma dns_question_roundtrip_witness:
  "\<exists>a. app_dns_decode_message (Some (dns_question 7 0x0100 [[119], [120, 121]] 1 1)) 22 = Some (DECODE_OK, a) \<and>
     cstr (dns_query_name a) = [119, 46, 120, 121] \<and> dns_transaction_id a = 7 \<and> \<not> dns_is_response a"
  using dns_question_roundtrip [where ls = "[[119], [120, 121]]" and tid = 7 and flags = "0x0100" and qtype = 1 and qclass = 1]
  by (auto simp: name_text_def dns_question_def dns_wire_def)

end
