(* ===== verification/App_Tls.thy ===== *)
theory App_Tls
  imports App_Contract
begin

text \<open>
  \<open>src/app_tls.c\<close>: the clear text of a TLS ClientHello. The vectors of the handshake are nested
  (record, handshake, extensions, one extension, a list inside it); the code reads each of them
  with offsets bounded by the end of the innermost one.
\<close>

section \<open>The decoder\<close>

text \<open>\<open>memcpy\<close> of at most \<open>sizeof destination - 1\<close> bytes and a terminator.\<close>

definition copy_text :: "bytes \<Rightarrow> bytes \<Rightarrow> nat \<Rightarrow> nat \<Rightarrow> bytes option" where
  "copy_text dst d off len =
     (if dst = [] then Some dst
      else do {
        let copy_length = (if len \<ge> length dst then length dst - 1 else len);
        text \<leftarrow> rd_slice d off copy_length;
        dst1 \<leftarrow> blit dst 0 text;
        wr dst1 copy_length 0
      })"

function sni_loop :: "bytes \<Rightarrow> nat \<Rightarrow> nat \<Rightarrow> app_info \<Rightarrow> app_info option option" where
  "sni_loop d list_end off out =
     (if \<not> off < list_end then Some (if off = list_end then Some out else None)
      else
        need (read_u8_at d list_end off) (Some None) (\<lambda>name_type off1.
        need (read_u16_at d list_end off1) (Some None) (\<lambda>name_length off2.
          if name_length = 0 \<or> unat name_length > list_end - off2 then Some None
          else do {
            first \<leftarrow> rd (tls_sni out) 0;
            out' \<leftarrow> (if name_type = 0 \<and> first = 0 then do {
                sni \<leftarrow> copy_text (tls_sni out) d off2 (unat name_length);
                Some (out\<lparr>tls_sni := sni\<rparr>)
              } else Some out);
            sni_loop d list_end (off2 + unat name_length) out'
          })))"
  by pat_completeness auto
termination
  by (relation "measure (\<lambda>(_, list_end, off, _). list_end - off)") (auto dest!: read_at_SomeD)

declare sni_loop.simps [simp del]

definition parse_sni_extension :: "bytes \<Rightarrow> nat \<Rightarrow> app_info \<Rightarrow> app_info option option" where
  "parse_sni_extension d n out =
     need (read_u16_at d n 0) (Some None) (\<lambda>list_length off.
       if unat list_length \<noteq> n - off then Some None
       else sni_loop d (off + unat list_length) off out)"

text \<open>\<open>strlen\<close> needs a terminator inside the array.\<close>

definition append_alpn :: "bytes \<Rightarrow> bytes \<Rightarrow> nat \<Rightarrow> nat \<Rightarrow> bytes option option" where
  "append_alpn dst d off len =
     (if 0 \<notin> set dst then None
      else
        let current = length (cstr dst) in
        if current \<noteq> 0 \<and> current + 1 \<ge> length dst then Some None
        else do {
          dst1 \<leftarrow> (if current \<noteq> 0 then do { t \<leftarrow> wr dst current 44; wr t (current + 1) 0 } else Some dst);
          let current1 = (if current \<noteq> 0 then current + 1 else current);
          let copy_length = (if current1 + len \<ge> length dst then length dst - current1 - 1 else len);
          text \<leftarrow> rd_slice d off copy_length;
          dst2 \<leftarrow> blit dst1 current1 text;
          dst3 \<leftarrow> wr dst2 (current1 + copy_length) 0;
          Some (Some dst3)
        })"

function alpn_loop :: "bytes \<Rightarrow> nat \<Rightarrow> nat \<Rightarrow> app_info \<Rightarrow> app_info option option" where
  "alpn_loop d list_end off out =
     (if \<not> off < list_end then Some (if off = list_end then Some out else None)
      else
        need (read_u8_at d list_end off) (Some None) (\<lambda>protocol_length off1.
          if protocol_length = 0 \<or> unat protocol_length > list_end - off1 then Some None
          else do {
            r \<leftarrow> append_alpn (tls_alpn out) d off1 (unat protocol_length);
            case r of None \<Rightarrow> Some None
            | Some alpn \<Rightarrow> alpn_loop d list_end (off1 + unat protocol_length) (out\<lparr>tls_alpn := alpn\<rparr>)
          }))"
  by pat_completeness auto
termination
  by (relation "measure (\<lambda>(_, list_end, off, _). list_end - off)") (auto dest!: read_at_SomeD)

declare alpn_loop.simps [simp del]

definition parse_alpn_extension :: "bytes \<Rightarrow> nat \<Rightarrow> app_info \<Rightarrow> app_info option option" where
  "parse_alpn_extension d n out =
     need (read_u16_at d n 0) (Some None) (\<lambda>list_length off.
       if unat list_length \<noteq> n - off then Some None
       else alpn_loop d (off + unat list_length) off out)"

function extensions_loop :: "bytes \<Rightarrow> nat \<Rightarrow> nat \<Rightarrow> app_info \<Rightarrow> app_info option option" where
  "extensions_loop d exts_end off out =
     (if \<not> off < exts_end then Some (if off = exts_end then Some out else None)
      else
        need (read_u16_at d exts_end off) (Some None) (\<lambda>ext_type off1.
        need (read_u16_at d exts_end off1) (Some None) (\<lambda>ext_length off2.
          if unat ext_length > exts_end - off2 then Some None
          else do {
            r \<leftarrow> (if ext_type = 0x0000 then parse_sni_extension (drop off2 d) (unat ext_length) out
                 else if ext_type = 0x0010 then parse_alpn_extension (drop off2 d) (unat ext_length) out
                 else Some (Some out));
            case r of None \<Rightarrow> Some None
            | Some out' \<Rightarrow> extensions_loop d exts_end (off2 + unat ext_length) out'
          })))"
  by pat_completeness auto
termination
  by (relation "measure (\<lambda>(_, exts_end, off, _). exts_end - off)") (auto dest!: read_at_SomeD)

declare extensions_loop.simps [simp del]

definition parse_extensions :: "bytes \<Rightarrow> nat \<Rightarrow> nat \<Rightarrow> app_info \<Rightarrow> app_info option option" where
  "parse_extensions d n off out =
     (if off = n then Some (Some out)
      else need (read_u16_at d n off) (Some None) (\<lambda>exts_length off1.
        if unat exts_length > n - off1 then Some None
        else extensions_loop d (off1 + unat exts_length) off1 out))"

definition tls_summary :: "app_info \<Rightarrow> bytes" where
  "tls_summary a = asc ''TLS ClientHello sni='' @ cstr (tls_sni a) @ asc '' alpn='' @ cstr (tls_alpn a)"

definition parse_client_hello_body :: "bytes \<Rightarrow> nat \<Rightarrow> app_info \<Rightarrow> (app_decode_result \<times> app_info) option" where
  "parse_client_hello_body d n out =
     (let bad = Some (DECODE_MALFORMED, app_info_clear) in
      need (read_u16_at d n 0) bad (\<lambda>version off.
        if \<not> remaining n off 32 then bad
        else need (read_u8_at d n (off + 32)) bad (\<lambda>session_id_length off1.
          if \<not> remaining n off1 (unat session_id_length) then bad
          else need (read_u16_at d n (off1 + unat session_id_length)) bad (\<lambda>ciphers off2.
            if ciphers = 0 \<or> ciphers mod 2 \<noteq> 0 \<or> \<not> remaining n off2 (unat ciphers) then bad
            else need (read_u8_at d n (off2 + unat ciphers)) bad (\<lambda>compressions off3.
              if compressions = 0 \<or> \<not> remaining n off3 (unat compressions) then bad
              else do {
                r \<leftarrow> parse_extensions d n (off3 + unat compressions) (out\<lparr>tls_client_version := version\<rparr>);
                case r of None \<Rightarrow> bad
                | Some a \<Rightarrow> Some (DECODE_OK, a\<lparr>summary := put_str (summary a) (tls_summary a)\<rparr>)
              })))))"

text \<open>
  The early returns before the protocol is set leave the record version in the result; the later
  ones, and every failure of the body, clear it.
\<close>

definition app_tls_decode_client_hello :: decoder where
  "app_tls_decode_client_hello data n =
     (case data of None \<Rightarrow> Some (DECODE_NO_MATCH, app_info_clear)
      | Some d \<Rightarrow>
      if n = 0 then Some (DECODE_NO_MATCH, app_info_clear)
      else if n < 5 then do {
        b \<leftarrow> rd d 0;
        Some (if b = 0x16 then DECODE_NEED_MORE else DECODE_NO_MATCH, app_info_clear)
      }
      else
        need (br_read_u8 (br_init (Some d) n)) (Some (DECODE_NEED_MORE, app_info_clear)) (\<lambda>content_type r1.
        need (br_read_u16_be r1) (Some (DECODE_NEED_MORE, app_info_clear)) (\<lambda>version r2.
        let a = app_info_clear\<lparr>tls_record_version := version\<rparr> in
        need (br_read_u16_be r2) (Some (DECODE_NEED_MORE, a)) (\<lambda>record_length r3.
          if content_type \<noteq> 0x16 \<or> drop_bit 8 version \<noteq> 0x03 then Some (DECODE_NO_MATCH, a)
          else if n < 5 + unat record_length then Some (DECODE_NEED_MORE, a)
          else if unat record_length < 4 then Some (DECODE_MALFORMED, a)
          else
            let a1 = a\<lparr>app_protocol := APP_PROTO_TLS\<rparr> in
            need (read_u8_at d n 5) (Some (DECODE_NEED_MORE, app_info_clear)) (\<lambda>handshake_type off1.
            need (read_u24_at d n off1) (Some (DECODE_NEED_MORE, app_info_clear)) (\<lambda>handshake_length off2.
              if handshake_type \<noteq> 0x01 then Some (DECODE_NO_MATCH, app_info_clear)
              else if handshake_length > unat record_length - 4 then Some (DECODE_NEED_MORE, app_info_clear)
              else parse_client_hello_body (drop off2 d) handshake_length
                     (a1\<lparr>tls_handshake_type := handshake_type\<rparr>)))))))"



section \<open>Safety\<close>

lemma copy_text_put:
  assumes "off + len \<le> length d" "dst \<noteq> []"
  shows "copy_text dst d off len = Some (put_str dst (take len (drop off d)))"
proof -
  define c where "c = (if len \<ge> length dst then length dst - 1 else len)"
  have c: "off + c \<le> length d" "c < length dst" using assms by (auto simp: c_def)
  have "take (length dst - 1) (take len (drop off d)) = take c (drop off d)"
    by (auto simp: c_def min_def not_le intro: arg_cong [of _ _ "\<lambda>k. take k (drop off d)"])
  moreover have "length (take c (drop off d)) = c" using c by simp
  ultimately show ?thesis
    using assms c
    by (simp add: copy_text_def put_str_def Let_def c_def [symmetric] rd_slice_def blit_def wr_def
        upd_conv_take_nth_drop)
qed

text \<open>Text after a prefix of an array, and a terminator.\<close>

lemma put_after:
  assumes "length txt < length t"
  shows "\<exists>a1. blit (pre @ t) (length pre) txt = Some a1 \<and>
    wr a1 (length pre + length txt) 0 = Some (pre @ txt @ 0 # drop (Suc (length txt)) t)"
  using assms by (simp add: blit_def wr_def list_update_append upd_conv_take_nth_drop)

lemma terminated_split: "terminated n buf \<Longrightarrow> \<exists>rest. buf = cstr buf @ 0 # rest"
proof (induction buf arbitrary: n)
  case (Cons b buf)
  then show ?case by (cases "b = 0") (fastforce simp: terminated_def cstr_def)+
qed (simp add: terminated_def)

definition alpn_join :: "bytes \<Rightarrow> bytes \<Rightarrow> bytes" where
  "alpn_join s name = (if s = [] then name else s @ 44 # name)"

lemma append_alpn_exact:
  assumes dst: "terminated 256 dst" and d: "off + len \<le> length d"
  shows "append_alpn dst d off len = Some (if length (cstr dst) = 255 then None
    else Some (put_str dst (alpn_join (cstr dst) (take len (drop off d)))))"
proof -
  let ?s = "cstr dst" and ?name = "take len (drop off d)"
  obtain rest where rest: "dst = ?s @ 0 # rest" using terminated_split [OF dst] by blast
  have l: "0 \<in> set dst" "length dst = 256" using dst by (auto simp: terminated_def)
  have c: "length ?s < 256" using dst by (rule cstr_length_terminated)
  show ?thesis
  proof (cases "?s = []")
    case True
    define m where "m = (if len \<ge> 256 then 255 else len)"
    have t: "length (take m (drop off d)) = m" "m < 256" "off + m \<le> length d"
      using d by (auto simp: m_def)
    have tk: "take 255 ?name = take m (drop off d)" by (cases "len = 255") (auto simp: m_def min_def)
    have "append_alpn dst d off len =
        do { txt \<leftarrow> rd_slice d off m; dst2 \<leftarrow> blit dst 0 txt; dst3 \<leftarrow> wr dst2 m 0; Some (Some dst3) }"
      using True l by (simp add: append_alpn_def Let_def m_def)
    also have "\<dots> = Some (Some (take m (drop off d) @ 0 # drop (Suc m) dst))"
      using l t put_after [of "take m (drop off d)" dst "[]"] by (auto simp: rd_slice_def)
    finally show ?thesis using True l t tk by (auto simp: put_str_def Let_def alpn_join_def)
  next
    case False
    show ?thesis
    proof (cases "length ?s = 255")
      case small: False
      have "length dst = length ?s + Suc (length rest)" by (subst rest) simp
      then obtain x rest' where r: "rest = x # rest'" using small l c by (cases rest) auto
      define m where "m = (if length ?s + 1 + len \<ge> 256 then 256 - (length ?s + 1) - 1 else len)"
      let ?txt = "take m (drop off d)"
      have t: "length ?txt = m" "length ?s + 1 + m < 256" "off + m \<le> length d"
        using d small c by (auto simp: m_def)
      have "take (254 - length ?s) ?name = ?txt"
        using small c by (cases "len = 254 - length ?s") (auto simp: m_def min_def)
      then have tk: "take 255 (?s @ 44 # ?name) = ?s @ 44 # ?txt"
        using small c by (simp add: take_Cons')
      have "wr (?s @ 0 # rest) (length ?s) 44 = Some (?s @ 44 # rest)" by (simp add: wr_def)
      then have w1: "wr dst (length ?s) 44 = Some (?s @ 44 # rest)" by (simp only: rest [symmetric])
      have w2: "wr (?s @ 44 # rest) (length ?s + 1) 0 = Some (?s @ 44 # 0 # rest')"
        by (simp add: wr_def r list_update_append)
      have "length dst = length ?s + Suc (Suc (length rest'))" by (subst rest, simp add: r)
      then have lr: "length rest' = 254 - length ?s" "length ?s \<le> 254" using l by simp_all
      have "append_alpn dst d off len = do { t \<leftarrow> wr dst (length ?s) 44; dst1 \<leftarrow> wr t (length ?s + 1) 0;
          txt \<leftarrow> rd_slice d off m; dst2 \<leftarrow> blit dst1 (length ?s + 1) txt;
          dst3 \<leftarrow> wr dst2 (length ?s + 1 + m) 0; Some (Some dst3) }"
        using False small l lr(2) by (simp add: append_alpn_def Let_def m_def)
      also have "\<dots> = Some (Some (?s @ 44 # ?txt @ 0 # drop (Suc m) (0 # rest')))"
      proof -
        have "length ?txt < length (0 # rest')" using t(1,2) lr by simp
        from put_after [OF this, of "?s @ [44]"] show ?thesis
          using t w1 w2 by (auto simp: rd_slice_def)
      qed
      finally have eq: "append_alpn dst d off len = Some (Some (?s @ 44 # ?txt @ 0 # drop m rest'))" by simp
      have "put_str dst (?s @ 44 # ?name) = (?s @ 44 # ?txt) @ 0 # drop (Suc (length (?s @ 44 # ?txt))) dst"
        using l tk by (auto simp: put_str_def Let_def)
      also have "drop (Suc (length (?s @ 44 # ?txt))) dst = drop m rest'"
      proof -
        have d2: "dst = (?s @ [0, x]) @ rest'" using rest r by simp
        have k: "Suc (length (?s @ 44 # ?txt)) = length (?s @ [0, x]) + m" using t(1) by simp
        show ?thesis unfolding k by (rule trans [OF arg_cong [OF d2]]) simp
      qed
      finally show ?thesis unfolding eq using False small by (simp add: alpn_join_def)
    qed (use False l in \<open>simp add: append_alpn_def\<close>)
  qed
qed

text \<open>Each vector keeps the texts terminated and the protocol unchanged, and reads inside the vector.\<close>

definition tls_ok :: "app_info \<Rightarrow> app_info option option \<Rightarrow> bool" where
  "tls_ok a out \<longleftrightarrow> (\<exists>r. out = Some r \<and>
     (\<forall>b. r = Some b \<longrightarrow> app_info_ok b \<and> app_protocol b = app_protocol a))"

lemma tls_ok_simps [simp]: "tls_ok a (Some None)" "tls_ok a (Some (Some b)) \<longleftrightarrow> app_info_ok b \<and> app_protocol b = app_protocol a"
  by (simp_all add: tls_ok_def)

lemma tls_ok_trans: "tls_ok b out \<Longrightarrow> app_protocol b = app_protocol a \<Longrightarrow> tls_ok a out"
  by (simp add: tls_ok_def)

lemma app_info_ok_tls:
  "app_info_ok a \<Longrightarrow> terminated 256 s \<Longrightarrow> app_info_ok (a\<lparr>tls_sni := s\<rparr>)"
  "app_info_ok a \<Longrightarrow> terminated 256 s \<Longrightarrow> app_info_ok (a\<lparr>tls_alpn := s\<rparr>)"
  "app_info_ok a \<Longrightarrow> app_info_ok (a\<lparr>tls_client_version := w\<rparr>)"
  "app_info_ok a \<Longrightarrow> terminated 256 (tls_sni a) \<and> terminated 256 (tls_alpn a)"
  by (auto simp: app_info_ok_def)

lemma need_tls_ok:
  "m = Some (v, r) \<Longrightarrow> tls_ok a fail \<Longrightarrow> (\<And>x. v = Some x \<Longrightarrow> tls_ok a (k x r)) \<Longrightarrow> tls_ok a (need m fail k)"
  by (cases v) simp_all

text \<open>One round of each loop, with its memory accesses discharged.\<close>

definition sni_apply :: "app_info \<Rightarrow> u8 \<times> bytes \<Rightarrow> app_info" where
  "sni_apply a e = (if fst e = 0 \<and> tls_sni a ! 0 = 0 then a\<lparr>tls_sni := put_str (tls_sni a) (snd e)\<rparr> else a)"

lemma sni_apply_ok: "app_info_ok a \<Longrightarrow> app_info_ok (sni_apply a e) \<and> app_protocol (sni_apply a e) = app_protocol a"
  using app_info_ok_tls(4) [of a] by (auto simp: sni_apply_def intro!: app_info_ok_tls)

lemma sni_loop_round:
  assumes n: "n \<le> length d" and ok: "app_info_ok a"
  shows "sni_loop d n off a =
    (if \<not> off < n then Some (if off = n then Some a else None)
     else if \<not> remaining n off 3 then Some None
     else let l = unat (be16 (d ! (off + 1)) (d ! (off + 2))) in
       if l = 0 \<or> l > n - (off + 3) then Some None
       else sni_loop d n (off + 3 + l) (sni_apply a (d ! off, take l (drop (off + 3) d))))"
proof -
  have sni: "length (tls_sni a) = 256" "tls_sni a \<noteq> []"
    using app_info_ok_tls(4) [OF ok] by (auto simp: terminated_def)
  define w where "w = be16 (d ! (off + 1)) (d ! (off + 2))"
  show ?thesis
  proof (cases "off < n \<and> remaining n off 3")
    case True
    then have r: "read_u8_at d n off = Some (Some (d ! off), off + 1)"
      "read_u16_at d n (Suc off) = Some (Some w, off + 3)" "rd (tls_sni a) 0 = Some (tls_sni a ! 0)"
      using n sni by (auto simp: read_at_in remaining_def w_def rd_def)
    have c: "copy_text (tls_sni a) d (off + 3) (unat w) = Some (put_str (tls_sni a) (take (unat w) (drop (off + 3) d)))"
      if "\<not> unat w > n - (off + 3)"
      using sni(2) that n True by (intro copy_text_put) (auto simp: remaining_def)
    show ?thesis
      unfolding w_def [symmetric] using True c by (subst sni_loop.simps) (simp add: r Let_def sni_apply_def unat_eq_0)
  next
    case False
    then show ?thesis
      using n by (subst sni_loop.simps) (auto simp: read_at_in remaining_def)
  qed
qed

lemma sni_loop_ok: "n \<le> length d \<Longrightarrow> app_info_ok a \<Longrightarrow> tls_ok a (sni_loop d n off a)"
proof (induction "n - off" arbitrary: off a rule: less_induct)
  case less
  then show ?case
    by (subst sni_loop_round [OF less.prems])
      (auto simp: Let_def sni_apply_ok intro!: tls_ok_trans [OF less.hyps])
qed


definition alpn_apply :: "app_info \<Rightarrow> bytes \<Rightarrow> app_info option" where
  "alpn_apply a name = (if length (cstr (tls_alpn a)) = 255 then None
     else Some (a\<lparr>tls_alpn := put_str (tls_alpn a) (alpn_join (cstr (tls_alpn a)) name)\<rparr>))"

lemma alpn_apply_ok: "app_info_ok a \<Longrightarrow> alpn_apply a e = Some b \<Longrightarrow> app_info_ok b \<and> app_protocol b = app_protocol a"
  using app_info_ok_tls(4) [of a] by (auto simp: alpn_apply_def intro!: app_info_ok_tls split: if_splits)

lemma alpn_loop_round:
  assumes n: "n \<le> length d" and ok: "app_info_ok a"
  shows "alpn_loop d n off a =
    (if \<not> off < n then Some (if off = n then Some a else None)
     else let l = unat (d ! off) in
       if l = 0 \<or> l > n - (off + 1) then Some None
       else case alpn_apply a (take l (drop (off + 1) d)) of None \<Rightarrow> Some None
         | Some b \<Rightarrow> alpn_loop d n (off + 1 + l) b)"
proof -
  have alpn: "terminated 256 (tls_alpn a)" using app_info_ok_tls(4) [OF ok] by simp
  define w where "w = d ! off"
  show ?thesis
  proof (cases "off < n")
    case True
    then have r: "read_u8_at d n off = Some (Some w, Suc off)"
      using n by (auto simp: read_at_in remaining_def w_def)
    have c: "append_alpn (tls_alpn a) d (Suc off) (unat w) = Some (if length (cstr (tls_alpn a)) = 255 then None
        else Some (put_str (tls_alpn a) (alpn_join (cstr (tls_alpn a)) (take (unat w) (drop (Suc off) d)))))"
      if "\<not> unat w > n - Suc off"
      using that n True by (intro append_alpn_exact alpn) auto
    show ?thesis
      unfolding w_def [symmetric] using True c by (subst alpn_loop.simps) (simp add: r Let_def alpn_apply_def unat_eq_0)
  qed (use n in \<open>subst alpn_loop.simps, simp\<close>)
qed

lemma alpn_loop_ok: "n \<le> length d \<Longrightarrow> app_info_ok a \<Longrightarrow> tls_ok a (alpn_loop d n off a)"
proof (induction "n - off" arbitrary: off a rule: less_induct)
  case less
  have ok: "app_info_ok b \<and> app_protocol b = app_protocol a" if "alpn_apply a e = Some b" for e b
    using alpn_apply_ok that less.prems by blast
  show ?case
    using less.prems ok
    by (subst alpn_loop_round [OF less.prems])
      (auto simp: Let_def split: option.splits intro!: tls_ok_trans [OF less.hyps])
qed

lemma parse_sni_extension_ok:
  "n \<le> length d \<Longrightarrow> app_info_ok a \<Longrightarrow> tls_ok a (parse_sni_extension d n a)"
  by (auto simp: parse_sni_extension_def read_at_in remaining_def intro!: sni_loop_ok)

lemma parse_alpn_extension_ok:
  "n \<le> length d \<Longrightarrow> app_info_ok a \<Longrightarrow> tls_ok a (parse_alpn_extension d n a)"
  by (auto simp: parse_alpn_extension_def read_at_in remaining_def intro!: alpn_loop_ok)

text \<open>One extension.\<close>

definition extension :: "u16 \<Rightarrow> bytes \<Rightarrow> nat \<Rightarrow> app_info \<Rightarrow> app_info option option" where
  "extension ext_type d n a =
     (if ext_type = 0x0000 then parse_sni_extension d n a
      else if ext_type = 0x0010 then parse_alpn_extension d n a
      else Some (Some a))"

lemma extension_ok: "n \<le> length d \<Longrightarrow> app_info_ok a \<Longrightarrow> tls_ok a (extension t d n a)"
  by (simp add: extension_def parse_sni_extension_ok parse_alpn_extension_ok)

lemma extensions_loop_round:
  assumes n: "n \<le> length d"
  shows "extensions_loop d n off a =
    (if \<not> off < n then Some (if off = n then Some a else None)
     else if \<not> remaining n off 4 then Some None
     else let l = unat (be16 (d ! (off + 2)) (d ! (off + 3))) in
       if l > n - (off + 4) then Some None
       else do {
         r \<leftarrow> extension (be16 (d ! off) (d ! (off + 1))) (drop (off + 4) d) l a;
         case r of None \<Rightarrow> Some None | Some b \<Rightarrow> extensions_loop d n (off + 4 + l) b
       })"
proof -
  define t where "t = be16 (d ! off) (d ! (off + 1))"
  define w where "w = be16 (d ! (off + 2)) (d ! (off + 3))"
  show ?thesis
  proof (cases "off < n \<and> remaining n off 4")
    case True
    then have r: "read_u16_at d n off = Some (Some t, off + 2)"
      "read_u16_at d n (off + 2) = Some (Some w, off + 4)"
      using n by (auto simp: read_at_in remaining_def w_def t_def eval_nat_numeral)
    show ?thesis
      unfolding w_def [symmetric] t_def [symmetric] using True by (subst extensions_loop.simps) (simp add: r Let_def extension_def del: add_2_eq_Suc add_2_eq_Suc')
  qed (use n in \<open>subst extensions_loop.simps, auto simp: read_at_in remaining_def\<close>)
qed

lemma extensions_loop_ok: "n \<le> length d \<Longrightarrow> app_info_ok a \<Longrightarrow> tls_ok a (extensions_loop d n off a)"
proof (induction "n - off" arbitrary: off a rule: less_induct)
  case less
  let ?l = "unat (be16 (d ! (off + 2)) (d ! (off + 3)))"
  show ?case
  proof (cases "off < n \<and> remaining n off 4 \<and> \<not> ?l > n - (off + 4)")
    case True
    then have "tls_ok a (extension (be16 (d ! off) (d ! (off + 1))) (drop (off + 4) d) ?l a)"
      using less.prems by (intro extension_ok) (auto simp: remaining_def)
    then obtain r where r: "extension (be16 (d ! off) (d ! (off + 1))) (drop (off + 4) d) ?l a = Some r"
      "\<And>b. r = Some b \<Longrightarrow> app_info_ok b \<and> app_protocol b = app_protocol a"
      by (auto simp: tls_ok_def)
    have eq: "extensions_loop d n off a =
        (case r of None \<Rightarrow> Some None | Some b \<Rightarrow> extensions_loop d n (off + 4 + ?l) b)"
      using True by (subst extensions_loop_round [OF less.prems(1)]) (simp only: Let_def r(1), simp del: add_2_eq_Suc add_2_eq_Suc')
    have "tls_ok a (extensions_loop d n (off + 4 + ?l) b)" if "r = Some b" for b
      using r(2) [OF that] True less.prems(1) by (intro tls_ok_trans [OF less.hyps]) auto
    then show ?thesis unfolding eq by (cases r) simp_all
  qed (use less.prems in \<open>subst extensions_loop_round, auto simp: Let_def\<close>)
qed

lemma parse_extensions_ok: "n \<le> length d \<Longrightarrow> app_info_ok a \<Longrightarrow> tls_ok a (parse_extensions d n off a)"
  by (auto simp: parse_extensions_def read_at_in remaining_def intro!: extensions_loop_ok)

lemma need_decoded:
  "m = Some (if b then (Some x, r) else (None, r')) \<Longrightarrow> decoded_as p fail \<Longrightarrow> (b \<Longrightarrow> decoded_as p (k x r)) \<Longrightarrow>
    decoded_as p (need m fail k)"
  by simp

lemma parse_client_hello_body_ok:
  assumes n: "n \<le> length d" and a: "app_info_ok a" "app_protocol a = proto"
  shows "decoded_as proto (parse_client_hello_body d n a)"
proof -
  have ext: "decoded_as proto (do {
      r \<leftarrow> parse_extensions d n off (a\<lparr>tls_client_version := v\<rparr>);
      case r of None \<Rightarrow> Some (DECODE_MALFORMED, app_info_zero)
      | Some a \<Rightarrow> Some (DECODE_OK, a\<lparr>summary := put_str (summary a) (tls_summary a)\<rparr>) })" for off v
  proof -
    from parse_extensions_ok [OF n app_info_ok_tls(3) [OF a(1)], of v off]
    obtain r where "parse_extensions d n off (a\<lparr>tls_client_version := v\<rparr>) = Some r"
      "\<And>b. r = Some b \<Longrightarrow> app_info_ok b \<and> app_protocol b = proto" using a(2) by (auto simp: tls_ok_def)
    then show ?thesis by (cases r) (auto intro: app_info_ok_update)
  qed
  show ?thesis
    unfolding parse_client_hello_body_def
    by (simp add: Let_def read_at_in [OF n] ext)
qed

lemma tls_decode_safe:
  assumes n: "n \<le> length d"
  shows "decoded_as APP_PROTO_TLS (app_tls_decode_client_hello (Some d) n)"
proof -
  have z: "app_info_ok (app_info_zero\<lparr>tls_record_version := v\<rparr>)" for v
    using app_info_zero_ok by (simp add: app_info_ok_def)
  have z2: "app_info_ok (app_info_zero\<lparr>tls_record_version := v, app_protocol := APP_PROTO_TLS, tls_handshake_type := t\<rparr>)" for v t
    using app_info_zero_ok by (simp add: app_info_ok_def)
  show ?thesis
    unfolding app_tls_decode_client_hello_def
    using n by (auto simp: br_init_at br_at_in read_at_in remaining_def rd_def Let_def z
        intro!: parse_client_hello_body_ok z2)
qed

interpretation tls: app_decoder app_tls_decode_client_hello APP_PROTO_TLS
  by unfold_locales (simp_all add: tls_decode_safe, simp add: app_tls_decode_client_hello_def)



section \<open>What a ClientHello says\<close>

declare add_2_eq_Suc [simp del] add_2_eq_Suc' [simp del]

text \<open>Length-prefixed vectors, the extensions and the hello, and their encoding.\<close>

datatype tls_ext = Ext_sni "(u8 \<times> bytes) list" | Ext_alpn "bytes list" | Ext_other u16 bytes

definition enc_sni :: "(u8 \<times> bytes) list \<Rightarrow> bytes" where
  "enc_sni es = concat (map (\<lambda>e. fst e # vec16 (snd e)) es)"

fun ext_type :: "tls_ext \<Rightarrow> u16" where
  "ext_type (Ext_sni es) = 0"
| "ext_type (Ext_alpn ns) = 0x10"
| "ext_type (Ext_other t b) = t"

fun ext_body :: "tls_ext \<Rightarrow> bytes" where
  "ext_body (Ext_sni es) = vec16 (enc_sni es)"
| "ext_body (Ext_alpn ns) = vec16 (concat (map vec8 ns))"
| "ext_body (Ext_other t b) = b"

fun ext_wf :: "tls_ext \<Rightarrow> bool" where
  "ext_wf (Ext_sni es) \<longleftrightarrow> (\<forall>e \<in> set es. snd e \<noteq> [])"
| "ext_wf (Ext_alpn ns) \<longleftrightarrow> (\<forall>x \<in> set ns. x \<noteq> [] \<and> length x < 256)"
| "ext_wf (Ext_other t b) \<longleftrightarrow> t \<noteq> 0 \<and> t \<noteq> 0x10"

definition enc_ext :: "tls_ext \<Rightarrow> bytes" where
  "enc_ext e = put16 (ext_type e) @ vec16 (ext_body e)"

definition enc_exts :: "tls_ext list \<Rightarrow> bytes" where
  "enc_exts es = concat (map enc_ext es)"

fun alpn_applies :: "app_info \<Rightarrow> bytes list \<Rightarrow> app_info option" where
  "alpn_applies a [] = Some a"
| "alpn_applies a (x # xs) = do { b \<leftarrow> alpn_apply a x; alpn_applies b xs }"

fun ext_apply :: "app_info \<Rightarrow> tls_ext \<Rightarrow> app_info option" where
  "ext_apply a (Ext_sni es) = Some (foldl sni_apply a es)"
| "ext_apply a (Ext_alpn ns) = alpn_applies a ns"
| "ext_apply a (Ext_other t b) = Some a"

fun ext_applies :: "app_info \<Rightarrow> tls_ext list \<Rightarrow> app_info option" where
  "ext_applies a [] = Some a"
| "ext_applies a (e # es) = do { b \<leftarrow> ext_apply a e; ext_applies b es }"

record client_hello =
  ch_version :: u16
  ch_random :: bytes
  ch_session :: bytes
  ch_ciphers :: bytes
  ch_compressions :: bytes
  ch_extensions :: "tls_ext list"

definition enc_hello :: "client_hello \<Rightarrow> bytes" where
  "enc_hello h = put16 (ch_version h) @ ch_random h @ vec8 (ch_session h) @ vec16 (ch_ciphers h) @
     vec8 (ch_compressions h) @ vec16 (enc_exts (ch_extensions h))"

definition hello_wf :: "client_hello \<Rightarrow> bool" where
  "hello_wf h \<longleftrightarrow> length (ch_random h) = 32 \<and> length (ch_session h) < 256 \<and>
     ch_ciphers h \<noteq> [] \<and> even (length (ch_ciphers h)) \<and>
     ch_compressions h \<noteq> [] \<and> length (ch_compressions h) < 256 \<and>
     list_all ext_wf (ch_extensions h) \<and> length (enc_hello h) + 4 < 65536"

definition enc_record :: "u16 \<Rightarrow> client_hello \<Rightarrow> bytes" where
  "enc_record version h = 0x16 # put16 version @
     vec16 (0x01 # 0 # put16 (of_nat (length (enc_hello h))) @ enc_hello h)"

lemma sni_loop_exact:
  "unread d n off (enc_sni es) \<Longrightarrow> \<forall>e \<in> set es. snd e \<noteq> [] \<Longrightarrow> length (enc_sni es) < 65536 \<Longrightarrow>
   app_info_ok a \<Longrightarrow> sni_loop d n off a = Some (Some (foldl sni_apply a es))"
proof (induction es arbitrary: off a)
  case Nil
  then show ?case using unread_length [OF Nil(1)] by (subst sni_loop.simps) (auto simp: enc_sni_def unread_def)
next
  case (Cons e es)
  let ?w = "of_nat (length (snd e)) :: u16"
  have len: "length (snd e) < 65536" "length (enc_sni es) < 65536" using Cons.prems(3) by (auto simp: enc_sni_def)
  have u: "unread d n off ((fst e # put16 ?w) @ snd e @ enc_sni es)"
    using Cons.prems(1) by (simp add: enc_sni_def vec16_def)
  note u3 = unread_append(1) [OF u]
  have d: "d ! off = fst e" "d ! (off + 1) = hi8 ?w" "d ! (off + 2) = lo8 ?w"
    using unread_nth [OF u, of 0] unread_nth [OF u, of 1] unread_nth [OF u, of 2] by (simp_all add: put16_def)
  have n: "n \<le> length d" "off < n" "remaining n off 3" "length (snd e) \<le> n - (off + 3)"
    using unread_length [OF u] u len by (auto simp: unread_def remaining_def)
  have t: "take (length (snd e)) (drop (off + 3) d) = snd e" "unread d n (off + 3 + length (snd e)) (enc_sni es)"
    using unread_append(1,2) [of d n "off + 3" "snd e" "enc_sni es"] u3 by simp_all
  have "sni_loop d n off a = sni_loop d n (off + 3 + length (snd e)) (sni_apply a e)"
    using n Cons.prems(2) t(1) d
    by (subst sni_loop_round [OF n(1) Cons.prems(4)]) (simp add: unat_of_nat_u16 [OF len(1)])
  then show ?case
    using Cons.IH [OF t(2) _ len(2), of "sni_apply a e"] Cons.prems sni_apply_ok by simp
qed

lemma alpn_loop_exact:
  "unread d n off (concat (map vec8 ns)) \<Longrightarrow> \<forall>x \<in> set ns. x \<noteq> [] \<and> length x < 256 \<Longrightarrow>
   app_info_ok a \<Longrightarrow> alpn_loop d n off a = Some (alpn_applies a ns)"
proof (induction ns arbitrary: off a)
  case Nil
  then show ?case using unread_length [OF Nil(1)] by (subst alpn_loop.simps) (auto simp: unread_def)
next
  case (Cons x ns)
  have u: "unread d n off ([of_nat (length x)] @ x @ concat (map vec8 ns))"
    using Cons.prems(1) by (simp add: vec8_def [of x])
  note u1 = unread_append(1) [OF u]
  have n: "n \<le> length d" "off < n" "length x \<le> n - (off + 1)" "d ! off = of_nat (length x)"
    using unread_length [OF u] u unread_nth [OF u, of 0] by (auto simp: unread_def)
  have t: "take (length x) (drop (off + 1) d) = x" "unread d n (off + 1 + length x) (concat (map vec8 ns))"
    using unread_append(1,2) [of d n "off + 1" x "concat (map vec8 ns)"] u1 by simp_all
  have eq: "alpn_loop d n off a = (case alpn_apply a x of None \<Rightarrow> Some None
      | Some b \<Rightarrow> alpn_loop d n (off + 1 + length x) b)"
    using n Cons.prems(2) t(1)
    by (subst alpn_loop_round [OF n(1) Cons.prems(3)]) (simp add: unat_of_nat_u8)
  show ?case
    unfolding eq using Cons.IH [OF t(2)] Cons.prems alpn_apply_ok
    by (cases "alpn_apply a x") auto
qed


lemma extension_exact:
  assumes u: "unread d n 0 (ext_body e)" and e: "ext_wf e" "length (ext_body e) < 65536" and a: "app_info_ok a"
  shows "extension (ext_type e) d n a = Some (ext_apply a e)"
proof (cases e)
  case (Ext_sni es)
  have l: "length (enc_sni es) < 65536" using e(2) Ext_sni by simp
  have "unread d n 0 (vec16 (enc_sni es) @ [])" using u Ext_sni by simp
  note v = unread_vec16 [OF this l]
  have "n - 2 = length (enc_sni es)" "unread d (2 + length (enc_sni es)) 2 (enc_sni es)"
    using unread_length [OF v(2)] v(2) unread_append(4) [of d n 2 "enc_sni es" "[]"] by simp_all
  then show ?thesis
    using v(1) Ext_sni e(1) l a
    by (auto simp: extension_def parse_sni_extension_def sni_loop_exact)
next
  case (Ext_alpn ns)
  have l: "length (concat (map vec8 ns)) < 65536" using e(2) Ext_alpn by simp
  have "unread d n 0 (vec16 (concat (map vec8 ns)) @ [])" using u Ext_alpn by simp
  note v = unread_vec16 [OF this l]
  have "n - 2 = length (concat (map vec8 ns))"
    "unread d (2 + length (concat (map vec8 ns))) 2 (concat (map vec8 ns))"
    using unread_length [OF v(2)] v(2) unread_append(4) [of d n 2 "concat (map vec8 ns)" "[]"] by simp_all
  then show ?thesis
    using v(1) Ext_alpn e(1) a
    by (auto simp: extension_def parse_alpn_extension_def alpn_loop_exact simp del: length_concat)
qed (use e in \<open>simp add: extension_def\<close>)

lemma ext_apply_ok: "app_info_ok a \<Longrightarrow> ext_apply a e = Some b \<Longrightarrow> app_info_ok b"
proof (induction a e rule: ext_apply.induct)
  case (1 a es)
  have "app_info_ok a \<Longrightarrow> app_info_ok (foldl sni_apply a es)"
    by (induction es arbitrary: a) (auto simp: sni_apply_ok)
  with 1 show ?case by simp
next
  case (2 a ns)
  have "app_info_ok a \<Longrightarrow> alpn_applies a ns = Some b \<Longrightarrow> app_info_ok b"
  proof (induction ns arbitrary: a)
    case (Cons x xs)
    obtain c where c: "alpn_apply a x = Some c" "alpn_applies c xs = Some b"
      using Cons.prems(2) by (auto split: bind_splits)
    then have "app_info_ok c" using alpn_apply_ok Cons.prems(1) by blast
    then show ?case using c(2) by (rule Cons.IH)
  qed simp
  with 2 show ?case by simp
qed simp

lemma extensions_loop_exact:
  "unread d n off (enc_exts es) \<Longrightarrow> list_all ext_wf es \<Longrightarrow> length (enc_exts es) < 65536 \<Longrightarrow>
   app_info_ok a \<Longrightarrow> extensions_loop d n off a = Some (ext_applies a es)"
proof (induction es arbitrary: off a)
  case Nil
  then show ?case using unread_length [OF Nil(1)]
    by (subst extensions_loop.simps) (auto simp: unread_def enc_exts_def)
next
  case (Cons e es)
  let ?b = "ext_body e"
  have len: "length ?b < 65536" "length (enc_exts es) < 65536" using Cons.prems(3) by (auto simp: enc_exts_def enc_ext_def)
  have u: "unread d n off (put16 (ext_type e) @ vec16 ?b @ enc_exts es)"
    using Cons.prems(1) by (simp add: enc_exts_def enc_ext_def)
  note u1 = unread_put16 [OF u]
  obtain w where w: "read_u16_at d n (off + 2) = Some (Some w, off + 4)" "unat w = length ?b"
    and u2: "unread d n (off + 4) (?b @ enc_exts es)"
    using unread_vec16 [OF u1(2) len(1)] by (auto simp: add_ac)
  have n: "off < n" "length ?b \<le> n - (off + 4)" using unread_length [OF u] unread_length [OF u2] by simp_all
  have b: "unread (drop (off + 4) d) (length ?b) 0 ?b"
    using unread_drop [OF unread_append(4) [OF u2]] by simp
  have ext: "extension (ext_type e) (drop (off + 4) d) (length ?b) a = Some (ext_apply a e)"
    using extension_exact [OF b] Cons.prems(2,4) len(1) by simp
  have "extensions_loop d n off a = (case ext_apply a e of None \<Rightarrow> Some None
      | Some b \<Rightarrow> extensions_loop d n (off + 4 + length ?b) b)"
    using n ext
    by (subst extensions_loop.simps) (cases "ext_type e = 0"; cases "ext_type e = 0x10"; simp add: u1(1) w extension_def)
  then show ?case
    using Cons.IH [OF unread_append(1) [OF u2] _ len(2)] Cons.prems(2,4) ext_apply_ok
    by (cases "ext_apply a e") auto
qed

lemma parse_client_hello_body_exact:
  assumes h: "hello_wf h" and u: "unread d n 0 (enc_hello h)" and a: "app_info_ok a"
  shows "parse_client_hello_body d n a =
    Some (case ext_applies (a\<lparr>tls_client_version := ch_version h\<rparr>) (ch_extensions h) of
      None \<Rightarrow> (DECODE_MALFORMED, app_info_zero)
    | Some b \<Rightarrow> (DECODE_OK, b\<lparr>summary := put_str (summary b) (tls_summary b)\<rparr>))"
proof -
  let ?s = "ch_session h" and ?c = "ch_ciphers h" and ?m = "ch_compressions h" and ?e = "enc_exts (ch_extensions h)"
  have len: "length (ch_random h) = 32" "length ?s < 256" "length ?c < 65536" "length ?m < 256" "length ?e < 65536"
    using h by (auto simp: hello_wf_def enc_hello_def)
  note u1 = unread_put16 [OF u [unfolded enc_hello_def], simplified]
  have u2: "unread d n 34 (vec8 ?s @ vec16 ?c @ vec8 ?m @ vec16 ?e)"
    using unread_append(1) [OF u1(2)] len(1) by simp
  obtain sl where sl: "read_u8_at d n 34 = Some (Some sl, 35)" "unat sl = length ?s"
    and u3: "unread d n 35 (?s @ vec16 ?c @ vec8 ?m @ vec16 ?e)"
    using unread_vec8 [OF u2 len(2)] by auto
  define o1 where "o1 = 35 + length ?s"
  note u4 = unread_append(1) [OF u3, folded o1_def]
  obtain cl where cl: "read_u16_at d n o1 = Some (Some cl, o1 + 2)" "unat cl = length ?c"
    and u5: "unread d n (o1 + 2) (?c @ vec8 ?m @ vec16 ?e)"
    using unread_vec16 [OF u4 len(3)] by auto
  define o2 where "o2 = o1 + 2 + length ?c"
  note u6 = unread_append(1) [OF u5, folded o2_def]
  obtain ml where ml: "read_u8_at d n o2 = Some (Some ml, o2 + 1)" "unat ml = length ?m"
    and u7: "unread d n (o2 + 1) (?m @ vec16 ?e)"
    using unread_vec8 [OF u6 len(4)] by auto
  define o3 where "o3 = o2 + 1 + length ?m"
  note u8 = unread_append(1) [OF u7, folded o3_def]
  obtain el where el: "read_u16_at d n o3 = Some (Some el, o3 + 2)" "unat el = length ?e"
    and u9: "unread d n (o3 + 2) ?e"
    using unread_vec16 [of d n o3 ?e "[]"] u8 len(5) by auto
  have n: "n = o3 + 2 + length ?e" using unread_length [OF u8] by simp
  have o3': "Suc (o2 + length ?m) = o3" by (simp add: o3_def)
  have "remaining n 2 32" "remaining n 35 (length ?s)" "remaining n (o1 + 2) (length ?c)" "remaining n (o2 + 1) (length ?m)"
    using n len(1) by (simp_all add: remaining_def o1_def o2_def o3_def)
  moreover have "cl \<noteq> 0" "ml \<noteq> 0" "cl mod 2 = 0"
  proof -
    show "cl \<noteq> 0" "ml \<noteq> 0" using h cl(2) ml(2) by (auto simp: hello_wf_def)
    have "unat (cl mod 2) = 0" using h cl(2) by (simp add: unat_mod hello_wf_def)
    then show "cl mod 2 = 0" by (simp add: unat_eq_0)
  qed
  moreover have "parse_extensions d n o3 b = Some (ext_applies b (ch_extensions h))" if "app_info_ok b" for b
    using el n extensions_loop_exact [OF u9] h len(5) that by (simp add: parse_extensions_def hello_wf_def)
  ultimately show ?thesis
    using u1(1) sl cl ml app_info_ok_tls(3) [OF a, of "ch_version h"]
    by (simp add: parse_client_hello_body_def Let_def o1_def [symmetric] o2_def [symmetric] o3'
        split: option.split)
qed


lemma put24_value:
  fixes w :: u16
  shows "push_bit 16 (unat (0 :: u8)) OR push_bit 8 (unat (hi8 w)) OR unat (lo8 w) = unat w"
proof -
  have "unat w = unat (be16 (hi8 w) (lo8 w))" by simp
  also have "\<dots> = push_bit 8 (unat (hi8 w)) OR unat (lo8 w)"
    by (rule bit_eqI) (auto simp: be16_def bit_simps dest: bit_imp_le_length)
  finally show ?thesis by simp
qed

lemma decode_hello:
  assumes h: "hello_wf h" and v: "drop_bit 8 version = 3" and d: "d = enc_record version h @ rest"
  shows "app_tls_decode_client_hello (Some d) (length d) =
    Some (case ext_applies (app_info_zero\<lparr>tls_record_version := version, app_protocol := APP_PROTO_TLS,
        tls_handshake_type := 1, tls_client_version := ch_version h\<rparr>) (ch_extensions h) of
      None \<Rightarrow> (DECODE_MALFORMED, app_info_zero)
    | Some b \<Rightarrow> (DECODE_OK, b\<lparr>summary := put_str (summary b) (tls_summary b)\<rparr>))"
proof -
  let ?b = "enc_hello h" and ?hl = "of_nat (length (enc_hello h)) :: u16"
  define rl where "rl = (of_nat (length ?b + 4) :: u16)"
  have len: "length ?b + 4 < 65536" using h by (simp add: hello_wf_def)
  have d': "d = [0x16, hi8 version, lo8 version, hi8 rl, lo8 rl, 1, 0, hi8 ?hl, lo8 ?hl] @ ?b @ rest"
    by (simp add: d enc_record_def vec16_def put16_def rl_def add.commute)
  have ld: "length d = length ?b + length rest + 9" by (simp add: d')
  have n: "d ! 0 = 0x16" "d ! 1 = hi8 version" "d ! 2 = lo8 version" "d ! 3 = hi8 rl" "d ! 4 = lo8 rl"
    "d ! 5 = 1" "d ! 6 = 0" "d ! Suc (Suc 0) = lo8 version" "d ! 7 = hi8 ?hl" "d ! 8 = lo8 ?hl"
    by (simp_all add: d')
  have "unread (drop 9 d) (length ?b) 0 ?b" by (simp add: d' unread_def)
  note body = parse_client_hello_body_exact [OF h this]
  have l: "unat rl = length ?b + 4" "unat ?hl = length ?b" using len unat_of_nat_u16 by (simp_all add: rl_def del: of_nat_add)
  have ok: "app_info_ok (app_info_zero\<lparr>tls_record_version := version, app_protocol := APP_PROTO_TLS, tls_handshake_type := 1\<rparr>)"
    using app_info_zero_ok by (simp add: app_info_ok_def)
  show ?thesis
    using v n l body [OF ok] put24_value [of ?hl]
    by (simp add: app_tls_decode_client_hello_def br_init_at br_at_in read_at_in remaining_def ld Let_def)
qed


text \<open>The texts that the server name and the protocol list end up with.\<close>

lemma alpn_applies_text:
  assumes "app_info_ok a" "\<forall>x \<in> set ns. x \<noteq> [] \<and> 0 \<notin> set x"
    and "length (foldl alpn_join (cstr (tls_alpn a)) ns) \<le> 255"
  shows "\<exists>t. alpn_applies a ns = Some (a\<lparr>tls_alpn := t\<rparr>) \<and> terminated 256 t \<and>
    cstr t = foldl alpn_join (cstr (tls_alpn a)) ns"
  using assms
proof (induction ns arbitrary: a)
  case Nil
  then show ?case using app_info_ok_tls(4) by (intro exI [of _ "tls_alpn a"]) auto
next
  case (Cons x ns)
  have grow: "length s \<le> length (foldl alpn_join s xs)" for s xs
  proof (induction xs arbitrary: s)
    case (Cons y ys)
    have "length s \<le> length (alpn_join s y)" by (simp add: alpn_join_def)
    also have "\<dots> \<le> length (foldl alpn_join s (y # ys))" using Cons [of "alpn_join s y"] by simp
    finally show ?case .
  qed simp
  let ?s = "cstr (tls_alpn a)" and ?t = "put_str (tls_alpn a) (alpn_join (cstr (tls_alpn a)) x)"
  let ?b = "a\<lparr>tls_alpn := ?t\<rparr>"
  have t: "terminated 256 (tls_alpn a)" "length (tls_alpn a) = 256"
    using app_info_ok_tls(4) [OF Cons.prems(1)] by (auto simp: terminated_def)
  have j: "length (alpn_join ?s x) \<le> 255" using Cons.prems(3) grow [of "alpn_join ?s x" ns] by simp
  then have "length ?s \<noteq> 255" using Cons.prems(2) by (auto simp: alpn_join_def split: if_splits)
  moreover have c: "cstr ?t = alpn_join ?s x"
    using j t(2) Cons.prems(2) by (intro cstr_put_fits) (auto simp: alpn_join_def)
  ultimately have "alpn_apply a x = Some ?b" by (simp add: alpn_apply_def)
  moreover have "app_info_ok ?b" using Cons.prems(1) t(1) by (intro app_info_ok_tls) auto
  moreover have "\<exists>u. alpn_applies ?b ns = Some (?b\<lparr>tls_alpn := u\<rparr>) \<and> terminated 256 u \<and>
      cstr u = foldl alpn_join (cstr (tls_alpn ?b)) ns"
    using Cons.prems c \<open>app_info_ok ?b\<close> by (intro Cons.IH) auto
  ultimately show ?case using c by auto
qed

section \<open>Properties\<close>

text \<open>C21. Decoding recovers a ClientHello: for every well-formed hello (32 random bytes, a session id,
  a nonempty even cipher list, nonempty compressions, a record that fits 16-bit lengths), any other
  extensions around a server name extension with host name \<open>host\<close> (at most 255 bytes, no NUL) and
  an ALPN list whose comma-joined names fit the 255-byte field, and any bytes after the record, the
  decoder reports TLS with exactly that host name, that list, and the hello's versions.\<close>

theorem tls_hello_roundtrip:
  assumes "hello_wf h" "drop_bit 8 version = 3"
    and "ch_extensions h = pre @ Ext_sni [(0, host)] # mid @ Ext_alpn names # post"
    and "\<forall>e \<in> set (pre @ mid @ post). \<exists>t b. e = Ext_other t b"
    and "0 \<notin> set host" "length host \<le> 255" "\<forall>x \<in> set names. 0 \<notin> set x"
    and "length (foldl alpn_join [] names) \<le> 255"
  shows "\<exists>a. app_tls_decode_client_hello (Some (enc_record version h @ rest)) (length (enc_record version h @ rest)) =
      Some (DECODE_OK, a) \<and> app_protocol a = APP_PROTO_TLS \<and> tls_record_version a = version \<and>
      tls_handshake_type a = 1 \<and> tls_client_version a = ch_version h \<and>
      cstr (tls_sni a) = host \<and> cstr (tls_alpn a) = foldl alpn_join [] names"
proof -
  have app: "ext_applies a (xs @ ys) = do { b \<leftarrow> ext_applies a xs; ext_applies b ys }" for a xs ys
    by (induction xs arbitrary: a) auto
  have other: "ext_applies a xs = Some a" if "\<forall>e \<in> set xs. \<exists>t b. e = Ext_other t b" for a xs
    using that by (induction xs) auto
  define a0 where "a0 = app_info_zero\<lparr>tls_record_version := version, app_protocol := APP_PROTO_TLS,
        tls_handshake_type := 1, tls_client_version := ch_version h\<rparr>"
  define a1 where "a1 = sni_apply a0 (0, host)"
  have z: "tls_sni a0 = replicate 256 0" "tls_alpn a0 = replicate 256 0" "app_info_ok a0"
    using app_info_zero_ok by (simp_all add: a0_def app_info_zero_def app_info_ok_def)
  have a1: "a1 = a0\<lparr>tls_sni := put_str (replicate 256 0) host\<rparr>" using z(1) by (simp add: a1_def sni_apply_def)
  have names: "\<forall>x \<in> set names. x \<noteq> []" using assms(1,3) by (simp add: hello_wf_def)
  have "app_info_ok a1" using z(3) sni_apply_ok by (simp add: a1_def)
  moreover have "cstr (tls_alpn a1) = []" using z(2) by (simp add: a1 cstr_def)
  ultimately obtain t where t: "alpn_applies a1 names = Some (a1\<lparr>tls_alpn := t\<rparr>)" "cstr t = foldl alpn_join [] names"
    using alpn_applies_text [of a1 names] names assms(7,8) by auto
  have "ext_applies a0 (ch_extensions h) = Some (a1\<lparr>tls_alpn := t\<rparr>)"
    using assms(4) t(1) by (simp add: assms(3) app other a1_def)
  moreover have "cstr (put_str (replicate 256 0) host) = host" using assms(5,6) by (intro cstr_put_fits) auto
  ultimately show ?thesis
    using decode_hello [OF assms(1,2) refl, of rest, folded a0_def] t(2) by (simp add: a1 a0_def)
qed

definition ex_hello :: client_hello where
  "ex_hello = \<lparr>ch_version = 0x0303, ch_random = replicate 32 7, ch_session = [], ch_ciphers = [0x13, 0x01],
     ch_compressions = [0], ch_extensions = [Ext_other 0x2b [2, 3, 4], Ext_sni [(0, [97, 46, 98])], Ext_alpn [[104, 50], [104]]]\<rparr>"

lemma tls_hello_roundtrip_witness:
  "\<exists>a. app_tls_decode_client_hello (Some (enc_record 0x0301 ex_hello)) (length (enc_record 0x0301 ex_hello)) =
      Some (DECODE_OK, a) \<and> cstr (tls_sni a) = [97, 46, 98] \<and> cstr (tls_alpn a) = [104, 50, 44, 104]"
proof -
  have "hello_wf ex_hello"
    by (simp add: hello_wf_def ex_hello_def enc_hello_def enc_exts_def enc_ext_def enc_sni_def)
  moreover have "drop_bit 8 (0x0301 :: u16) = 3" by simp
  moreover have "ch_extensions ex_hello = [Ext_other 0x2b [2, 3, 4]] @ Ext_sni [(0, [97, 46, 98])] # [] @ Ext_alpn [[104, 50], [104]] # []"
    by (simp add: ex_hello_def)
  ultimately show ?thesis
    using tls_hello_roundtrip [of ex_hello "0x0301" "[Ext_other 0x2b [2, 3, 4]]" "[97, 46, 98]" "[]" "[[104, 50], [104]]" "[]" "[]"]
    by (auto simp: alpn_join_def)
qed

end
