(* ===== verification/App_Http.thy ===== *)
theory App_Http
  imports App_Contract
begin

text \<open>
  \<open>src/app_http.c\<close>: the header block of an HTTP/1.x message. A pointer into the data is its
  offset; a NULL result of a search is the inner \<open>None\<close>.
\<close>

section \<open>Searching and copying\<close>

definition starts_with :: "bytes \<Rightarrow> nat \<Rightarrow> bytes \<Rightarrow> bool option" where
  "starts_with d n prefix =
     (if n < length prefix then Some False
      else do { s \<leftarrow> rd_slice d 0 (length prefix); Some (s = prefix) })"

definition http_methods :: "bytes list" where
  "http_methods = [asc ''GET'', asc ''POST'', asc ''PUT'', asc ''DELETE'', asc ''HEAD'', asc ''OPTIONS'',
     asc ''PATCH'', asc ''TRACE'', asc ''CONNECT'']"

fun maybe_method_prefix :: "bytes \<Rightarrow> nat \<Rightarrow> bytes list \<Rightarrow> bool option" where
  "maybe_method_prefix d n [] = Some False"
| "maybe_method_prefix d n (m # ms) =
     do {
       full \<leftarrow> (if n \<ge> length m then do { s \<leftarrow> rd_slice d 0 (length m); Some (s = m) } else Some False);
       if full then Some True
       else do {
         part \<leftarrow> (if n > 0 \<and> n < length m then do { s \<leftarrow> rd_slice d 0 n; Some (s = take n m) } else Some False);
         if part then Some True else maybe_method_prefix d n ms
       }
     }"

definition maybe_http_request_prefix :: "bytes \<Rightarrow> nat \<Rightarrow> bool option" where
  "maybe_http_request_prefix d n = maybe_method_prefix d n http_methods"

definition looks_like_http :: "bytes \<Rightarrow> nat \<Rightarrow> bool option" where
  "looks_like_http d n =
     do { r \<leftarrow> starts_with d n (asc ''HTTP/''); if r then Some True else maybe_http_request_prefix d n }"

function find_crlf :: "bytes \<Rightarrow> nat \<Rightarrow> nat \<Rightarrow> nat option option" where
  "find_crlf d cursor e =
     (if \<not> cursor + 1 < e then Some None
      else do {
        b0 \<leftarrow> rd d cursor;
        b1 \<leftarrow> rd d (cursor + 1);
        if b0 = 13 \<and> b1 = 10 then Some (Some cursor) else find_crlf d (cursor + 1) e
      })"
  by pat_completeness auto
termination by (relation "measure (\<lambda>(_, cursor, e). e - cursor)") auto

declare find_crlf.simps [simp del]

function find_header_end_from :: "bytes \<Rightarrow> nat \<Rightarrow> nat \<Rightarrow> nat option option" where
  "find_header_end_from d n i =
     (if \<not> i + 3 < n then Some None
      else do {
        b0 \<leftarrow> rd d i; b1 \<leftarrow> rd d (i + 1); b2 \<leftarrow> rd d (i + 2); b3 \<leftarrow> rd d (i + 3);
        if b0 = 13 \<and> b1 = 10 \<and> b2 = 13 \<and> b3 = 10 then Some (Some (i + 4))
        else find_header_end_from d n (i + 1)
      })"
  by pat_completeness auto
termination by (relation "measure (\<lambda>(_, n, i). n - i)") auto

declare find_header_end_from.simps [simp del]

definition find_header_end :: "bytes \<Rightarrow> nat \<Rightarrow> nat option option" where
  "find_header_end d n = find_header_end_from d n 0"

text \<open>\<open>memchr\<close> over \<open>len\<close> bytes from \<open>off\<close>; the result is an offset.\<close>

fun index_of :: "u8 \<Rightarrow> bytes \<Rightarrow> nat option" where
  "index_of c [] = None"
| "index_of c (b # bs) = (if b = c then Some 0 else map_option Suc (index_of c bs))"

definition memchr :: "bytes \<Rightarrow> nat \<Rightarrow> u8 \<Rightarrow> nat \<Rightarrow> nat option option" where
  "memchr d off c len =
     do { s \<leftarrow> rd_slice d off len; Some (map_option (\<lambda>i. off + i) (index_of c s)) }"

fun trim_front :: "bytes \<Rightarrow> nat \<Rightarrow> nat \<Rightarrow> (nat \<times> nat) option" where
  "trim_front d start 0 = Some (start, 0)"
| "trim_front d start (Suc len) =
     do { b \<leftarrow> rd d start; if isspace b then trim_front d (start + 1) len else Some (start, Suc len) }"

fun trim_back :: "bytes \<Rightarrow> nat \<Rightarrow> nat \<Rightarrow> nat option" where
  "trim_back d start 0 = Some 0"
| "trim_back d start (Suc len) =
     do { b \<leftarrow> rd d (start + len); if isspace b then trim_back d start len else Some (Suc len) }"

definition copy_trimmed :: "bytes \<Rightarrow> bytes \<Rightarrow> nat \<Rightarrow> nat \<Rightarrow> bytes option" where
  "copy_trimmed dst d start len =
     (if dst = [] then Some dst
      else do {
        (start1, len1) \<leftarrow> trim_front d start len;
        len2 \<leftarrow> trim_back d start1 len1;
        let copy_length = (if len2 \<ge> length dst then length dst - 1 else len2);
        txt \<leftarrow> rd_slice d start1 copy_length;
        dst1 \<leftarrow> blit dst 0 txt;
        wr dst1 copy_length 0
      })"

fun header_name_loop :: "bytes \<Rightarrow> nat \<Rightarrow> bytes \<Rightarrow> bool option" where
  "header_name_loop d start [] = Some True"
| "header_name_loop d start (c # name) =
     do { b \<leftarrow> rd d start; if tolower b \<noteq> tolower c then Some False else header_name_loop d (start + 1) name }"

definition header_name_equals :: "bytes \<Rightarrow> nat \<Rightarrow> nat \<Rightarrow> bytes \<Rightarrow> bool option" where
  "header_name_equals d start len name =
     (if len \<noteq> length name then Some False else header_name_loop d start name)"

section \<open>Lines and headers\<close>

definition parse_request_line :: "bytes \<Rightarrow> nat \<Rightarrow> app_info \<Rightarrow> app_info option option" where
  "parse_request_line d n out =
     do {
       r1 \<leftarrow> memchr d 0 32 n;
       case r1 of None \<Rightarrow> Some None
       | Some method_end \<Rightarrow>
         if method_end = 0 then Some None
         else do {
           r2 \<leftarrow> memchr d (method_end + 1) 32 (n - (method_end + 1));
           case r2 of None \<Rightarrow> Some None
           | Some path_end \<Rightarrow>
             if path_end = method_end + 1 then Some None
             else do {
               let version_start = path_end + 1;
               good \<leftarrow> (if n - version_start < 8 then Some False
                        else do { s \<leftarrow> rd_slice d version_start 5; Some (s = asc ''HTTP/'') });
               if \<not> good then Some None
               else do {
                 m \<leftarrow> copy_trimmed (http_method out) d 0 method_end;
                 p \<leftarrow> copy_trimmed (http_path out) d (method_end + 1) (path_end - (method_end + 1));
                 v \<leftarrow> copy_trimmed (http_version out) d version_start (n - version_start);
                 let a = out\<lparr>http_method := m, http_path := p, http_version := v\<rparr>;
                 Some (Some (a\<lparr>summary := put_str (summary a)
                   (asc ''HTTP request '' @ cstr m @ asc '' '' @ cstr p)\<rparr>))
               }
             }
         }
     }"

definition digit_value :: "u8 \<Rightarrow> nat" where
  "digit_value b = unat b - 48"

definition parse_status_line :: "bytes \<Rightarrow> nat \<Rightarrow> app_info \<Rightarrow> app_info option option" where
  "parse_status_line d n out =
     do {
       good \<leftarrow> (if n < 12 then Some False else do { s \<leftarrow> rd_slice d 0 5; Some (s = asc ''HTTP/'') });
       if \<not> good then Some None
       else do {
         r1 \<leftarrow> memchr d 0 32 n;
         case r1 of None \<Rightarrow> Some None
         | Some sp \<Rightarrow>
           if n - sp < 4 then Some None
           else do {
             let status_start = sp + 1;
             s0 \<leftarrow> rd d status_start; s1 \<leftarrow> rd d (status_start + 1); s2 \<leftarrow> rd d (status_start + 2);
             if \<not> isdigit s0 \<or> \<not> isdigit s1 \<or> \<not> isdigit s2 then Some None
             else do {
               let status = digit_value s0 * 100 + digit_value s1 * 10 + digit_value s2;
               v \<leftarrow> copy_trimmed (http_version out) d 0 (status_start - 1);
               let a = out\<lparr>http_version := v, http_status_code := of_nat status\<rparr>;
               let reason_start = status_start + 3;
               sep \<leftarrow> (if reason_start < n then do { b \<leftarrow> rd d reason_start; Some (b = 32) } else Some False);
               a1 \<leftarrow> (if sep then do {
                   r \<leftarrow> copy_trimmed (http_reason a) d (reason_start + 1) (n - (reason_start + 1));
                   Some (a\<lparr>http_reason := r\<rparr>)
                 } else Some a);
               Some (Some (a1\<lparr>summary := put_str (summary a1)
                 (asc ''HTTP response '' @ dec (unat (http_status_code a1)))\<rparr>))
             }
           }
       }
     }"

text \<open>One header line from \<open>line\<close> to \<open>line_end\<close>.\<close>

definition parse_header :: "bytes \<Rightarrow> nat \<Rightarrow> nat \<Rightarrow> app_info \<Rightarrow> app_info option" where
  "parse_header d line line_end out =
     do {
       r \<leftarrow> memchr d line 58 (line_end - line);
       case r of None \<Rightarrow> Some out
       | Some colon \<Rightarrow> do {
           let val = colon + 1;
           let name_length = colon - line;
           let value_length = line_end - val;
           is_host \<leftarrow> header_name_equals d line name_length (asc ''Host'');
           if is_host then do {
             h \<leftarrow> copy_trimmed (http_host out) d val value_length; Some (out\<lparr>http_host := h\<rparr>) }
           else do {
             is_agent \<leftarrow> header_name_equals d line name_length (asc ''User-Agent'');
             if is_agent then do {
               u \<leftarrow> copy_trimmed (http_user_agent out) d val value_length; Some (out\<lparr>http_user_agent := u\<rparr>) }
             else do {
               is_type \<leftarrow> header_name_equals d line name_length (asc ''Content-Type'');
               if is_type then do {
                 t \<leftarrow> copy_trimmed (http_content_type out) d val value_length;
                 Some (out\<lparr>http_content_type := t\<rparr>) }
               else Some out
             }
           }
         }
     }"

lemma find_crlf_ge: "find_crlf d c e = Some (Some k) \<Longrightarrow> c \<le> k \<and> k + 1 < e"
proof (induction d c e rule: find_crlf.induct)
  case (1 d c e)
  then show ?case by (subst (asm) (2) find_crlf.simps) (fastforce split: if_splits bind_splits)
qed

function parse_headers :: "bytes \<Rightarrow> nat \<Rightarrow> nat \<Rightarrow> app_info \<Rightarrow> app_info option" where
  "parse_headers d line e out =
     (if \<not> line < e then Some out
      else case find_crlf d line e of
        None \<Rightarrow> None
      | Some None \<Rightarrow> Some out
      | Some (Some line_end) \<Rightarrow>
          if line_end = line then Some out
          else do { out' \<leftarrow> parse_header d line line_end out; parse_headers d (line_end + 2) e out' })"
  by pat_completeness auto
termination
  by (relation "measure (\<lambda>(_, line, e, _). e - line)") (auto dest!: find_crlf_ge)

declare parse_headers.simps [simp del]

section \<open>The decoder\<close>

definition app_http_decode :: decoder where
  "app_http_decode data n =
     (case data of None \<Rightarrow> Some (DECODE_NO_MATCH, app_info_clear)
      | Some d \<Rightarrow>
      if n = 0 then Some (DECODE_NO_MATCH, app_info_clear)
      else do {
        http \<leftarrow> looks_like_http d n;
        if \<not> http then Some (DECODE_NO_MATCH, app_info_clear)
        else do {
          r1 \<leftarrow> find_header_end d n;
          case r1 of None \<Rightarrow> Some (DECODE_NEED_MORE, app_info_clear)
          | Some header_end \<Rightarrow> do {
            r2 \<leftarrow> find_crlf d 0 header_end;
            case r2 of None \<Rightarrow> Some (DECODE_MALFORMED, app_info_clear)
            | Some line_end \<Rightarrow> do {
              let a = app_info_clear\<lparr>app_protocol := APP_PROTO_HTTP\<rparr>;
              response \<leftarrow> starts_with d line_end (asc ''HTTP/'');
              r3 \<leftarrow> (if response then parse_status_line d line_end a else parse_request_line d line_end a);
              case r3 of None \<Rightarrow> Some (DECODE_MALFORMED, app_info_clear)
              | Some a1 \<Rightarrow> do {
                a2 \<leftarrow> parse_headers d (line_end + 2) header_end a1;
                Some (DECODE_OK, a2)
              }
            }
          }
        }
      })"



section \<open>Safety\<close>

lemma find_crlf_in:
  "e \<le> length d \<Longrightarrow> \<exists>r. find_crlf d c e = Some r"
proof (induction d c e rule: find_crlf.induct)
  case (1 d c e)
  show ?case
  proof (cases "c + 1 < e")
    case True
    then have "rd d c = Some (d ! c)" "rd d (c + 1) = Some (d ! (c + 1))" using 1(2) by (simp_all add: rd_def)
    then show ?thesis using 1 True by (subst find_crlf.simps) auto
  qed (subst find_crlf.simps, simp)
qed

lemma find_header_end_in:
  "n \<le> length d \<Longrightarrow> \<exists>r. find_header_end_from d n i = Some r \<and> (\<forall>k. r = Some k \<longrightarrow> i + 4 \<le> k \<and> k \<le> n)"
proof (induction d n i rule: find_header_end_from.induct)
  case (1 d n i)
  show ?case
  proof (cases "i + 3 < n")
    case True
    then have r: "rd d i = Some (d ! i)" "rd d (i + 1) = Some (d ! (i + 1))"
      "rd d (i + 2) = Some (d ! (i + 2))" "rd d (i + 3) = Some (d ! (i + 3))" using 1(2) by (simp_all add: rd_def)
    show ?thesis
    proof (cases "d ! i = 13 \<and> d ! (i + 1) = 10 \<and> d ! (i + 2) = 13 \<and> d ! (i + 3) = 10")
      case False
      then obtain r where "find_header_end_from d n (i + 1) = Some r" "\<And>k. r = Some k \<Longrightarrow> i + 1 + 4 \<le> k \<and> k \<le> n"
        using 1(1) [OF _ r] 1(2) True by auto
      with False True r show ?thesis by (subst find_header_end_from.simps) (auto intro: Suc_leD)
    qed (use True r in \<open>subst find_header_end_from.simps, simp\<close>)
  qed (subst find_header_end_from.simps, simp)
qed

lemma index_of_less: "index_of c bs = Some i \<Longrightarrow> i < length bs \<and> bs ! i = c \<and> c \<notin> set (take i bs)"
  by (induction bs arbitrary: i) (auto split: if_splits)

lemma memchr_in:
  "off + len \<le> length d \<Longrightarrow> memchr d off c len = Some (map_option (\<lambda>i. off + i) (index_of c (take len (drop off d))))"
  by (simp add: memchr_def rd_slice_def)

lemma memchr_bounds:
  "off + len \<le> length d \<Longrightarrow> \<exists>r. memchr d off c len = Some r \<and> (\<forall>k. r = Some k \<longrightarrow> off \<le> k \<and> k < off + len)"
  by (auto simp: memchr_in dest: index_of_less)

text \<open>Trimming white space, and the copy.\<close>

definition trim :: "bytes \<Rightarrow> bytes" where
  "trim s = rev (dropWhile isspace (rev (dropWhile isspace s)))"

lemma trim_front_in:
  "start + len \<le> length d \<Longrightarrow> \<exists>s l. trim_front d start len = Some (s, l) \<and> s + l = start + len \<and> start \<le> s \<and>
     take l (drop s d) = dropWhile isspace (take len (drop start d))"
proof (induction d start len rule: trim_front.induct)
  case (2 d start len)
  have d: "take (Suc len) (drop start d) = d ! start # take len (drop (start + 1) d)"
    using "2.prems" by (simp add: Cons_nth_drop_Suc [symmetric])
  have r: "rd d start = Some (d ! start)" using "2.prems" by (simp add: rd_def)
  show ?case
  proof (cases "isspace (d ! start)")
    case True
    then show ?thesis using "2.IH" [OF r True] "2.prems" r unfolding d by auto
  qed (use d r in auto)
qed simp

lemma trim_back_in:
  "start + len \<le> length d \<Longrightarrow> \<exists>l. trim_back d start len = Some l \<and> l \<le> len \<and>
     take l (drop start d) = rev (dropWhile isspace (rev (take len (drop start d))))"
proof (induction d start len rule: trim_back.induct)
  case (2 d start len)
  have d: "take (Suc len) (drop start d) = take len (drop start d) @ [d ! (start + len)]"
    using "2.prems" by (simp add: take_Suc_conv_app_nth)
  have r: "rd d (start + len) = Some (d ! (start + len))" using "2.prems" by (simp add: rd_def)
  show ?case
  proof (cases "isspace (d ! (start + len))")
    case True
    then show ?thesis using "2.IH" [OF r True] "2.prems" r unfolding d by auto
  qed (use d r in auto)
qed simp

lemma copy_trimmed_put:
  assumes "start + len \<le> length d" "dst \<noteq> []"
  shows "copy_trimmed dst d start len = Some (put_str dst (trim (take len (drop start d))))"
proof -
  obtain s l where s: "trim_front d start len = Some (s, l)" "s + l = start + len"
    "take l (drop s d) = dropWhile isspace (take len (drop start d))"
    using trim_front_in [OF assms(1)] by blast
  obtain m where m: "trim_back d s l = Some m" "m \<le> l" "take m (drop s d) = trim (take len (drop start d))"
    using trim_back_in [of s l d] s assms(1) by (auto simp: trim_def)
  define c where "c = (if m \<ge> length dst then length dst - 1 else m)"
  have c: "s + c \<le> length d" "c < length dst" using assms s(2) m(2) by (auto simp: c_def)
  have "take (length dst - 1) (take m (drop s d)) = take c (drop s d)"
    by (auto simp: c_def min_def not_le intro: arg_cong [of _ _ "\<lambda>k. take k (drop s d)"])
  moreover have "length (take c (drop s d)) = c" using c by simp
  ultimately show ?thesis
    using assms c s(1) m(1)
    by (simp add: copy_trimmed_def m(3) [symmetric] put_str_def Let_def c_def [symmetric] rd_slice_def blit_def wr_def
        upd_conv_take_nth_drop)
qed

lemma header_name_loop_in:
  "start + length name \<le> length d \<Longrightarrow>
    header_name_loop d start name = Some (map tolower (take (length name) (drop start d)) = map tolower name)"
proof (induction d start name rule: header_name_loop.induct)
  case (2 d start c name)
  have "take (length (c # name)) (drop start d) = d ! start # take (length name) (drop (start + 1) d)"
    using "2.prems" by (simp add: Cons_nth_drop_Suc [symmetric])
  moreover have "rd d start = Some (d ! start)" using "2.prems" by (simp add: rd_def)
  ultimately show ?case using "2.IH" "2.prems" by auto
qed simp

lemma header_name_equals_in:
  "start + len \<le> length d \<Longrightarrow>
    header_name_equals d start len name = Some (map tolower (take len (drop start d)) = map tolower name)"
proof -
  assume a: "start + len \<le> length d"
  have "len \<noteq> length name \<Longrightarrow> map tolower (take len (drop start d)) \<noteq> map tolower name"
    using a by (auto dest: map_eq_imp_length_eq)
  with a show ?thesis by (auto simp: header_name_equals_def header_name_loop_in)
qed

text \<open>What a header line does to the result.\<close>

definition header_apply :: "app_info \<Rightarrow> bytes \<times> bytes \<Rightarrow> app_info" where
  "header_apply a h =
     (if map tolower (fst h) = map tolower (asc ''Host'') then a\<lparr>http_host := put_str (http_host a) (trim (snd h))\<rparr>
      else if map tolower (fst h) = map tolower (asc ''User-Agent'')
        then a\<lparr>http_user_agent := put_str (http_user_agent a) (trim (snd h))\<rparr>
      else if map tolower (fst h) = map tolower (asc ''Content-Type'')
        then a\<lparr>http_content_type := put_str (http_content_type a) (trim (snd h))\<rparr>
      else a)"

lemma app_info_ok_http:
  "app_info_ok a \<Longrightarrow> terminated 256 s \<Longrightarrow> app_info_ok (a\<lparr>http_host := s\<rparr>)"
  "app_info_ok a \<Longrightarrow> terminated 256 s \<Longrightarrow> app_info_ok (a\<lparr>http_user_agent := s\<rparr>)"
  "app_info_ok a \<Longrightarrow> terminated 256 s \<Longrightarrow> app_info_ok (a\<lparr>http_content_type := s\<rparr>)"
  "app_info_ok a \<Longrightarrow> terminated 256 s \<Longrightarrow> app_info_ok (a\<lparr>http_reason := s\<rparr>)"
  "app_info_ok a \<Longrightarrow> terminated 16 v \<Longrightarrow> app_info_ok (a\<lparr>http_version := v, http_status_code := c\<rparr>)"
  "app_info_ok a \<Longrightarrow> terminated 16 m \<Longrightarrow> terminated 256 s \<Longrightarrow> terminated 16 v \<Longrightarrow>
    app_info_ok (a\<lparr>http_method := m, http_path := s, http_version := v\<rparr>)"
  by (auto simp: app_info_ok_def)

lemma app_info_ok_http_fields:
  "app_info_ok a \<Longrightarrow> terminated 16 (http_method a) \<and> terminated 256 (http_path a) \<and> terminated 16 (http_version a) \<and>
    terminated 256 (http_host a) \<and> terminated 256 (http_user_agent a) \<and> terminated 256 (http_reason a) \<and>
    terminated 256 (http_content_type a)"
  by (auto simp: app_info_ok_def)

lemma app_info_ok_http_nonempty:
  "app_info_ok a \<Longrightarrow> http_method a \<noteq> [] \<and> http_path a \<noteq> [] \<and> http_version a \<noteq> [] \<and>
    http_host a \<noteq> [] \<and> http_user_agent a \<noteq> [] \<and> http_reason a \<noteq> [] \<and> http_content_type a \<noteq> []"
  by (auto simp: app_info_ok_def terminated_def)

lemma header_apply_ok: "app_info_ok a \<Longrightarrow> app_info_ok (header_apply a h) \<and> app_protocol (header_apply a h) = app_protocol a"
  using app_info_ok_http_fields [of a] by (auto simp: header_apply_def intro!: app_info_ok_http)

lemma parse_header_in:
  assumes "line \<le> e" "e \<le> length d" "app_info_ok a"
  shows "parse_header d line e a = Some (case index_of 58 (take (e - line) (drop line d)) of None \<Rightarrow> a
    | Some i \<Rightarrow> header_apply a (take i (drop line d), take (e - (line + i + 1)) (drop (line + i + 1) d)))"
proof (cases "index_of 58 (take (e - line) (drop line d))")
  case None
  then show ?thesis using assms by (simp add: parse_header_def memchr_in)
next
  case (Some i)
  have i: "line + i < e" using index_of_less [OF Some] assms by (auto simp: less_diff_conv add.commute)
  note f = app_info_ok_http_fields [OF assms(3)]
  have c: "copy_trimmed dst d (Suc (line + i)) (e - Suc (line + i)) =
      Some (put_str dst (trim (take (e - Suc (line + i)) (drop (Suc (line + i)) d))))" if "dst \<noteq> []" for dst
    using i assms that by (intro copy_trimmed_put) auto
  show ?thesis
    using Some assms i f
    by (simp add: parse_header_def memchr_in Let_def header_name_equals_in c app_info_ok_http_nonempty header_apply_def)
qed

lemma parse_request_line_ok:
  assumes n: "n \<le> length d" and a: "app_info_ok a"
  shows "\<exists>r. parse_request_line d n a = Some r \<and>
    (\<forall>b. r = Some b \<longrightarrow> app_info_ok b \<and> app_protocol b = app_protocol a)"
proof -
  note f = app_info_ok_http_fields [OF a] app_info_ok_http_nonempty [OF a]
  from memchr_bounds [of 0 n d 32] n obtain r1 where r1: "memchr d 0 32 n = Some r1" "\<And>k. r1 = Some k \<Longrightarrow> k < n" by auto
  show ?thesis
  proof (cases r1)
    case (Some m)
    then have m: "m < n" using r1(2) by blast
    from memchr_bounds [of "m + 1" "n - (m + 1)" d 32] n m
    obtain r2 where r2: "memchr d (m + 1) 32 (n - (m + 1)) = Some r2" "\<And>k. r2 = Some k \<Longrightarrow> m + 1 \<le> k \<and> k < n" by auto
    show ?thesis
    proof (cases r2)
      case (Some p)
      then have p: "m + 1 \<le> p" "p < n" using r2(2) by auto
      then show ?thesis
        using f n m r1(1) r2(1) \<open>r1 = Some m\<close> Some a
        by (auto simp: parse_request_line_def Let_def rd_slice_def copy_trimmed_put app_info_ok_http_nonempty)
          (auto simp: app_info_ok_def)
    qed (use r1(1) r2(1) Some in \<open>simp add: parse_request_line_def\<close>)
  qed (use r1(1) in \<open>simp add: parse_request_line_def\<close>)
qed

lemma parse_status_line_ok:
  assumes n: "n \<le> length d" and a: "app_info_ok a"
  shows "\<exists>r. parse_status_line d n a = Some r \<and>
    (\<forall>b. r = Some b \<longrightarrow> app_info_ok b \<and> app_protocol b = app_protocol a)"
proof -
  note f = app_info_ok_http_fields [OF a] app_info_ok_http_nonempty [OF a]
  from memchr_bounds [of 0 n d 32] n obtain r1 where r1: "memchr d 0 32 n = Some r1" "\<And>k. r1 = Some k \<Longrightarrow> k < n" by auto
  show ?thesis
  proof (cases "r1 = None \<or> n - the r1 < 4")
    case True
    then show ?thesis using r1(1) n by (cases r1) (auto simp: parse_status_line_def rd_slice_def)
  next
    case False
    then obtain m where m: "r1 = Some m" "\<not> n - m < 4" by auto
    then have r: "rd d (m + 1) = Some (d ! (m + 1))" "rd d (m + 1 + 1) = Some (d ! (m + 1 + 1))"
      "rd d (m + 1 + 2) = Some (d ! (m + 1 + 2))"
      using n by (simp_all add: rd_def)
    have v: "\<exists>v. copy_trimmed (http_version a) d 0 m = Some v \<and> terminated 16 v"
      using f n m by (auto simp: copy_trimmed_put app_info_ok_http_nonempty)
    have c: "\<exists>v. copy_trimmed (http_reason a) d (m + 1 + 3 + 1) (n - (m + 1 + 3 + 1)) = Some v \<and> terminated 256 v"
      if "m + 1 + 3 < n" using f n that by (auto simp: copy_trimmed_put app_info_ok_http_nonempty)
    show ?thesis
      using r v c m n r1 a
      by (auto simp: parse_status_line_def Let_def rd_slice_def rd_def) (auto simp: app_info_ok_def)
  qed
qed


lemma parse_headers_ok:
  "e \<le> length d \<Longrightarrow> app_info_ok a \<Longrightarrow>
    \<exists>b. parse_headers d line e a = Some b \<and> app_info_ok b \<and> app_protocol b = app_protocol a"
proof (induction "e - line" arbitrary: line a rule: less_induct)
  case less
  obtain r where r: "find_crlf d line e = Some r" using find_crlf_in [OF less.prems(1)] by blast
  show ?case
  proof (cases "line < e \<and> (\<exists>k. r = Some k \<and> k \<noteq> line)")
    case True
    then obtain k where k: "line < e" "r = Some k" "k \<noteq> line" by auto
    then have b: "line \<le> k" "k + 1 < e" using find_crlf_ge r by auto
    then obtain c where c: "parse_header d line k a = Some c" "app_info_ok c" "app_protocol c = app_protocol a"
      using parse_header_in [of line k d a] less.prems header_apply_ok by (auto split: option.splits)
    have "\<exists>b. parse_headers d (k + 2) e c = Some b \<and> app_info_ok b \<and> app_protocol b = app_protocol c"
      using b k less.prems(1) c(2) by (intro less.hyps) auto
    then show ?thesis using k r c by (subst parse_headers.simps) simp
  next
    case False
    then show ?thesis using r less.prems by (subst parse_headers.simps) (auto split: option.splits)
  qed
qed

lemma maybe_method_prefix_in: "n \<le> length d \<Longrightarrow> \<exists>r. maybe_method_prefix d n ms = Some r"
  by (induction ms) (auto simp: rd_slice_def)

lemma looks_like_http_in: "n \<le> length d \<Longrightarrow> \<exists>r. looks_like_http d n = Some r"
  using maybe_method_prefix_in [of n d http_methods]
  by (auto simp: looks_like_http_def starts_with_def maybe_http_request_prefix_def rd_slice_def)

lemma http_decode_safe:
  assumes n: "n \<le> length d"
  shows "decoded_as APP_PROTO_HTTP (app_http_decode (Some d) n)"
proof -
  obtain l where l: "looks_like_http d n = Some l" using looks_like_http_in [OF n] by blast
  obtain h where h: "find_header_end d n = Some h" "\<And>k. h = Some k \<Longrightarrow> k \<le> n"
    using find_header_end_in [OF n, of 0] by (auto simp: find_header_end_def)
  show ?thesis
  proof (cases "n = 0 \<or> \<not> l \<or> h = None")
    case True
    then show ?thesis using l h(1) by (auto simp: app_http_decode_def)
  next
    case False
    then obtain e where e: "h = Some e" "e \<le> n" using h(2) by auto
    then obtain k where k: "find_crlf d 0 e = Some k" using find_crlf_in [of e d 0] n by auto
    show ?thesis
    proof (cases k)
      case None
      then show ?thesis using False l h(1) e k by (simp add: app_http_decode_def)
    next
      case (Some c)
      then have c: "c + 1 < e" using find_crlf_ge k by auto
      obtain s where s: "starts_with d c (asc ''HTTP/'') = Some s"
        using c e n by (cases "c < length (asc ''HTTP/'')") (auto simp: starts_with_def rd_slice_def)
      let ?a = "app_info_zero\<lparr>app_protocol := APP_PROTO_HTTP\<rparr>"
      have a: "app_info_ok ?a" by (intro app_info_ok_update) simp
      have cn: "c \<le> length d" using c e n by simp
      obtain r where r: "(if s then parse_status_line d c ?a else parse_request_line d c ?a) = Some r"
        "\<And>b. r = Some b \<Longrightarrow> app_info_ok b \<and> app_protocol b = APP_PROTO_HTTP"
        using parse_status_line_ok [OF cn a] parse_request_line_ok [OF cn a] by (cases s) auto
      have "e \<le> length d" using e n by simp
      from parse_headers_ok [OF this, of _ "c + 2"] r(2)
      show ?thesis
        using False l h(1) e k Some s r(1) by (cases r) (fastforce simp: app_http_decode_def)+
    qed
  qed
qed

interpretation http: app_decoder app_http_decode APP_PROTO_HTTP
  by unfold_locales (simp_all add: http_decode_safe, simp add: app_http_decode_def)


section \<open>What a request says\<close>

definition crlf :: bytes where "crlf = [13, 10]"

definition enc_header :: "bytes \<times> bytes \<Rightarrow> bytes" where
  "enc_header h = fst h @ 58 # snd h @ crlf"

definition enc_request :: "bytes \<Rightarrow> bytes \<Rightarrow> bytes \<Rightarrow> (bytes \<times> bytes) list \<Rightarrow> bytes" where
  "enc_request meth path version hs =
     meth @ 32 # path @ 32 # version @ crlf @ concat (map enc_header hs) @ crlf"

definition header_wf :: "bytes \<times> bytes \<Rightarrow> bool" where
  "header_wf h \<longleftrightarrow> 58 \<notin> set (fst h) \<and> 13 \<notin> set (fst h) \<and> 13 \<notin> set (snd h)"

lemma find_crlf_exact:
  "d = pre @ l @ 13 # 10 # post \<Longrightarrow> 13 \<notin> set l \<Longrightarrow> length pre + length l + 1 < e \<Longrightarrow>
    find_crlf d (length pre) e = Some (Some (length pre + length l))"
proof (induction l arbitrary: pre)
  case Nil
  then show ?case by (subst find_crlf.simps) (simp add: rd_def nth_append)
next
  case (Cons b l)
  have "find_crlf d (length (pre @ [b])) e = Some (Some (length (pre @ [b]) + length l))"
    using Cons.prems by (intro Cons.IH) auto
  moreover have "rd d (length pre) = Some b" "\<exists>x. rd d (length pre + 1) = Some x"
    using Cons.prems(1) by (simp_all add: rd_def nth_append)
  ultimately show ?case using Cons.prems(2,3) by (subst find_crlf.simps) auto
qed

text \<open>A text without an empty line: each CRLF is followed by a byte other than CR.\<close>

definition no_blank :: "bytes \<Rightarrow> bool" where
  "no_blank s \<longleftrightarrow> (\<forall>i. i + 3 < length s \<longrightarrow> \<not> (s ! i = 13 \<and> s ! (i + 1) = 10 \<and> s ! (i + 2) = 13 \<and> s ! (i + 3) = 10))"

lemma find_header_end_exact:
  assumes "d = s @ [13, 10, 13, 10] @ rest" "no_blank (s @ [13, 10, 13])" "n = length d"
  shows "i \<le> length s \<Longrightarrow> find_header_end_from d n i = Some (Some (length s + 4))"
proof (induction "length s - i" arbitrary: i)
  case 0
  then have i: "i = length s" by simp
  show ?case using assms by (subst find_header_end_from.simps) (simp add: rd_def nth_append i)
next
  case (Suc m)
  then have i: "i < length s" by simp
  have r: "rd d (i + j) = Some ((s @ [13, 10, 13]) ! (i + j))" if "j < 4" for j
    using i that assms(1) by (auto simp: rd_def nth_append nth_Cons' not_less)
  have "\<not> ((s @ [13, 10, 13]) ! i = 13 \<and> (s @ [13, 10, 13]) ! (i + 1) = 10 \<and> (s @ [13, 10, 13]) ! (i + 2) = 13 \<and>
      (s @ [13, 10, 13]) ! (i + 3) = 10)"
    using assms(2) i unfolding no_blank_def by auto
  moreover have "find_header_end_from d n (i + 1) = Some (Some (length s + 4))"
    using Suc(2) i by (intro Suc(1)) auto
  ultimately show ?case
    using r [of 0] r [of 1] r [of 2] r [of 3] i assms(1,3)
    by (subst find_header_end_from.simps) (auto simp del: add_2_eq_Suc')
qed



lemma no_blank_prefix: "13 \<notin> set l \<Longrightarrow> no_blank t \<Longrightarrow> no_blank (l @ t)"
  unfolding no_blank_def
proof (intro allI impI notI)
  fix i
  assume a: "13 \<notin> set l" "\<forall>i. i + 3 < length t \<longrightarrow> \<not> (t ! i = 13 \<and> t ! (i + 1) = 10 \<and> t ! (i + 2) = 13 \<and> t ! (i + 3) = 10)"
    "i + 3 < length (l @ t)"
    "(l @ t) ! i = 13 \<and> (l @ t) ! (i + 1) = 10 \<and> (l @ t) ! (i + 2) = 13 \<and> (l @ t) ! (i + 3) = 10"
  have "\<not> i < length l" 
  proof
    assume i: "i < length l"
    then have "l ! i = 13" using a(4) by (simp add: nth_append)
    then show False using nth_mem [OF i] a(1) by simp
  qed
  then have "i - length l + 3 < length t" "(l @ t) ! (i + k) = t ! (i - length l + k)" for k
    using a(3) by (auto simp: nth_append)
  then show False using a(2) a(4) by (metis add.right_neutral)
qed

lemma no_blank_line: "l \<noteq> [] \<Longrightarrow> 13 \<notin> set l \<Longrightarrow> no_blank t \<Longrightarrow> no_blank (crlf @ l @ t)"
proof -
  assume a: "l \<noteq> []" "13 \<notin> set l" "no_blank t"
  then have b: "no_blank (10 # l @ t)" using no_blank_prefix [of "10 # l" t] by simp
  obtain x l' where l: "l = x # l'" using a(1) by (cases l) auto
  show ?thesis
    unfolding no_blank_def
  proof (intro allI impI notI)
    fix i
    assume i: "i + 3 < length (crlf @ l @ t)" "(crlf @ l @ t) ! i = 13 \<and> (crlf @ l @ t) ! (i + 1) = 10 \<and>
      (crlf @ l @ t) ! (i + 2) = 13 \<and> (crlf @ l @ t) ! (i + 3) = 10"
    show False
    proof (cases i)
      case 0
      then show False using i(2) a(2) by (simp add: crlf_def l numeral_2_eq_2)
    next
      case (Suc j)
      then show False using b i by (auto simp: no_blank_def crlf_def)
    qed
  qed
qed

lemma no_blank_lines:
  "13 \<notin> set l0 \<Longrightarrow> \<forall>l \<in> set ls. l \<noteq> [] \<and> 13 \<notin> set l \<Longrightarrow> no_blank (l0 @ concat (map (\<lambda>l. crlf @ l) ls) @ [13, 10, 13])"
proof (rule no_blank_prefix)
  assume "\<forall>l \<in> set ls. l \<noteq> [] \<and> 13 \<notin> set l"
  then show "no_blank (concat (map (\<lambda>l. crlf @ l) ls) @ [13, 10, 13])"
  proof (induction ls)
    case Nil
    then show ?case by (simp add: no_blank_def)
  next
    case (Cons l ls)
    then show ?case using no_blank_line [of l "concat (map (\<lambda>l. crlf @ l) ls) @ [13, 10, 13]"] by simp
  qed
qed

lemma index_of_append: "c \<notin> set xs \<Longrightarrow> index_of c (xs @ c # ys) = Some (length xs)"
  by (induction xs) auto

definition header_line :: "bytes \<times> bytes \<Rightarrow> bytes" where
  "header_line h = fst h @ 58 # snd h"

lemma enc_header_line: "enc_header h = header_line h @ crlf"
  by (simp add: enc_header_def header_line_def)

lemma parse_headers_exact:
  "d = pre @ concat (map enc_header hs) @ crlf @ post \<Longrightarrow> e = length pre + length (concat (map enc_header hs)) + 2 \<Longrightarrow>
    list_all header_wf hs \<Longrightarrow> app_info_ok a \<Longrightarrow> parse_headers d (length pre) e a = Some (foldl header_apply a hs)"
proof (induction hs arbitrary: pre a)
  case Nil
  then have "find_crlf d (length pre) e = Some (Some (length pre))"
    using find_crlf_exact [of d pre "[]" post e] by (simp add: crlf_def)
  then show ?case by (subst parse_headers.simps) simp
next
  case (Cons h hs)
  let ?l = "header_line h" and ?r = "concat (map enc_header hs)"
  have d: "d = pre @ ?l @ crlf @ ?r @ crlf @ post" using Cons.prems(1) by (simp add: enc_header_line [of h])
  have e: "e = length pre + length ?l + 2 + length ?r + 2" using Cons.prems(2) by (simp add: enc_header_line [of h] crlf_def)
  have wf: "58 \<notin> set (fst h)" "13 \<notin> set ?l" using Cons.prems(3) by (auto simp: header_wf_def header_line_def)
  have c: "find_crlf d (length pre) e = Some (Some (length pre + length ?l))"
    using d e wf(2) by (intro find_crlf_exact [of _ _ _ "?r @ crlf @ post"]) (auto simp: crlf_def)
  have ld: "length d = e + length post" using d e by (simp add: crlf_def)
  have tk: "take (length ?l) (drop (length pre) d) = ?l" using d by simp
  have dr: "drop (length pre + length (fst h) + 1) d = snd h @ crlf @ ?r @ crlf @ post"
    using d by (simp add: header_line_def)
  have "parse_header d (length pre) (length pre + length ?l) a = Some (header_apply a h)"
  proof (subst parse_header_in)
    have "index_of 58 ?l = Some (length (fst h))" using wf(1) by (simp add: header_line_def index_of_append)
    moreover have "take (length (fst h)) (drop (length pre) d) = fst h" using d by (simp add: header_line_def)
    moreover have "length pre + length ?l - (length pre + length (fst h) + 1) = length (snd h)" by (simp add: header_line_def)
    ultimately show "Some (case index_of 58 (take (length pre + length ?l - length pre) (drop (length pre) d)) of
        None \<Rightarrow> a | Some i \<Rightarrow> header_apply a (take i (drop (length pre) d),
          take (length pre + length ?l - (length pre + i + 1)) (drop (length pre + i + 1) d))) = Some (header_apply a h)"
      using dr by (simp add: tk)
  qed (use Cons.prems(4) d in auto)
  moreover have "parse_headers d (length (pre @ ?l @ crlf)) e (header_apply a h) = Some (foldl header_apply (header_apply a h) hs)"
    using d e Cons.prems(3,4) header_apply_ok by (intro Cons.IH) (auto simp: crlf_def)
  moreover have "length pre < e" "?l \<noteq> []" using e by (auto simp: header_line_def)
  ultimately show ?case
    using c by (subst parse_headers.simps) (simp add: crlf_def)
qed

lemma trim_id: "\<forall>b \<in> set s. \<not> isspace b \<Longrightarrow> trim s = s"
proof (cases "s = []")
  case False
  moreover assume "\<forall>b \<in> set s. \<not> isspace b"
  ultimately have "\<not> isspace (hd s)" "\<not> isspace (hd (rev s))" by (auto simp: hd_rev)
  then have "dropWhile isspace s = s" "dropWhile isspace (rev s) = rev s" by (simp_all add: dropWhile_eq_self_iff)
  then show ?thesis by (simp add: trim_def)
qed (simp add: trim_def)

lemma parse_request_line_exact:
  assumes d: "d = line @ rest" and line: "line = meth @ 32 # path @ 32 # version"
    and wf: "meth \<noteq> []" "path \<noteq> []" "32 \<notin> set meth" "32 \<notin> set path" "8 \<le> length version" "take 5 version = asc ''HTTP/''"
    and a: "app_info_ok a"
  shows "parse_request_line d (length line) a = Some (Some (let
      m = put_str (http_method a) (trim meth); p = put_str (http_path a) (trim path);
      b = a\<lparr>http_method := m, http_path := p, http_version := put_str (http_version a) (trim version)\<rparr>
      in b\<lparr>summary := put_str (summary b) (asc ''HTTP request '' @ cstr m @ asc '' '' @ cstr p)\<rparr>))"
proof -
  note ne = app_info_ok_http_nonempty [OF a]
  have l: "length line = length meth + length path + length version + 2" by (simp add: line)
  have m1: "memchr d 0 32 (length line) = Some (Some (length meth))"
    using wf(3) by (subst memchr_in) (simp_all add: d, simp add: line index_of_append)
  have dr: "drop (length meth + 1) d = path @ 32 # version @ rest" "drop (length meth + 1 + length path + 1) d = version @ rest"
    by (simp_all add: d line)
  have m2: "memchr d (length meth + 1) 32 (length line - (length meth + 1)) = Some (Some (length meth + 1 + length path))"
    using wf(4) by (subst memchr_in) (simp_all add: d line index_of_append)
  have "length asc5 = 5 \<Longrightarrow> take 5 (version @ rest) = take 5 version" for asc5 :: bytes using wf(5) by simp
  define p where "p = length meth + 1 + length path"
  have v: "rd_slice d (p + 1) 5 = Some (asc ''HTTP/'')"
  proof -
    have "drop (p + 1) d = version @ rest" using dr(2) by (simp add: p_def)
    moreover have "p + 1 + 5 \<le> length d" using wf(5) by (simp add: p_def d line)
    ultimately show ?thesis using wf(5,6) by (simp add: rd_slice_def)
  qed
  have c: "copy_trimmed dst d 0 (length meth) = Some (put_str dst (trim meth))"
    "copy_trimmed dst d (length meth + 1) (length path) = Some (put_str dst (trim path))"
    "copy_trimmed dst d (p + 1) (length version) = Some (put_str dst (trim version))" if "dst \<noteq> []" for dst
    using that dr by (subst copy_trimmed_put; simp add: d line p_def)+
  have k: "length line - (p + 1) = length version" "p - (length meth + 1) = length path" "p \<noteq> length meth + 1" "\<not> length version < 8"
    using wf l by (simp_all add: p_def)
  show ?thesis
    using m1 m2 [folded p_def] v c k ne wf(1)
    by (simp only: parse_request_line_def bind.simps option.case length_0_conv if_False Let_def k) simp
qed


lemma maybe_method_prefix_hit:
  "meth \<in> set ms \<Longrightarrow> d = meth @ rest \<Longrightarrow> n = length d \<Longrightarrow> maybe_method_prefix d n ms = Some True"
proof (induction ms)
  case (Cons m ms)
  then show ?case by (cases "m = meth") (auto simp: rd_slice_def)
qed simp

lemma asc_values:
  "asc ''HTTP/'' = [72, 84, 84, 80, 47]" "asc ''GET'' = [71, 69, 84]" "asc ''POST'' = [80, 79, 83, 84]"
  "asc ''PUT'' = [80, 85, 84]" "asc ''DELETE'' = [68, 69, 76, 69, 84, 69]" "asc ''HEAD'' = [72, 69, 65, 68]"
  "asc ''OPTIONS'' = [79, 80, 84, 73, 79, 78, 83]" "asc ''PATCH'' = [80, 65, 84, 67, 72]"
  "asc ''TRACE'' = [84, 82, 65, 67, 69]" "asc ''CONNECT'' = [67, 79, 78, 78, 69, 67, 84]"
  by (simp_all add: asc_def)

lemma methods_facts:
  assumes "meth \<in> set http_methods"
  shows "meth \<noteq> []" "32 \<notin> set meth" "13 \<notin> set meth" "0 \<notin> set meth" "length meth < 16" "\<forall>b \<in> set meth. \<not> isspace b"
    "take 5 (meth @ x) \<noteq> asc ''HTTP/''"
  using assms by (auto simp: http_methods_def asc_values isspace_def)

text \<open>The value that a field has after the headers: the last one of that name, trimmed.\<close>

definition last_value :: "string \<Rightarrow> (bytes \<times> bytes) list \<Rightarrow> bytes" where
  "last_value name hs =
     foldl (\<lambda>v h. if map tolower (fst h) = map tolower (asc name) then trim (snd h) else v) [] hs"

lemma lower_names:
  "map tolower (asc ''Host'') \<noteq> map tolower (asc ''User-Agent'')"
  "map tolower (asc ''Host'') \<noteq> map tolower (asc ''Content-Type'')"
  "map tolower (asc ''User-Agent'') \<noteq> map tolower (asc ''Content-Type'')"
  by (simp_all add: asc_def tolower_def isupper_def)

lemma trim_subset: "set (trim s) \<subseteq> set s"
  unfolding trim_def using set_dropWhileD by (metis (no_types, lifting) set_rev subsetI)

lemma cstr_put_take: "terminated 256 buf \<Longrightarrow> 0 \<notin> set s \<Longrightarrow> cstr (put_str buf s) = take 255 s"
  by (subst cstr_put_str) (auto simp: terminated_def)

definition same_name :: "string \<Rightarrow> bytes \<Rightarrow> bool" where
  "same_name name x \<longleftrightarrow> map tolower x = map tolower (asc name)"

definition holds_headers :: "app_info \<Rightarrow> bytes \<Rightarrow> bytes \<Rightarrow> bytes \<Rightarrow> app_info \<Rightarrow> bool" where
  "holds_headers a host agent ctype b \<longleftrightarrow> app_info_ok b \<and> app_protocol b = app_protocol a \<and>
     http_method b = http_method a \<and> http_path b = http_path a \<and> http_version b = http_version a \<and>
     cstr (http_host b) = take 255 host \<and> cstr (http_user_agent b) = take 255 agent \<and>
     cstr (http_content_type b) = take 255 ctype"

definition new_value :: "string \<Rightarrow> bytes \<Rightarrow> bytes \<times> bytes \<Rightarrow> bytes" where
  "new_value name v h = (if same_name name (fst h) then trim (snd h) else v)"

lemma header_apply_holds:
  assumes "holds_headers a0 u v w a" "0 \<notin> set (snd h)"
  shows "holds_headers a0 (new_value ''Host'' u h) (new_value ''User-Agent'' v h) (new_value ''Content-Type'' w h) (header_apply a h)"
proof -
  have ok: "app_info_ok a" using assms(1) by (simp add: holds_headers_def)
  note f = app_info_ok_http_fields [OF ok] header_apply_ok [OF ok, of h]
  have z: "0 \<notin> set (trim (snd h))" using assms(2) trim_subset by blast
  show ?thesis
    using assms(1) f z lower_names
    by (auto simp: holds_headers_def new_value_def same_name_def header_apply_def cstr_put_take)
qed

lemma headers_apply_hold:
  "holds_headers a0 u v w a \<Longrightarrow> \<forall>h \<in> set hs. 0 \<notin> set (snd h) \<Longrightarrow>
    holds_headers a0 (foldl (new_value ''Host'') u hs) (foldl (new_value ''User-Agent'') v hs)
      (foldl (new_value ''Content-Type'') w hs) (foldl header_apply a hs)"
proof (induction hs arbitrary: a u v w)
  case (Cons h hs)
  then show ?case using Cons.IH [OF header_apply_holds [OF Cons.prems(1)]] by simp
qed simp

section \<open>Properties\<close>

text \<open>C22. Decoding recovers a request: for each known method, a path and an \<open>HTTP/\<close> version without white
  space or NUL that fit their fields, any list of header lines without CR (and with a colon after a
  colon-free name), and any body, the decoder reports HTTP with exactly that method, path and
  version, and for Host, User-Agent and Content-Type the trimmed value of the last header of that
  name in any letter case, cut at 255 bytes.\<close>

theorem http_request_roundtrip:
  assumes meth: "meth \<in> set http_methods"
    and path: "path \<noteq> []" "length path \<le> 255" "\<forall>b \<in> set path. b \<noteq> 0 \<and> \<not> isspace b"
    and version: "take 5 version = asc ''HTTP/''" "8 \<le> length version" "length version \<le> 15"
      "\<forall>b \<in> set version. b \<noteq> 0 \<and> \<not> isspace b"
    and hs: "list_all header_wf hs" "\<forall>h \<in> set hs. 0 \<notin> set (snd h)"
  shows "\<exists>a. app_http_decode (Some (enc_request meth path version hs @ body))
        (length (enc_request meth path version hs @ body)) = Some (DECODE_OK, a) \<and>
      app_protocol a = APP_PROTO_HTTP \<and> cstr (http_method a) = meth \<and> cstr (http_path a) = path \<and>
      cstr (http_version a) = version \<and>
      cstr (http_host a) = take 255 (foldl (new_value ''Host'') [] hs) \<and>
      cstr (http_user_agent a) = take 255 (foldl (new_value ''User-Agent'') [] hs) \<and>
      cstr (http_content_type a) = take 255 (foldl (new_value ''Content-Type'') [] hs)"
proof -
  note m = methods_facts [OF meth]
  define line where "line = meth @ 32 # path @ 32 # version"
  define d where "d = enc_request meth path version hs @ body"
  define hb where "hb = concat (map enc_header hs)"
  define e where "e = length line + 2 + length hb + 2"
  have d: "d = line @ crlf @ hb @ crlf @ body" by (simp add: d_def enc_request_def line_def hb_def)
  have sp: "32 \<notin> set path" "13 \<notin> set path" "13 \<notin> set version"
    using path(3) version(4) by (auto simp: isspace_def)
  then have cr: "13 \<notin> set line" using m(3) by (simp add: line_def)
  have "looks_like_http d (length d) = Some True"
  proof -
    have "maybe_http_request_prefix d (length d) = Some True"
      unfolding maybe_http_request_prefix_def
      by (rule maybe_method_prefix_hit [OF meth, of _ "32 # path @ 32 # version @ crlf @ hb @ crlf @ body"])
        (simp_all add: d line_def)
    moreover have "\<exists>r. starts_with d (length d) (asc ''HTTP/'') = Some r" by (auto simp: starts_with_def rd_slice_def)
    ultimately show ?thesis by (auto simp: looks_like_http_def)
  qed
  moreover have "find_header_end d (length d) = Some (Some e)"
  proof -
    define s where "s = line @ concat (map (\<lambda>l. crlf @ l) (map header_line hs))"
    have lines: "concat (map (\<lambda>l. crlf @ l) ls) @ crlf = crlf @ concat (map (\<lambda>l. l @ crlf) ls)" for ls :: "bytes list"
      by (induction ls) auto
    have "enc_header = (\<lambda>h. header_line h @ crlf)" by (rule ext) (rule enc_header_line)
    then have q: "line @ crlf @ hb = s @ crlf"
      unfolding s_def hb_def using lines [of "map header_line hs"] by (simp add: comp_def)
    have "d = (line @ crlf @ hb) @ crlf @ body" by (simp add: d)
    then have "d = s @ [13, 10, 13, 10] @ body" unfolding q by (simp add: crlf_def)
    moreover have "e = length s + 4" using arg_cong [OF q, of length] by (simp add: e_def crlf_def)
    moreover have "no_blank (s @ [13, 10, 13])"
      using no_blank_lines [of line "map header_line hs"] cr hs(1)
      by (auto simp: s_def list_all_iff header_wf_def header_line_def)
    ultimately show ?thesis by (simp add: find_header_end_def find_header_end_exact)
  qed
  moreover have "find_crlf d 0 e = Some (Some (length line))"
    using find_crlf_exact [of d "[]" line "hb @ crlf @ body" e] cr by (simp add: d crlf_def e_def)
  moreover have "starts_with d (length line) (asc ''HTTP/'') = Some False"
  proof -
    have "length (asc ''HTTP/'') = 5" by (simp add: asc_def)
    moreover have "take 5 d \<noteq> asc ''HTTP/''"
      using m(7) [of "32 # path @ 32 # version @ crlf @ hb @ crlf @ body"] by (simp add: d line_def)
    moreover have "5 \<le> length line" "length line \<le> length d" using version(2) by (simp_all add: line_def d)
    ultimately show ?thesis by (simp add: starts_with_def rd_slice_def)
  qed
  moreover define a0 where "a0 = app_info_zero\<lparr>app_protocol := APP_PROTO_HTTP\<rparr>"
  have ok: "app_info_ok a0" unfolding a0_def by (intro app_info_ok_update) simp
  obtain a1 where a1: "parse_request_line d (length line) a0 = Some (Some a1)"
    "http_method a1 = put_str (replicate 16 0) meth" "http_path a1 = put_str (replicate 256 0) path"
    "http_version a1 = put_str (replicate 16 0) version" "http_host a1 = replicate 256 0"
    "http_user_agent a1 = replicate 256 0" "http_content_type a1 = replicate 256 0" "app_protocol a1 = APP_PROTO_HTTP"
    using parse_request_line_exact [OF d line_def m(1) path(1) m(2) sp(1) version(2,1) ok] m(6) path(3) version(4)
    by (simp add: trim_id Let_def a0_def app_info_zero_def)
  have ok1: "app_info_ok a1" using parse_request_line_ok [of "length line" d a0] ok a1(1) d by auto
  have h: "parse_headers d (length line + 2) e a1 = Some (foldl header_apply a1 hs)"
    using parse_headers_exact [of d "line @ crlf" hs body e a1] hs(1) ok1
    by (simp add: d hb_def e_def crlf_def)
  ultimately have "app_http_decode (Some d) (length d) = Some (DECODE_OK, foldl header_apply a1 hs)"
    using a1(1) h by (simp add: app_http_decode_def a0_def d crlf_def)
  moreover have "holds_headers a1 [] [] [] a1" using ok1 a1(5-7) by (simp add: holds_headers_def cstr_def)
  note headers_apply_hold [OF this hs(2)]
  moreover have "cstr (http_method a1) = meth" "cstr (http_path a1) = path" "cstr (http_version a1) = version"
  proof -
    have "0 \<notin> set path" "0 \<notin> set version" using path(3) version(4) by auto
    then show "cstr (http_method a1) = meth" "cstr (http_path a1) = path" "cstr (http_version a1) = version"
      using m(4,5) path(2) version(3) by (simp_all add: a1 cstr_put_fits)
  qed
  ultimately show ?thesis using a1(8) by (auto simp: d_def holds_headers_def)
qed


definition ex_request :: bytes where
  "ex_request = enc_request [71, 69, 84] [47] [72, 84, 84, 80, 47, 49, 46, 49] [([104, 79, 115, 116], [32, 120])] @ [1]"

lemma http_request_roundtrip_witness:
  "\<exists>a. app_http_decode (Some ex_request) (length ex_request) = Some (DECODE_OK, a) \<and>
     cstr (http_path a) = [47] \<and> cstr (http_host a) = [120]"
proof -
  have "[71, 69, 84] \<in> set http_methods" by (simp add: http_methods_def asc_values)
  moreover have "list_all header_wf [([104, 79, 115, 116], [32, 120])]" by (simp add: header_wf_def)
  moreover have "foldl (new_value ''Host'') [] [([104, 79, 115, 116], [32, 120])] = [120]"
    by (simp add: new_value_def same_name_def trim_def asc_def tolower_def isupper_def isspace_def)
  ultimately show ?thesis
    unfolding ex_request_def
    using http_request_roundtrip [of "[71, 69, 84]" "[47]" "[72, 84, 84, 80, 47, 49, 46, 49]" "[([104, 79, 115, 116], [32, 120])]" "[1]"]
    by (simp add: asc_values isspace_def del: length_append) fastforce
qed

end
