(* ===== verification/App_Dhcp.thy ===== *)
theory App_Dhcp
  imports App_Contract
begin

text \<open>
  \<open>src/app_dhcp.c\<close>: the BOOTP fixed header, the magic cookie and the option list of DHCP.
  \<open>inet_ntop (AF_INET)\<close> prints the four bytes as dotted decimal.
\<close>

section \<open>The decoder\<close>

definition inet_ntop4 :: "bytes \<Rightarrow> bytes \<Rightarrow> nat \<Rightarrow> bytes option" where
  "inet_ntop4 dst d off =
     do { a \<leftarrow> rd d off; b \<leftarrow> rd d (off + 1); c \<leftarrow> rd d (off + 2); e \<leftarrow> rd d (off + 3);
       Some (put_str dst (ipv4_text a b c e)) }"

definition dhcp_message_type_name :: "u8 \<Rightarrow> string" where
  "dhcp_message_type_name type =
     (if type = 1 then ''discover'' else if type = 2 then ''offer'' else if type = 3 then ''request''
      else if type = 4 then ''decline'' else if type = 5 then ''ack'' else if type = 6 then ''nak''
      else if type = 7 then ''release'' else if type = 8 then ''inform'' else ''unknown'')"

text \<open>The effect of one option whose value starts at \<open>val\<close>.\<close>

definition dhcp_option :: "bytes \<Rightarrow> nat \<Rightarrow> u8 \<Rightarrow> u8 \<Rightarrow> app_info \<Rightarrow> app_info option" where
  "dhcp_option d val tag option_length out =
     (if tag = 53 \<and> option_length = 1 then do {
        v \<leftarrow> rd d val; Some (out\<lparr>dhcp_message_type := v\<rparr>) }
      else if tag = 50 \<and> option_length = 4 then do {
        ip \<leftarrow> inet_ntop4 (dhcp_requested_ip out) d val; Some (out\<lparr>dhcp_requested_ip := ip\<rparr>) }
      else Some out)"

function scan_dhcp_options :: "bytes \<Rightarrow> nat \<Rightarrow> nat \<Rightarrow> app_info \<Rightarrow> app_info option" where
  "scan_dhcp_options d n offset out =
     (if \<not> offset < n then Some out
      else do {
        tag \<leftarrow> rd d offset;
        if tag = 255 then Some out
        else if tag = 0 then scan_dhcp_options d n (offset + 1) out
        else if offset + 1 \<ge> n then Some out
        else do {
          option_length \<leftarrow> rd d (offset + 1);
          if offset + 2 + unat option_length > n then Some out
          else do {
            out' \<leftarrow> dhcp_option d (offset + 2) tag option_length out;
            scan_dhcp_options d n (offset + (2 + unat option_length)) out'
          }
        }
      })"
  by pat_completeness auto
termination by (relation "measure (\<lambda>(_, n, offset, _). n - offset)") auto

declare scan_dhcp_options.simps [simp del]

definition mac_text :: "bytes \<Rightarrow> nat \<Rightarrow> bytes option" where
  "mac_text d off =
     do { a \<leftarrow> rd d off; b \<leftarrow> rd d (off + 1); c \<leftarrow> rd d (off + 2);
       e \<leftarrow> rd d (off + 3); f \<leftarrow> rd d (off + 4); g \<leftarrow> rd d (off + 5);
       Some (hex_fixed 2 (unat a) @ 58 # hex_fixed 2 (unat b) @ 58 # hex_fixed 2 (unat c) @ 58 #
         hex_fixed 2 (unat e) @ 58 # hex_fixed 2 (unat f) @ 58 # hex_fixed 2 (unat g)) }"

definition dhcp_magic_cookie :: bytes where
  "dhcp_magic_cookie = [0x63, 0x82, 0x53, 0x63]"

definition dhcp_summary :: "app_info \<Rightarrow> bytes" where
  "dhcp_summary a = asc ''DHCP '' @ asc (dhcp_message_type_name (dhcp_message_type a)) @ asc '' xid=0x'' @
     hex_fixed 8 (unat (dhcp_transaction_id a))"

definition app_dhcp_decode_udp :: decoder where
  "app_dhcp_decode_udp data n =
     (case data of None \<Rightarrow> Some (DECODE_NO_MATCH, app_info_clear)
      | Some d \<Rightarrow>
      if n = 0 then Some (DECODE_NO_MATCH, app_info_clear)
      else if n < 240 then Some (DECODE_NEED_MORE, app_info_clear)
      else do {
        cookie \<leftarrow> rd_slice d 236 4;
        if cookie \<noteq> dhcp_magic_cookie then Some (DECODE_NO_MATCH, app_info_clear)
        else
          let short = Some (DECODE_NEED_MORE, app_info_clear) in
          need (br_read_u8 (br_init (Some d) n)) short (\<lambda>bootp_op r1.
          need (br_read_u8 r1) short (\<lambda>htype r2.
          need (br_read_u8 r2) short (\<lambda>hlen r3.
          case br_skip r3 1 of (False, _) \<Rightarrow> short
          | (True, r4) \<Rightarrow>
          need (br_read_u32_be r4) short (\<lambda>xid r5.
          if bootp_op \<noteq> 1 \<and> bootp_op \<noteq> 2 then Some (DECODE_NO_MATCH, app_info_clear)
          else do {
            let a = app_info_clear\<lparr>dhcp_transaction_id := xid, app_protocol := APP_PROTO_DHCP\<rparr>;
            client \<leftarrow> inet_ntop4 (dhcp_client_ip a) d 12;
            your \<leftarrow> inet_ntop4 (dhcp_your_ip a) d 16;
            server \<leftarrow> inet_ntop4 (dhcp_server_ip a) d 20;
            let a1 = a\<lparr>dhcp_client_ip := client, dhcp_your_ip := your, dhcp_server_ip := server\<rparr>;
            a2 \<leftarrow> (if htype = 1 \<and> hlen = 6 then do {
                mac \<leftarrow> mac_text d 28; Some (a1\<lparr>dhcp_client_mac := put_str (dhcp_client_mac a1) mac\<rparr>)
              } else Some a1);
            a3 \<leftarrow> scan_dhcp_options d n 240 a2;
            Some (DECODE_OK, a3\<lparr>summary := put_str (summary a3) (dhcp_summary a3)\<rparr>)
          }))))
      })"

section \<open>Safety\<close>

lemma inet_ntop4_in: "off + 4 \<le> length d \<Longrightarrow>
    inet_ntop4 dst d off = Some (put_str dst (ipv4_text (d ! off) (d ! (off + 1)) (d ! (off + 2)) (d ! (off + 3))))"
  by (simp add: inet_ntop4_def rd_def)

lemma app_info_ok_dhcp:
  "app_info_ok a \<Longrightarrow> app_info_ok (a\<lparr>dhcp_message_type := v\<rparr>)"
  "app_info_ok a \<Longrightarrow> terminated 46 s \<Longrightarrow> app_info_ok (a\<lparr>dhcp_requested_ip := s\<rparr>)"
  "app_info_ok a \<Longrightarrow> terminated 46 (dhcp_requested_ip a)"
  by (auto simp: app_info_ok_def)

definition dhcp_apply :: "app_info \<Rightarrow> u8 \<times> bytes \<Rightarrow> app_info" where
  "dhcp_apply a e =
     (if fst e = 53 \<and> length (snd e) = 1 then a\<lparr>dhcp_message_type := snd e ! 0\<rparr>
      else if fst e = 50 \<and> length (snd e) = 4
        then a\<lparr>dhcp_requested_ip := put_str (dhcp_requested_ip a)
          (ipv4_text (snd e ! 0) (snd e ! 1) (snd e ! 2) (snd e ! 3))\<rparr>
      else a)"

lemma dhcp_apply_ok: "app_info_ok a \<Longrightarrow> app_info_ok (dhcp_apply a e) \<and> app_protocol (dhcp_apply a e) = app_protocol a"
  by (simp add: dhcp_apply_def app_info_ok_dhcp put_str_ok)

lemma scan_dhcp_round:
  assumes n: "n \<le> length d"
  shows "scan_dhcp_options d n off a =
    (if \<not> off < n \<or> d ! off = 255 then Some a
     else if d ! off = 0 then scan_dhcp_options d n (off + 1) a
     else if off + 1 \<ge> n \<or> off + 2 + unat (d ! (off + 1)) > n then Some a
     else scan_dhcp_options d n (off + (2 + unat (d ! (off + 1))))
            (dhcp_apply a (d ! off, take (unat (d ! (off + 1))) (drop (off + 2) d))))"
proof (cases "off < n \<and> d ! off \<noteq> 255 \<and> d ! off \<noteq> 0 \<and> \<not> off + 1 \<ge> n \<and> \<not> off + 2 + unat (d ! (off + 1)) > n")
  case True
  define l where "l = unat (d ! (off + 1))"
  have r: "rd d off = Some (d ! off)" "rd d (off + 1) = Some (d ! (off + 1))" "l = 1 \<longrightarrow> rd d (off + 2) = Some (d ! (off + 2))"
    using True n by (auto simp: rd_def l_def)
  have l: "d ! (off + 1) = 1 \<longleftrightarrow> l = 1" "d ! (off + 1) = 4 \<longleftrightarrow> l = 4" by (auto simp: l_def word_unat_eq_iff)
  have s: "length (take l (drop (off + 2) d)) = l" using True n by (auto simp: l_def min_def)
  have opt: "dhcp_option d (off + 2) (d ! off) (d ! (off + 1)) a =
      Some (dhcp_apply a (d ! off, take l (drop (off + 2) d)))"
  proof -
    have nth: "take l (drop (off + 2) d) ! i = d ! (off + 2 + i)" if "i < l" for i
      using that True n by (simp add: l_def)
    consider "d ! off = 53 \<and> l = 1" | "d ! off = 50 \<and> l = 4" | "\<not> (d ! off = 53 \<and> l = 1)" "\<not> (d ! off = 50 \<and> l = 4)"
      by blast
    then show ?thesis
    proof cases
      case 1
      then show ?thesis unfolding l dhcp_option_def using r(3) nth [of 0] s by (simp add: dhcp_apply_def)
    next
      case 2
      then have "off + 2 + 4 \<le> length d" using True n by (simp add: l_def)
      then show ?thesis
        unfolding l dhcp_option_def using 2 nth [of 0] nth [of 1] nth [of 2] nth [of 3] s by (simp add: dhcp_apply_def inet_ntop4_in)
    next
      case 3
      then show ?thesis by (simp only: l dhcp_option_def dhcp_apply_def fst_conv snd_conv s if_False simp_thms)
    qed
  qed
  show ?thesis
    using True r(1,2) opt [unfolded l_def] by (subst scan_dhcp_options.simps) simp
next
  case False
  then show ?thesis
    using n by (subst scan_dhcp_options.simps) (auto simp: rd_def)
qed

lemma scan_dhcp_ok:
  "n \<le> length d \<Longrightarrow> app_info_ok a \<Longrightarrow> \<exists>b. scan_dhcp_options d n off a = Some b \<and> app_info_ok b \<and> app_protocol b = app_protocol a"
proof (induction "n - off" arbitrary: off a rule: less_induct)
  case less
  let ?b = "dhcp_apply a (d ! off, take (unat (d ! (off + 1))) (drop (off + 2) d))"
  note b = dhcp_apply_ok [OF less.prems(2), of "(d ! off, take (unat (d ! (off + 1))) (drop (off + 2) d))"]
  have i: "\<exists>c. scan_dhcp_options d n k x = Some c \<and> app_info_ok c \<and> app_protocol c = app_protocol x"
    if "off < n" "off < k" "app_info_ok x" for k x
    using that less.prems(1) by (intro less.hyps) auto
  show ?case
    using less.prems(2) i [of "off + 1" a] i [of "off + (2 + unat (d ! (off + 1)))" ?b] b
    by (subst scan_dhcp_round [OF less.prems(1)]) auto
qed

lemma dhcp_decode_safe:
  assumes n: "n \<le> length d"
  shows "decoded_as APP_PROTO_DHCP (app_dhcp_decode_udp (Some d) n)"
proof -
  let ?fin = "\<lambda>a2. do {
      a3 \<leftarrow> scan_dhcp_options d n 240 a2;
      Some (DECODE_OK, a3\<lparr>summary := put_str (summary a3) (dhcp_summary a3)\<rparr>) }"
  have fin: "decoded_as APP_PROTO_DHCP (?fin a)" if "app_info_ok a" "app_protocol a = APP_PROTO_DHCP" for a
    using scan_dhcp_ok [OF n that(1), of 240] that(2) by (auto intro: app_info_ok_update)
  show ?thesis
    using n
    by (auto simp: app_dhcp_decode_udp_def rd_slice_def br_init_at br_at_in Let_def inet_ntop4_in mac_text_def rd_def
        intro!: fin) (auto simp: app_info_ok_def)
qed

interpretation dhcp: app_decoder app_dhcp_decode_udp APP_PROTO_DHCP
  by unfold_locales (simp_all add: dhcp_decode_safe, simp add: app_dhcp_decode_udp_def)



section \<open>What a message says\<close>

text \<open>An option list with padding bytes; an option is a tag and a value.\<close>

datatype dhcp_item = Dhcp_pad | Dhcp_opt u8 bytes

fun enc_item :: "dhcp_item \<Rightarrow> bytes" where
  "enc_item Dhcp_pad = [0]"
| "enc_item (Dhcp_opt tag v) = tag # of_nat (length v) # v"

fun item_wf :: "dhcp_item \<Rightarrow> bool" where
  "item_wf Dhcp_pad \<longleftrightarrow> True"
| "item_wf (Dhcp_opt tag v) \<longleftrightarrow> tag \<noteq> 0 \<and> tag \<noteq> 255 \<and> length v < 256"

fun item_apply :: "app_info \<Rightarrow> dhcp_item \<Rightarrow> app_info" where
  "item_apply a Dhcp_pad = a"
| "item_apply a (Dhcp_opt tag v) = dhcp_apply a (tag, v)"

lemma scan_dhcp_exact:
  "d = pre @ concat (map enc_item items) @ rest \<Longrightarrow> n = length d \<Longrightarrow> list_all item_wf items \<Longrightarrow>
    rest = [] \<or> hd rest = 255 \<Longrightarrow> scan_dhcp_options d n (length pre) a = Some (foldl item_apply a items)"
proof (induction items arbitrary: pre a)
  case Nil
  then show ?case by (subst scan_dhcp_round) (auto simp: nth_append hd_conv_nth)
next
  case (Cons x items)
  show ?case
  proof (cases x)
    case Dhcp_pad
    have "scan_dhcp_options d n (length (pre @ [0])) a = Some (foldl item_apply a items)"
      using Cons.prems Dhcp_pad by (intro Cons.IH) auto
    then show ?thesis
      using Cons.prems(1,2) Dhcp_pad by (subst scan_dhcp_round) (auto simp: nth_append)
  next
    case (Dhcp_opt tag v)
    let ?l = "of_nat (length v) :: u8"
    have l: "unat ?l = length v" "tag \<noteq> 0" "tag \<noteq> 255" using Cons.prems(3) Dhcp_opt by (auto simp: unat_of_nat)
    have d: "d = pre @ tag # ?l # v @ concat (map enc_item items) @ rest" using Cons.prems(1) Dhcp_opt by simp
    have at: "d ! length pre = tag" "d ! (length pre + 1) = ?l" "take (length v) (drop (length pre + 2) d) = v"
      using d by (simp_all add: nth_append)
    have "scan_dhcp_options d n (length (pre @ tag # ?l # v)) (dhcp_apply a (tag, v)) =
        Some (foldl item_apply (dhcp_apply a (tag, v)) items)"
      using Cons.prems Dhcp_opt by (intro Cons.IH) auto
    then have IH: "scan_dhcp_options d n (length pre + (2 + length v)) (dhcp_apply a (tag, v)) =
        Some (foldl item_apply (dhcp_apply a (tag, v)) items)" by (simp add: add_ac)
    have "length pre < n" "\<not> n \<le> length pre + 1" "\<not> n < length pre + 2 + length v" using d Cons.prems(2) by auto
    then have "scan_dhcp_options d n (length pre) a = scan_dhcp_options d n (length pre + (2 + length v)) (dhcp_apply a (tag, v))"
      using Cons.prems(2) by (subst scan_dhcp_round) (simp, simp only: at l, simp add: l)
    then show ?thesis using IH Dhcp_opt by simp
  qed
qed

lemma cstr_ip: "length dst = 46 \<Longrightarrow> cstr (put_str dst (ipv4_text a b c d)) = ipv4_text a b c d"
  using length_ipv4_text [of a b c d] by (intro cstr_put_fits) (auto simp: ipv4_text_no_nul)

text \<open>The message type and the requested address that the items leave.\<close>

fun item_type :: "u8 \<Rightarrow> dhcp_item \<Rightarrow> u8" where
  "item_type t Dhcp_pad = t"
| "item_type t (Dhcp_opt tag v) = (if tag = 53 \<and> length v = 1 then v ! 0 else t)"

fun item_address :: "bytes \<Rightarrow> dhcp_item \<Rightarrow> bytes" where
  "item_address s Dhcp_pad = s"
| "item_address s (Dhcp_opt tag v) =
     (if tag = 50 \<and> length v = 4 then ipv4_text (v ! 0) (v ! 1) (v ! 2) (v ! 3) else s)"

lemma items_result:
  "length (dhcp_requested_ip a) = 46 \<Longrightarrow> b = foldl item_apply a items \<Longrightarrow>
    dhcp_message_type b = foldl item_type (dhcp_message_type a) items \<and>
    cstr (dhcp_requested_ip b) = foldl item_address (cstr (dhcp_requested_ip a)) items \<and>
    dhcp_transaction_id b = dhcp_transaction_id a \<and> app_protocol b = app_protocol a \<and>
    dhcp_client_ip b = dhcp_client_ip a \<and> dhcp_your_ip b = dhcp_your_ip a \<and> dhcp_server_ip b = dhcp_server_ip a \<and>
    dhcp_client_mac b = dhcp_client_mac a"
proof (induction items arbitrary: a)
  case (Cons x items)
  have "length (dhcp_requested_ip (item_apply a x)) = 46" using Cons.prems(1) by (cases x) (auto simp: dhcp_apply_def)
  from Cons.IH [OF this] Cons.prems show ?case by (cases x) (auto simp: dhcp_apply_def cstr_ip)
qed simp

section \<open>Properties\<close>

text \<open>C23. Decoding recovers a DHCP message: for every BOOTP header of 236 bytes that is a request or a
  reply and every list of options and padding after the cookie, ended by the end option or by the
  end of the message, the decoder reports DHCP with the header's transaction id and addresses, the
  value of the last one-byte message-type option and the address of the last four-byte
  requested-address option (none: 0 and the empty text).\<close>

theorem dhcp_message_roundtrip:
  assumes hdr: "length hdr = 236" "hdr ! 0 = 1 \<or> hdr ! 0 = 2"
    and items: "list_all item_wf items" and rest: "rest = [] \<or> hd rest = 255"
  defines "msg \<equiv> hdr @ dhcp_magic_cookie @ concat (map enc_item items) @ rest"
  shows "\<exists>a. app_dhcp_decode_udp (Some msg) (length msg) = Some (DECODE_OK, a) \<and> app_protocol a = APP_PROTO_DHCP \<and>
      dhcp_transaction_id a = be32 (hdr ! 4) (hdr ! 5) (hdr ! 6) (hdr ! 7) \<and>
      cstr (dhcp_client_ip a) = ipv4_text (hdr ! 12) (hdr ! 13) (hdr ! 14) (hdr ! 15) \<and>
      cstr (dhcp_your_ip a) = ipv4_text (hdr ! 16) (hdr ! 17) (hdr ! 18) (hdr ! 19) \<and>
      cstr (dhcp_server_ip a) = ipv4_text (hdr ! 20) (hdr ! 21) (hdr ! 22) (hdr ! 23) \<and>
      dhcp_message_type a = foldl item_type 0 items \<and>
      cstr (dhcp_requested_ip a) = foldl item_address [] items"
proof -
  let ?n = "length msg"
  have n: "\<not> ?n < 240" "?n \<noteq> 0" "240 \<le> ?n" "take 4 (drop 236 msg) = dhcp_magic_cookie"
    using hdr(1) by (simp_all add: msg_def dhcp_magic_cookie_def)
  have nth: "msg ! i = hdr ! i" if "i < 236" for i using that hdr(1) by (simp add: msg_def nth_append)
  have scan: "scan_dhcp_options msg ?n 240 a = Some (foldl item_apply a items)" for a
    using scan_dhcp_exact [OF _ refl items rest, of msg "hdr @ dhcp_magic_cookie" a] hdr(1)
    by (simp add: msg_def dhcp_magic_cookie_def)
  define a1 where "a1 = app_info_zero\<lparr>dhcp_transaction_id := be32 (hdr ! 4) (hdr ! 5) (hdr ! 6) (hdr ! 7),
    app_protocol := APP_PROTO_DHCP,
    dhcp_client_ip := put_str (replicate 46 0) (ipv4_text (hdr ! 12) (hdr ! 13) (hdr ! 14) (hdr ! 15)),
    dhcp_your_ip := put_str (replicate 46 0) (ipv4_text (hdr ! 16) (hdr ! 17) (hdr ! 18) (hdr ! 19)),
    dhcp_server_ip := put_str (replicate 46 0) (ipv4_text (hdr ! 20) (hdr ! 21) (hdr ! 22) (hdr ! 23))\<rparr>"
  have z: "dhcp_client_ip app_info_zero = replicate 46 0" "dhcp_your_ip app_info_zero = replicate 46 0"
    "dhcp_server_ip app_info_zero = replicate 46 0" "dhcp_requested_ip app_info_zero = replicate 46 0"
    "dhcp_message_type app_info_zero = 0"
    by (simp_all add: app_info_zero_def)
  have two: "Suc (Suc 0) = 2" by simp
  have rq: "(hdr ! 0 \<noteq> 1 \<and> hdr ! 0 \<noteq> 2) = False" using hdr(2) by blast
  obtain mac where mac: "mac_text msg 28 = Some mac" using n(3) by (auto simp: mac_text_def rd_def)
  define a2 where "a2 = (if hdr ! 1 = 1 \<and> hdr ! 2 = 6
    then a1\<lparr>dhcp_client_mac := put_str (dhcp_client_mac a1) mac\<rparr> else a1)"
  have "app_dhcp_decode_udp (Some msg) ?n = do {
      a2 \<leftarrow> (if hdr ! 1 = 1 \<and> hdr ! 2 = 6 then do {
          mac \<leftarrow> mac_text msg 28; Some (a1\<lparr>dhcp_client_mac := put_str (dhcp_client_mac a1) mac\<rparr>)
        } else Some a1);
      a3 \<leftarrow> scan_dhcp_options msg ?n 240 a2;
      Some (DECODE_OK, a3\<lparr>summary := put_str (summary a3) (dhcp_summary a3)\<rparr>) }"
    using n nth z
    by (simp add: rq app_dhcp_decode_udp_def rd_slice_def br_init_at br_at_in Let_def inet_ntop4_in a1_def two)
  also have "(if hdr ! 1 = 1 \<and> hdr ! 2 = 6 then do {
          mac \<leftarrow> mac_text msg 28; Some (a1\<lparr>dhcp_client_mac := put_str (dhcp_client_mac a1) mac\<rparr>)
        } else Some a1) = Some a2"
    using mac by (simp add: a2_def)
  finally have dec: "app_dhcp_decode_udp (Some msg) ?n = Some (DECODE_OK, (foldl item_apply a2 items)
      \<lparr>summary := put_str (summary (foldl item_apply a2 items)) (dhcp_summary (foldl item_apply a2 items))\<rparr>)"
    by (simp add: scan)
  have a2: "dhcp_transaction_id a2 = dhcp_transaction_id a1" "app_protocol a2 = app_protocol a1"
    "dhcp_client_ip a2 = dhcp_client_ip a1" "dhcp_your_ip a2 = dhcp_your_ip a1" "dhcp_server_ip a2 = dhcp_server_ip a1"
    "dhcp_requested_ip a2 = replicate 46 0" "dhcp_message_type a2 = 0"
    using z by (simp_all add: a2_def a1_def)
  have "cstr (replicate 46 0) = []" by (simp add: cstr_def)
  moreover have "length (dhcp_requested_ip a2) = 46" using a2 by simp
  note items_result [OF this refl, of items]
  ultimately show ?thesis
    using dec a2 by (simp add: a1_def cstr_ip)
qed

lemma dhcp_message_roundtrip_witness:
  "\<exists>a. app_dhcp_decode_udp (Some ((1 # replicate 235 7) @ dhcp_magic_cookie @ [0, 53, 1, 3, 50, 4, 10, 0, 0, 9] @ [255])) 251 =
      Some (DECODE_OK, a) \<and> dhcp_message_type a = 3 \<and> cstr (dhcp_requested_ip a) = ipv4_text 10 0 0 9"
  using dhcp_message_roundtrip [of "1 # replicate 235 7" "[Dhcp_pad, Dhcp_opt 53 [3], Dhcp_opt 50 [10, 0, 0, 9]]" "[255]"]
  by (auto simp: dhcp_magic_cookie_def)

end
