(* ===== verification/App_Quic.thy ===== *)
theory App_Quic
  imports App_Contract
begin

text \<open>
  \<open>src/app_quic.c\<close>: the clear prefix of a QUIC long-header Initial packet.
\<close>

section \<open>The decoder\<close>

text \<open>\<open>snprintf (out + written, out_size - written, "%02x", b)\<close> with at least three bytes of room.\<close>

fun format_hex_loop :: "bytes \<Rightarrow> nat \<Rightarrow> nat \<Rightarrow> bytes \<Rightarrow> nat \<Rightarrow> bytes option" where
  "format_hex_loop d off 0 out written = Some out"
| "format_hex_loop d off (Suc len) out written =
     (if written + 2 \<ge> length out then Some out
      else do {
        b \<leftarrow> rd d off;
        out1 \<leftarrow> blit out written (hex_fixed 2 (unat b) @ [0]);
        format_hex_loop d (off + 1) len out1 (written + 2)
      })"

definition format_hex :: "bytes \<Rightarrow> nat \<Rightarrow> nat \<Rightarrow> bytes \<Rightarrow> bytes option" where
  "format_hex d off len out =
     do { out0 \<leftarrow> wr out 0 0; format_hex_loop d off len out0 0 }"

text \<open>The result with the offset behind the id and the text.\<close>

definition read_connection_id :: "bytes \<Rightarrow> nat \<Rightarrow> nat \<Rightarrow> bytes \<Rightarrow> (app_decode_result \<times> nat \<times> bytes) option" where
  "read_connection_id d n off out_text =
     need (read_u8_at d n off) (Some (DECODE_NEED_MORE, off, out_text)) (\<lambda>id_length off1.
       if id_length > 20 then Some (DECODE_MALFORMED, off1, out_text)
       else if \<not> remaining n off1 (unat id_length) then Some (DECODE_NEED_MORE, off1, out_text)
       else do {
         txt \<leftarrow> format_hex d off1 (unat id_length) out_text;
         Some (DECODE_OK, off1 + unat id_length, txt)
       })"

definition quic_summary :: "app_info \<Rightarrow> bytes" where
  "quic_summary a = asc ''QUIC Initial version=0x'' @ hex_fixed 8 (unat (quic_version a)) @ asc '' dcid='' @
     cstr (quic_dcid a) @ asc '' scid='' @ cstr (quic_scid a)"

definition app_quic_decode_initial :: decoder where
  "app_quic_decode_initial data n =
     (case data of None \<Rightarrow> Some (DECODE_NO_MATCH, app_info_clear)
      | Some d \<Rightarrow>
      if n = 0 then Some (DECODE_NO_MATCH, app_info_clear)
      else
        need (read_u8_at d n 0) (Some (DECODE_NEED_MORE, app_info_clear)) (\<lambda>first_byte off.
        if first_byte AND 0xc0 \<noteq> 0xc0 then Some (DECODE_NO_MATCH, app_info_clear)
        else if first_byte AND 0x30 \<noteq> 0x00 then Some (DECODE_NO_MATCH, app_info_clear)
        else
        need (read_u32_at d n off) (Some (DECODE_NEED_MORE, app_info_clear)) (\<lambda>version off1.
        if version = 0 then Some (DECODE_NO_MATCH, app_info_clear\<lparr>quic_version := version\<rparr>)
        else do {
          let a = app_info_clear\<lparr>quic_version := version, app_protocol := APP_PROTO_QUIC\<rparr>;
          (r1, off2, dcid) \<leftarrow> read_connection_id d n off1 (quic_dcid a);
          if r1 \<noteq> DECODE_OK then Some (r1, app_info_clear)
          else do {
            (r2, off3, scid) \<leftarrow> read_connection_id d n off2 (quic_scid a);
            if r2 \<noteq> DECODE_OK then Some (r2, app_info_clear)
            else do {
              let a1 = a\<lparr>quic_dcid := dcid, quic_scid := scid\<rparr>;
              Some (DECODE_OK, a1\<lparr>summary := put_str (summary a1) (quic_summary a1)\<rparr>)
            }
          }
        })))"

section \<open>Safety\<close>

definition hex_text :: "bytes \<Rightarrow> bytes" where
  "hex_text bs = concat (map (\<lambda>b. hex_fixed 2 (unat b)) bs)"

lemma length_hex_text [simp]: "length (hex_text bs) = 2 * length bs"
  by (induction bs) (simp_all add: hex_text_def)

lemma format_hex_loop_in:
  "off + len \<le> length d \<Longrightarrow> out = pre @ 0 # post \<Longrightarrow> written = length pre \<Longrightarrow> 2 * len \<le> length post \<Longrightarrow>
    format_hex_loop d off len out written =
      Some (pre @ hex_text (take len (drop off d)) @ 0 # drop (2 * len) post)"
proof (induction len arbitrary: off out written pre post)
  case 0
  then show ?case by (simp add: hex_text_def)
next
  case (Suc len)
  obtain x y post' where p: "post = x # y # post'" using Suc.prems(4) by (cases post; cases "tl post") auto
  let ?h = "hex_fixed 2 (unat (d ! off))"
  have r: "rd d off = Some (d ! off)" using Suc.prems(1) by (simp add: rd_def)
  have b: "blit out written (?h @ [0]) = Some ((pre @ ?h) @ 0 # post')"
    using Suc.prems(2,3) p by (simp add: blit_def)
  have tk: "take (Suc len) (drop off d) = d ! off # take len (drop (off + 1) d)"
    using Suc.prems(1) by (simp add: Cons_nth_drop_Suc [symmetric])
  have "format_hex_loop d (off + 1) len ((pre @ ?h) @ 0 # post') (written + 2) =
      Some ((pre @ ?h) @ hex_text (take len (drop (off + 1) d)) @ 0 # drop (2 * len) post')"
    using Suc.prems p by (intro Suc.IH) auto
  then show ?case
    using Suc.prems(2,3) p r b tk by (simp add: hex_text_def)
qed

lemma format_hex_in:
  assumes "off + len \<le> length d" "length out = 41" "len \<le> 20"
  shows "format_hex d off len out = Some (hex_text (take len (drop off d)) @ 0 # drop (2 * len + 1) out)"
proof -
  obtain x post where "out = x # post" using assms(2) by (cases out) auto
  then show ?thesis
    using format_hex_loop_in [of off len d "0 # post" "[]" post 0] assms by (simp add: format_hex_def wr_def)
qed

lemma read_connection_id_in:
  assumes n: "n \<le> length d" and out: "terminated 41 out"
  shows "\<exists>r off' txt. read_connection_id d n off out = Some (r, off', txt) \<and> terminated 41 txt"
proof -
  have l: "length out = 41" using out by (simp add: terminated_def)
  have "\<exists>txt. format_hex d (off + 1) (unat b) out = Some txt \<and> terminated 41 txt"
    if "\<not> b > 20" "remaining n (off + 1) (unat b)" for b :: u8
  proof -
    have b: "unat b \<le> 20" using that(1) by (simp add: not_less word_le_nat_alt)
    then have "format_hex d (off + 1) (unat b) out =
        Some (hex_text (take (unat b) (drop (off + 1) d)) @ 0 # drop (2 * unat b + 1) out)"
      using that(2) n l by (intro format_hex_in) (auto simp: remaining_def)
    moreover have "length (take (unat b) (drop (off + 1) d)) = unat b" using that(2) n by (auto simp: remaining_def)
    ultimately show ?thesis using b l by (simp add: terminated_def)
  qed
  with out show ?thesis by (simp add: read_connection_id_def read_at_in [OF n]) fastforce
qed

lemma quic_decode_safe:
  assumes n: "n \<le> length d"
  shows "decoded_as APP_PROTO_QUIC (app_quic_decode_initial (Some d) n)"
proof -
  obtain r1 off1 t1 where 1: "read_connection_id d n 5 (quic_dcid app_info_zero) = Some (r1, off1, t1)" "terminated 41 t1"
    using read_connection_id_in [OF n, of "quic_dcid app_info_zero" 5] by auto
  obtain r2 off2 t2 where 2: "read_connection_id d n off1 (quic_scid app_info_zero) = Some (r2, off2, t2)" "terminated 41 t2"
    using read_connection_id_in [OF n, of "quic_scid app_info_zero" off1] by auto
  show ?thesis
    using 1 2 by (auto simp: app_quic_decode_initial_def read_at_in [OF n] Let_def app_info_ok_def)
qed

interpretation quic: app_decoder app_quic_decode_initial APP_PROTO_QUIC
  by unfold_locales (simp_all add: quic_decode_safe, simp add: app_quic_decode_initial_def)



section \<open>What a packet says\<close>

definition put32 :: "u32 \<Rightarrow> bytes" where
  "put32 w = [ucast (drop_bit 24 w), ucast (drop_bit 16 w), ucast (drop_bit 8 w), ucast w]"

lemma be32_put32: "be32 (ucast (drop_bit 24 w)) (ucast (drop_bit 16 w)) (ucast (drop_bit 8 w)) (ucast w) = w"
proof (rule bit_word_eqI)
  fix i assume i: "i < LENGTH(32)"
  consider "i < 8" | "8 \<le> i" "i < 16" | "16 \<le> i" "i < 24" | "24 \<le> i" "i < 32" using i by fastforce
  then show "bit (be32 (ucast (drop_bit 24 w)) (ucast (drop_bit 16 w)) (ucast (drop_bit 8 w)) (ucast w)) i \<longleftrightarrow> bit w i"
    by cases (auto simp: be32_def bit_simps)
qed

definition enc_initial :: "u8 \<Rightarrow> u32 \<Rightarrow> bytes \<Rightarrow> bytes \<Rightarrow> bytes" where
  "enc_initial first version dcid scid = first # put32 version @ vec8 dcid @ vec8 scid"

lemma hex_text_no_nul: "0 \<notin> set (hex_text bs)"
  by (induction bs) (simp_all add: hex_text_def)

lemma read_connection_id_exact:
  assumes u: "unread d n off (vec8 x @ v)" and x: "length x \<le> 20" and out: "length out = 41"
  shows "\<exists>txt. read_connection_id d n off out = Some (DECODE_OK, off + length (vec8 x), txt) \<and> cstr txt = hex_text x"
proof -
  obtain w where w: "read_u8_at d n off = Some (Some w, off + 1)" "unat w = length x"
    and u1: "unread d n (off + 1) (x @ v)"
    using unread_vec8 [OF u] x by auto
  have tk: "take (length x) (drop (off + 1) d) = x" "length x \<le> n - (off + 1)" "n \<le> length d" "off + 1 \<le> n"
    using unread_append(2,3) [OF u1] u1 by (auto simp: unread_def)
  then have f: "format_hex d (off + 1) (length x) out = Some (hex_text x @ 0 # drop (2 * length x + 1) out)"
    using x out by (subst format_hex_in) auto
  have "\<not> w > 20" using w(2) x by (simp add: word_less_nat_alt)
  moreover have "remaining n (off + 1) (length x)" using tk by (simp add: remaining_def)
  ultimately show ?thesis
    using w f by (auto simp: read_connection_id_def cstr_append hex_text_no_nul)
qed

section \<open>Properties\<close>

text \<open>C24. Decoding recovers an Initial packet: for every first byte with the long-header form and the
  Initial type, every version but 0 and every pair of connection ids of at most 20 bytes, whatever
  follows them, the decoder reports QUIC with that version and the lower-case hexadecimal text of
  both ids.\<close>

theorem quic_initial_roundtrip:
  assumes "first AND 0xc0 = 0xc0" "first AND 0x30 = 0" "version \<noteq> 0" "length dcid \<le> 20" "length scid \<le> 20"
  shows "\<exists>a. app_quic_decode_initial (Some (enc_initial first version dcid scid @ rest))
        (length (enc_initial first version dcid scid @ rest)) = Some (DECODE_OK, a) \<and>
      app_protocol a = APP_PROTO_QUIC \<and> quic_version a = version \<and>
      cstr (quic_dcid a) = hex_text dcid \<and> cstr (quic_scid a) = hex_text scid"
proof -
  define d where "d = enc_initial first version dcid scid @ rest"
  let ?n = "length d"
  have d: "d = first # put32 version @ vec8 dcid @ vec8 scid @ rest" by (simp add: d_def enc_initial_def)
  have r: "read_u8_at d ?n 0 = Some (Some first, 1)" "read_u32_at d ?n 1 = Some (Some version, 5)"
    using be32_put32 [of version] by (simp_all add: read_at_in remaining_def d put32_def)
  have u: "unread d ?n 5 (vec8 dcid @ vec8 scid @ rest)" by (simp add: unread_def d put32_def)
  obtain t1 where 1: "read_connection_id d ?n 5 (quic_dcid app_info_zero) =
      Some (DECODE_OK, 5 + length (vec8 dcid), t1)" "cstr t1 = hex_text dcid"
    using read_connection_id_exact [OF u assms(4), of "quic_dcid app_info_zero"] by (auto simp: app_info_zero_def)
  obtain off2 t2 where 2: "read_connection_id d ?n (5 + length (vec8 dcid)) (quic_scid app_info_zero) =
      Some (DECODE_OK, off2, t2)" "cstr t2 = hex_text scid"
    using read_connection_id_exact [OF unread_append(1) [OF u] assms(5), of "quic_scid app_info_zero"]
    by (auto simp: app_info_zero_def)
  show ?thesis
    using assms(1-3) r 1 2 by (simp add: app_quic_decode_initial_def d_def [symmetric] Let_def) (simp add: d)
qed

definition ex_initial :: bytes where
  "ex_initial = enc_initial 0xc3 1 [0xab, 1] [] @ [9]"

lemma quic_initial_roundtrip_witness:
  "\<exists>a. app_quic_decode_initial (Some ex_initial) (length ex_initial) = Some (DECODE_OK, a) \<and>
     cstr (quic_dcid a) = [97, 98, 48, 49]"
proof -
  have "hex_text [0xab, 1] = [97, 98, 48, 49]" by code_simp
  then show ?thesis
    unfolding ex_initial_def using quic_initial_roundtrip [of "0xc3" 1 "[0xab, 1]" "[]" "[9]"] by fastforce
qed

end
