(* ===== verification/App_Decoder.thy ===== *)
theory App_Decoder
  imports App_Dns App_Tls App_Http App_Dhcp App_Quic
begin

text \<open>
  \<open>src/app_decoder.c\<close>: which decoder sees a payload. Ports and transport give a preferred
  protocol, signatures the rest. Everything here rests on the contract \<open>app_decoder\<close> that each of
  the decoders interprets, not on their bodies.
\<close>

section \<open>The dispatcher\<close>

definition port_matches :: "packet_info \<Rightarrow> u16 \<Rightarrow> bool" where
  "port_matches p port \<longleftrightarrow> has_ports p \<and> (src_port p = port \<or> dst_port p = port)"

definition payload_starts_with :: "bytes \<Rightarrow> nat \<Rightarrow> bytes \<Rightarrow> bool option" where
  "payload_starts_with d n prefix =
     (if n < length prefix then Some False
      else do { s \<leftarrow> rd_slice d 0 (length prefix); Some (s = prefix) })"

definition http_prefixes :: "bytes list" where
  "http_prefixes = [asc ''GET '', asc ''POST '', asc ''PUT '', asc ''DELETE '', asc ''HEAD '', asc ''OPTIONS '',
     asc ''PATCH '', asc ''TRACE '', asc ''CONNECT '', asc ''HTTP/'']"

fun starts_with_any :: "bytes \<Rightarrow> nat \<Rightarrow> bytes list \<Rightarrow> bool option" where
  "starts_with_any d n [] = Some False"
| "starts_with_any d n (x # xs) =
     do { b \<leftarrow> payload_starts_with d n x; if b then Some True else starts_with_any d n xs }"

definition payload_starts_with_http :: "bytes \<Rightarrow> nat \<Rightarrow> bool option" where
  "payload_starts_with_http d n = starts_with_any d n http_prefixes"

definition payload_starts_with_tls :: "bytes \<Rightarrow> nat \<Rightarrow> bool option" where
  "payload_starts_with_tls d n = (if n > 0 then do { b \<leftarrow> rd d 0; Some (b = 0x16) } else Some False)"

definition dns_decode_result_is_strong_match :: "app_decode_result \<Rightarrow> app_info \<Rightarrow> bool option" where
  "dns_decode_result_is_strong_match result a =
     (if result = DECODE_OK \<and> app_protocol a = APP_PROTO_DNS \<and> dns_question_count a > 0
      then do { c \<leftarrow> rd (dns_query_name a) 0; Some (c \<noteq> 0) } else Some False)"

definition preferred_result :: "(app_decode_result \<times> app_info) option \<Rightarrow> AppProtocol \<Rightarrow>
    (app_decode_result \<times> app_info) option" where
  "preferred_result m preferred =
     do { (result, a) \<leftarrow> m;
       Some (if result = DECODE_NO_MATCH \<and> preferred \<noteq> APP_PROTO_UNKNOWN then DECODE_MALFORMED else result, a) }"

text \<open>The common tail: a DNS message with a question, or nothing.\<close>

definition sniff_dns :: "bytes \<Rightarrow> nat \<Rightarrow> (app_decode_result \<times> app_info) option" where
  "sniff_dns d n =
     do {
       (result, a) \<leftarrow> app_dns_decode_message (Some d) n;
       strong \<leftarrow> dns_decode_result_is_strong_match result a;
       Some (if strong then (result, a) else (DECODE_NO_MATCH, app_info_clear))
     }"

definition app_decode_buffer :: "AppProtocol \<Rightarrow> decoder" where
  "app_decode_buffer preferred data n =
     (case data of None \<Rightarrow> Some (DECODE_NO_MATCH, app_info_clear)
      | Some d \<Rightarrow>
      if n = 0 then
        Some (if preferred = APP_PROTO_UNKNOWN then DECODE_NO_MATCH else DECODE_NEED_MORE, app_info_clear)
      else if preferred = APP_PROTO_HTTP then preferred_result (app_http_decode data n) preferred
      else if preferred = APP_PROTO_TLS then preferred_result (app_tls_decode_client_hello data n) preferred
      else if preferred = APP_PROTO_DNS then preferred_result (app_dns_decode_message data n) preferred
      else if preferred = APP_PROTO_MDNS then preferred_result (app_dns_decode_mdns_message data n) preferred
      else if preferred = APP_PROTO_DHCP then preferred_result (app_dhcp_decode_udp data n) preferred
      else if preferred = APP_PROTO_QUIC then preferred_result (app_quic_decode_initial data n) preferred
      else do {
        (r1, a1) \<leftarrow> app_http_decode data n;
        if r1 = DECODE_OK \<or> r1 = DECODE_NEED_MORE then Some (r1, a1)
        else do {
          (r2, a2) \<leftarrow> app_tls_decode_client_hello data n;
          if r2 = DECODE_OK \<or> r2 = DECODE_NEED_MORE then Some (r2, a2)
          else sniff_dns d n
        }
      })"

definition app_decode_packet :: "packet_info \<Rightarrow> (app_decode_result \<times> app_info) option" where
  "app_decode_packet p =
     (if \<not> has_payload p \<or> payload p = None \<or> payload_decode_length p = 0
      then Some (DECODE_NO_MATCH, app_info_clear)
      else
        let data = payload p; n = payload_decode_length p in
        if protocol p = PROTO_TCP \<and> (port_matches p 80 \<or> port_matches p 8080 \<or> port_matches p 8000) then
          preferred_result (app_http_decode data n) APP_PROTO_HTTP
        else if protocol p = PROTO_TCP \<and> (port_matches p 443 \<or> port_matches p 8443) then
          preferred_result (app_tls_decode_client_hello data n) APP_PROTO_TLS
        else if protocol p = PROTO_UDP \<and> port_matches p 53 then
          preferred_result (app_dns_decode_udp data n) APP_PROTO_DNS
        else if protocol p = PROTO_TCP \<and> port_matches p 53 then
          preferred_result (app_dns_decode_tcp_frame data n) APP_PROTO_DNS
        else if protocol p = PROTO_UDP \<and> port_matches p 5353 then
          preferred_result (app_dns_decode_mdns_udp data n) APP_PROTO_MDNS
        else if protocol p = PROTO_UDP \<and> (port_matches p 67 \<or> port_matches p 68) then
          preferred_result (app_dhcp_decode_udp data n) APP_PROTO_DHCP
        else if protocol p = PROTO_UDP \<and> (port_matches p 443 \<or> port_matches p 8443) then
          preferred_result (app_quic_decode_initial data n) APP_PROTO_QUIC
        else do {
          d \<leftarrow> data;
          http \<leftarrow> payload_starts_with_http d n;
          (r1, a1) \<leftarrow> (if http then app_http_decode data n else Some (DECODE_NO_MATCH, app_info_clear));
          if r1 \<noteq> DECODE_NO_MATCH then Some (r1, a1)
          else do {
            tls \<leftarrow> payload_starts_with_tls d n;
            (r2, a2) \<leftarrow> (if tls then app_tls_decode_client_hello data n else Some (DECODE_NO_MATCH, app_info_clear));
            if r2 \<noteq> DECODE_NO_MATCH then Some (r2, a2)
            else sniff_dns d n
          }
        })"

definition app_decode_stream :: "packet_info \<Rightarrow> decoder" where
  "app_decode_stream p data n =
     (if data = None \<or> n = 0 then Some (DECODE_NO_MATCH, app_info_clear)
      else if protocol p = PROTO_TCP \<and> (port_matches p 80 \<or> port_matches p 8080 \<or> port_matches p 8000) then
        preferred_result (app_http_decode data n) APP_PROTO_HTTP
      else if protocol p = PROTO_TCP \<and> (port_matches p 443 \<or> port_matches p 8443) then
        preferred_result (app_tls_decode_client_hello data n) APP_PROTO_TLS
      else if protocol p = PROTO_TCP \<and> port_matches p 53 then
        preferred_result (app_dns_decode_tcp_frame data n) APP_PROTO_DNS
      else app_decode_buffer APP_PROTO_UNKNOWN data n)"

definition app_decode_status_from_result ::
    "app_decode_result \<Rightarrow> packet_info \<Rightarrow> app_info \<Rightarrow> AppDecodeStatus" where
  "app_decode_status_from_result result p a =
     (if result = DECODE_OK \<and> app_protocol a \<noteq> APP_PROTO_UNKNOWN then STATUS_DECODED
      else if result = DECODE_NEED_MORE then
        (if has_payload p \<and> payload_capture_length p > payload_decode_length p then STATUS_TRUNCATED
         else STATUS_NEED_MORE)
      else if result = DECODE_MALFORMED then STATUS_MALFORMED
      else STATUS_NO_MATCH)"

section \<open>The dispatcher keeps the contract\<close>

text \<open>A decoder's outcome without naming its protocol: defined, terminated texts, a protocol exactly on success.\<close>

definition decoded :: "(app_decode_result \<times> app_info) option \<Rightarrow> bool" where
  "decoded out \<longleftrightarrow> (\<exists>r a. out = Some (r, a) \<and> app_info_ok a \<and>
     (r = DECODE_OK \<longleftrightarrow> app_protocol a \<noteq> APP_PROTO_UNKNOWN))"

lemma decoded_Some [simp]:
  "decoded (Some (r, a)) \<longleftrightarrow> app_info_ok a \<and> (r = DECODE_OK \<longleftrightarrow> app_protocol a \<noteq> APP_PROTO_UNKNOWN)"
  by (simp add: decoded_def)

lemma decoded_as_decoded: "decoded_as proto out \<Longrightarrow> proto \<noteq> APP_PROTO_UNKNOWN \<Longrightarrow> decoded out"
  by (auto simp: decoded_as_def split: if_splits)

lemma decoded_preferred: "decoded out \<Longrightarrow> decoded (preferred_result out preferred)"
  by (auto simp: decoded_def preferred_result_def split: if_splits)

text \<open>What the dispatcher needs of one decoder, from the locale.\<close>

context app_decoder
begin

lemma preferred_decoded: "proto \<noteq> APP_PROTO_UNKNOWN \<Longrightarrow> n \<le> length d \<Longrightarrow>
    decoded (preferred_result (decode (Some d) n) preferred)"
  by (intro decoded_preferred decoded_as_decoded [OF decode_safe])

lemma decode_decoded: "proto \<noteq> APP_PROTO_UNKNOWN \<Longrightarrow> n \<le> length d \<Longrightarrow> decoded (decode (Some d) n)"
  by (intro decoded_as_decoded [OF decode_safe])

end

lemmas preferred_decoded = http.preferred_decoded [simplified] tls.preferred_decoded [simplified]
  dns_message.preferred_decoded [simplified] mdns_message.preferred_decoded [simplified]
  dns_udp.preferred_decoded [simplified] mdns_udp.preferred_decoded [simplified]
  dns_tcp.preferred_decoded [simplified] dhcp.preferred_decoded [simplified] quic.preferred_decoded [simplified]

lemma decodedD: "decoded out \<Longrightarrow> \<exists>r a. out = Some (r, a) \<and> app_info_ok a \<and> (r = DECODE_OK \<longleftrightarrow> app_protocol a \<noteq> APP_PROTO_UNKNOWN)"
  by (simp add: decoded_def)

lemma payload_starts_with_in:
  "n \<le> length d \<Longrightarrow> payload_starts_with d n x = Some (length x \<le> n \<and> take (length x) d = x)"
  by (auto simp: payload_starts_with_def rd_slice_def)

lemma starts_with_any_in:
  "n \<le> length d \<Longrightarrow> starts_with_any d n xs = Some (\<exists>x \<in> set xs. length x \<le> n \<and> take (length x) d = x)"
  by (induction xs) (auto simp: payload_starts_with_in)

lemma sniff_dns_decoded: "n \<le> length d \<Longrightarrow> decoded (sniff_dns d n)"
proof -
  assume n: "n \<le> length d"
  obtain r a where a: "app_dns_decode_message (Some d) n = Some (r, a)" "app_info_ok a"
    "app_protocol a = (if r = DECODE_OK then APP_PROTO_DNS else APP_PROTO_UNKNOWN)"
    using dns_message.decode_safe [OF n] by (auto dest: decoded_asD)
  have "dns_query_name a \<noteq> []" using a(2) by (auto simp: app_info_ok_def terminated_def)
  then show ?thesis
    using a by (auto simp: sniff_dns_def dns_decode_result_is_strong_match_def rd_def)
qed

lemma app_decode_buffer_decoded:
  assumes n: "n \<le> length d"
  shows "decoded (app_decode_buffer preferred (Some d) n)"
proof -
  obtain r1 a1 where 1: "app_http_decode (Some d) n = Some (r1, a1)" "app_info_ok a1"
    "r1 = DECODE_OK \<longleftrightarrow> app_protocol a1 \<noteq> APP_PROTO_UNKNOWN"
    using http.decode_decoded [OF _ n] by (auto dest: decodedD)
  obtain r2 a2 where 2: "app_tls_decode_client_hello (Some d) n = Some (r2, a2)" "app_info_ok a2"
    "r2 = DECODE_OK \<longleftrightarrow> app_protocol a2 \<noteq> APP_PROTO_UNKNOWN"
    using tls.decode_decoded [OF _ n] by (auto dest: decodedD)
  note 3 = sniff_dns_decoded [OF n]
  show ?thesis
    using 1 2 3 preferred_decoded [OF n]
    by (cases "n = 0"; cases preferred) (auto simp: app_decode_buffer_def)
qed

lemma app_decode_packet_decoded:
  assumes "has_payload p \<Longrightarrow> payload p = Some d \<Longrightarrow> payload_decode_length p \<le> length d"
    and "payload p = Some d"
  shows "decoded (app_decode_packet p)"
proof (cases "has_payload p \<and> payload_decode_length p \<noteq> 0")
  case True
  define n where "n = payload_decode_length p"
  have n: "n \<le> length d" "n \<noteq> 0" using True assms by (simp_all add: n_def)
  obtain r1 a1 where 1: "app_http_decode (Some d) n = Some (r1, a1)" "decoded (Some (r1, a1))"
    using http.decode_decoded [OF _ n(1)] by (auto dest: decodedD)
  obtain r2 a2 where 2: "app_tls_decode_client_hello (Some d) n = Some (r2, a2)" "decoded (Some (r2, a2))"
    using tls.decode_decoded [OF _ n(1)] by (auto dest: decodedD)
  obtain h t where sig: "payload_starts_with_http d n = Some h" "payload_starts_with_tls d n = Some t"
  proof -
    have "d \<noteq> []" using n by auto
    then show ?thesis
      using that n by (simp add: payload_starts_with_http_def starts_with_any_in payload_starts_with_tls_def rd_def)
  qed
  have tail: "decoded (do {
      http \<leftarrow> payload_starts_with_http d n;
      (r1, a1) \<leftarrow> (if http then app_http_decode (Some d) n else Some (DECODE_NO_MATCH, app_info_clear));
      if r1 \<noteq> DECODE_NO_MATCH then Some (r1, a1)
      else do {
        tls \<leftarrow> payload_starts_with_tls d n;
        (r2, a2) \<leftarrow> (if tls then app_tls_decode_client_hello (Some d) n else Some (DECODE_NO_MATCH, app_info_clear));
        if r2 \<noteq> DECODE_NO_MATCH then Some (r2, a2)
        else sniff_dns d n
      } })"
    using 1 2 sig sniff_dns_decoded [OF n(1)]
    by (cases h; cases t; cases "r1 = DECODE_NO_MATCH"; cases "r2 = DECODE_NO_MATCH") simp_all
  show ?thesis
    unfolding app_decode_packet_def n_def [symmetric] assms(2) Let_def
    using True tail preferred_decoded [OF n(1)] n(2) by (simp split: if_split)
qed (auto simp: app_decode_packet_def)

lemma app_decode_stream_decoded:
  "n \<le> length d \<Longrightarrow> decoded (app_decode_stream p (Some d) n)"
  using preferred_decoded [of n d] app_decode_buffer_decoded [of n d]
  by (auto simp: app_decode_stream_def)


section \<open>Packet and stream\<close>

lemma method_prefix_first:
  "0 < n \<Longrightarrow> d = c # d' \<Longrightarrow> n \<le> length d \<Longrightarrow> \<forall>m \<in> set ms. m \<noteq> [] \<and> hd m \<noteq> c \<Longrightarrow>
    maybe_method_prefix d n ms = Some False"
proof (induction ms)
  case (Cons m ms)
  obtain x m' where m: "m = x # m'" "x \<noteq> c" using Cons.prems(4) by (cases m) auto
  obtain k where k: "n = Suc k" using Cons.prems(1) by (cases n) auto
  show ?case using Cons m k by (auto simp: rd_slice_def)
qed simp

lemma not_http_first:
  assumes "0 < n" "n \<le> length d" "d ! 0 = 0x16"
  shows "app_http_decode (Some d) n = Some (DECODE_NO_MATCH, app_info_zero)"
proof -
  obtain d' where d: "d = 0x16 # d'" using assms by (cases d) auto
  have "maybe_method_prefix d n http_methods = Some False"
    by (rule method_prefix_first [OF assms(1) d assms(2)]) (simp add: http_methods_def asc_values)
  moreover have "starts_with d n (asc ''HTTP/'') = Some False"
    using assms(2) by (simp add: starts_with_def rd_slice_def d asc_values)
  ultimately have "looks_like_http d n = Some False"
    by (simp add: looks_like_http_def maybe_http_request_prefix_def)
  then show ?thesis using assms(1) by (simp add: app_http_decode_def)
qed

lemma sniff_dns_protocol:
  "n \<le> length d \<Longrightarrow> sniff_dns d n = Some (DECODE_OK, a) \<Longrightarrow> app_protocol a = APP_PROTO_DNS"
  by (auto simp: sniff_dns_def dns_decode_result_is_strong_match_def split: bind_splits if_splits)

section \<open>Properties\<close>

text \<open>C25. Every entry point of the dispatcher, for every payload, every window inside it and every
  preferred protocol, touches no memory outside the window, returns texts that are terminated within
  their arrays, and reports a known protocol exactly when it returns OK.\<close>

theorem app_decode_safe:
  assumes "n \<le> length d"
  shows "decoded (app_decode_buffer preferred (Some d) n) \<and> decoded (app_decode_stream p (Some d) n) \<and>
    (payload p = Some d \<and> payload_decode_length p = n \<longrightarrow> decoded (app_decode_packet p))"
  using assms app_decode_buffer_decoded app_decode_stream_decoded app_decode_packet_decoded by auto

definition ex_dns_packet :: packet_info where
  "ex_dns_packet = packet_info_zero\<lparr>protocol := PROTO_UDP, has_ports := True, src_port := 5000, dst_port := 53,
     has_payload := True, payload := Some [1, 2, 3], payload_decode_length := 2, payload_capture_length := 3\<rparr>"

lemma app_decode_safe_witness:
  "decoded (app_decode_buffer APP_PROTO_TLS (Some [1, 2, 3]) 2) \<and> decoded (app_decode_stream ex_dns_packet (Some [1, 2, 3]) 2) \<and>
   decoded (app_decode_packet ex_dns_packet)"
  using app_decode_safe [of 2 "[1, 2, 3]" APP_PROTO_TLS ex_dns_packet] by (simp add: ex_dns_packet_def)

text \<open>C26. The status that is reported for a packet says what happened: DECODED exactly when a protocol was
  recognised, TRUNCATED exactly when the decoder wanted more bytes than the window and the capture
  had them, NEED_MORE when the capture had none left, and never NOT_RUN.\<close>

theorem decode_status_exact:
  assumes "payload p = Some d" "payload_decode_length p \<le> length d" "app_decode_packet p = Some (r, a)"
  shows "(app_decode_status_from_result r p a = STATUS_DECODED \<longleftrightarrow> app_protocol a \<noteq> APP_PROTO_UNKNOWN) \<and>
    (app_decode_status_from_result r p a = STATUS_TRUNCATED \<longleftrightarrow>
      r = DECODE_NEED_MORE \<and> payload_decode_length p < payload_capture_length p) \<and>
    (app_decode_status_from_result r p a = STATUS_NEED_MORE \<longleftrightarrow>
      r = DECODE_NEED_MORE \<and> payload_capture_length p \<le> payload_decode_length p) \<and>
    app_decode_status_from_result r p a \<noteq> STATUS_NOT_RUN"
proof -
  have d: "r = DECODE_OK \<longleftrightarrow> app_protocol a \<noteq> APP_PROTO_UNKNOWN"
    using app_decode_packet_decoded [of p d] assms by simp
  have "r = DECODE_NEED_MORE \<Longrightarrow> has_payload p" using assms(3) by (auto simp: app_decode_packet_def split: if_splits)
  with d show ?thesis by (cases r) (auto simp: app_decode_status_from_result_def)
qed

lemma decode_status_exact_witness:
  "app_decode_packet ex_dns_packet = Some (DECODE_NEED_MORE, app_info_zero) \<and>
   app_decode_status_from_result DECODE_NEED_MORE ex_dns_packet app_info_zero = STATUS_TRUNCATED"
proof -
  have "app_decode_packet ex_dns_packet = Some (DECODE_NEED_MORE, app_info_zero)"
    by (simp add: app_decode_packet_def ex_dns_packet_def port_matches_def app_dns_decode_udp_def preferred_result_def
        app_dns_decode_message_def decode_dns_message_as_def)
  then show ?thesis
    using decode_status_exact [of ex_dns_packet "[1, 2, 3]" DECODE_NEED_MORE app_info_zero]
    by (simp add: ex_dns_packet_def)
qed

text \<open>C27. Packet-local and stream decoding agree on what they recognise: when the packet decoder accepts a
  TCP payload on a hinted port, or accepts it as HTTP or TLS on any port, the stream decoder applied
  to the same bytes gives the same result and the same metadata.\<close>

theorem stream_agrees_with_packet:
  assumes p: "payload p = Some d" "payload_decode_length p \<le> length d" "protocol p = PROTO_TCP"
    and ok: "app_decode_packet p = Some (DECODE_OK, a)"
    and rec: "app_protocol a = APP_PROTO_HTTP \<or> app_protocol a = APP_PROTO_TLS \<or> port_matches p 53"
  shows "app_decode_stream p (payload p) (payload_decode_length p) = Some (DECODE_OK, a)"
proof -
  let ?n = "payload_decode_length p"
  have n: "has_payload p" "?n \<noteq> 0" using ok by (auto simp: app_decode_packet_def split: if_splits)
  show ?thesis
  proof (cases "port_matches p 80 \<or> port_matches p 8080 \<or> port_matches p 8000 \<or> port_matches p 443 \<or>
      port_matches p 8443 \<or> port_matches p 53")
    case True
    then show ?thesis
      using ok p n by (auto simp: app_decode_packet_def app_decode_stream_def Let_def)
  next
    case False
    obtain r1 a1 where 1: "app_http_decode (Some d) ?n = Some (r1, a1)"
      using http.decode_defined [where data = "Some d" and n = ?n] p(2) by auto
    obtain h where h: "payload_starts_with_http d ?n = Some h"
      using p(2) by (auto simp: payload_starts_with_http_def starts_with_any_in)
    have t: "payload_starts_with_tls d ?n = Some (d ! 0 = 0x16)"
      using n p(2) by (auto simp: payload_starts_with_tls_def rd_def)
    have ok': "(if h \<and> r1 \<noteq> DECODE_NO_MATCH then Some (r1, a1)
        else do {
          (r2, a2) \<leftarrow> (if d ! 0 = 0x16 then app_tls_decode_client_hello (Some d) ?n else Some (DECODE_NO_MATCH, app_info_clear));
          if r2 \<noteq> DECODE_NO_MATCH then Some (r2, a2) else sniff_dns d ?n
        }) = Some (DECODE_OK, a)"
      using ok n p(1,3) False 1 h t by (auto simp: app_decode_packet_def Let_def split: if_splits)
    have buffer: "app_decode_stream p (Some d) ?n = app_decode_buffer APP_PROTO_UNKNOWN (Some d) ?n"
      using n False by (simp add: app_decode_stream_def)
    show ?thesis
    proof (cases "h \<and> r1 \<noteq> DECODE_NO_MATCH")
      case True
      then show ?thesis using ok' 1 n(2) by (simp add: p(1) buffer) (simp add: app_decode_buffer_def)
    next
      case no_http: False
      have "\<not> port_matches p 53" using False by simp
      with rec have known: "app_protocol a \<noteq> APP_PROTO_DNS" by auto
      have tls: "d ! 0 = 0x16" "app_tls_decode_client_hello (Some d) ?n = Some (DECODE_OK, a)"
        using ok' no_http known sniff_dns_protocol [OF p(2)] by (auto split: if_splits bind_splits)
      then have "app_http_decode (Some d) ?n = Some (DECODE_NO_MATCH, app_info_zero)"
        using not_http_first n(2) p(2) by simp
      then show ?thesis using tls n(2) by (simp add: p(1) buffer) (simp add: app_decode_buffer_def)
    qed
  qed
qed


definition ex_plain_hello :: client_hello where
  "ex_plain_hello = \<lparr>ch_version = 0x0303, ch_random = replicate 32 7, ch_session = [], ch_ciphers = [0x13, 0x01],
     ch_compressions = [0], ch_extensions = []\<rparr>"

definition ex_tls_packet :: packet_info where
  "ex_tls_packet = packet_info_zero\<lparr>protocol := PROTO_TCP, has_ports := True, src_port := 5000, dst_port := 9443,
     has_payload := True, payload := Some (enc_record 0x0301 ex_plain_hello),
     payload_decode_length := length (enc_record 0x0301 ex_plain_hello)\<rparr>"

lemma stream_agrees_with_packet_witness:
  "\<exists>a. app_decode_packet ex_tls_packet = Some (DECODE_OK, a) \<and>
     app_decode_stream ex_tls_packet (payload ex_tls_packet) (payload_decode_length ex_tls_packet) = Some (DECODE_OK, a)"
proof -
  let ?d = "enc_record 0x0301 ex_plain_hello"
  have "hello_wf ex_plain_hello" by (simp add: hello_wf_def ex_plain_hello_def enc_hello_def enc_exts_def)
  moreover have "drop_bit 8 (0x0301 :: u16) = 3" by simp
  ultimately obtain a where a: "app_tls_decode_client_hello (Some ?d) (length ?d) = Some (DECODE_OK, a)"
    "app_protocol a = APP_PROTO_TLS"
    using decode_hello [of ex_plain_hello "0x0301" ?d "[]"] by (simp add: ex_plain_hello_def)
  have first: "?d ! 0 = 0x16" "?d \<noteq> []" by (simp_all add: enc_record_def)
  have "payload_starts_with_http ?d (length ?d) = Some False"
    by (simp add: payload_starts_with_http_def starts_with_any_in)
      (simp add: http_prefixes_def asc_def enc_record_def)
  moreover have "payload_starts_with_tls ?d (length ?d) = Some True"
    using first by (simp add: payload_starts_with_tls_def rd_def)
  ultimately have ok: "app_decode_packet ex_tls_packet = Some (DECODE_OK, a)"
    using a(1) first(2) by (simp add: app_decode_packet_def ex_tls_packet_def port_matches_def)
  have p: "payload ex_tls_packet = Some ?d" "payload_decode_length ex_tls_packet \<le> length ?d"
    "protocol ex_tls_packet = PROTO_TCP" by (simp_all add: ex_tls_packet_def)
  from stream_agrees_with_packet [OF p ok] a(2) ok show ?thesis by blast
qed

end
