(* ===== verification/Parser.thy ===== *)
theory Parser
  imports Text Ipv4_Frag Flow
begin

text \<open>
  \<open>src/parser.c\<close>: from captured bytes to \<open>PacketInfo\<close>. Offsets are into the captured bytes, of which
  \<open>packet_len\<close> are valid; \<open>None\<close> is an access outside them or outside a field of the result.

  The platform is a parameter: the address families, the libpcap link types (those that the code
  uses under \<open>#ifdef\<close> are \<open>None\<close> when the macro is undefined) and the text of an IPv6 address, of
  which the code needs that it fits its 46-byte field (\<open>platform_ok\<close>). The static
  \<open>payload_decode_limit\<close> is an argument.
\<close>

record platform =
  net :: inet
  ntop6 :: "bytes \<Rightarrow> bytes"
  dlt_en10mb :: int
  dlt_raw :: int
  dlt_null :: int
  dlt_loop :: int
  dlt_ipv4 :: "int option"
  dlt_ipv6 :: "int option"
  dlt_linux_sll :: "int option"
  dlt_linux_sll2 :: "int option"

definition platform_ok :: "platform \<Rightarrow> bool" where
  "platform_ok P \<longleftrightarrow> inet_ok (net P) \<and> (\<forall>b. length (ntop6 P b) < 46 \<and> 0 \<notin> set (ntop6 P b))"

datatype network_layer = NETWORK_UNKNOWN | NETWORK_IPV4 | NETWORK_IPV6 | NETWORK_ARP

record ipv6_transport =
  next_header :: u8
  transport_offset :: nat
  transport_reachable :: bool

text \<open>\<open>inet_ntop\<close> on text that is already known: NULL when the field has no room for it.\<close>

definition ntop_into :: "bytes \<Rightarrow> bytes \<Rightarrow> bytes option" where
  "ntop_into dst txt = (if length dst \<le> length txt then None else Some (put_str dst txt))"

section \<open>Transport headers\<close>

definition read_u32_network :: "bytes \<Rightarrow> nat \<Rightarrow> u32 option" where
  "read_u32_network p i = do { b0 \<leftarrow> rd p i; b1 \<leftarrow> rd p (i + 1); b2 \<leftarrow> rd p (i + 2); b3 \<leftarrow> rd p (i + 3);
     Some (be32 b0 b1 b2 b3) }"

definition set_ipv4_protocol :: "u8 \<Rightarrow> packet_info \<Rightarrow> packet_info" where
  "set_ipv4_protocol n info =
     info\<lparr>protocol := (if n = 1 then PROTO_ICMP else if n = 6 then PROTO_TCP else if n = 17 then PROTO_UDP
       else PROTO_OTHER)\<rparr>"

definition set_ip_protocol :: "u8 \<Rightarrow> packet_info \<Rightarrow> packet_info" where
  "set_ip_protocol n info =
     info\<lparr>protocol := (if n = 1 \<or> n = 58 then PROTO_ICMP else if n = 6 then PROTO_TCP
       else if n = 17 then PROTO_UDP else PROTO_OTHER)\<rparr>"

definition parse_tcp_ports :: "bytes \<Rightarrow> nat \<Rightarrow> nat \<Rightarrow> packet_info \<Rightarrow> packet_info option" where
  "parse_tcp_ports packet packet_len off info =
     (if packet_len < off + 20 then Some info
      else do {
        sp \<leftarrow> read_u16_network packet off;
        dp \<leftarrow> read_u16_network packet (off + 2);
        Some (info\<lparr>src_port := sp, dst_port := dp, has_ports := True\<rparr>)
      })"

definition parse_tcp_sequence_and_flags :: "bytes \<Rightarrow> nat \<Rightarrow> nat \<Rightarrow> packet_info \<Rightarrow> packet_info option" where
  "parse_tcp_sequence_and_flags packet packet_len off info =
     (if packet_len < off + 20 then Some info
      else do {
        seq \<leftarrow> read_u32_network packet (off + 4);
        flags \<leftarrow> rd packet (off + 13);
        Some (info\<lparr>tcp_sequence := seq, tcp_flags := flags AND 0x3f, has_tcp_sequence := True\<rparr>)
      })"

definition parse_udp_ports :: "bytes \<Rightarrow> nat \<Rightarrow> nat \<Rightarrow> packet_info \<Rightarrow> packet_info option" where
  "parse_udp_ports packet packet_len off info =
     (if packet_len < off + 8 then Some info
      else do {
        len \<leftarrow> read_u16_network packet (off + 4);
        if len < 8 then Some info
        else do {
          sp \<leftarrow> read_u16_network packet off;
          dp \<leftarrow> read_u16_network packet (off + 2);
          Some (info\<lparr>src_port := sp, dst_port := dp, has_ports := True\<rparr>)
        }
      })"

definition parse_payload :: "nat \<Rightarrow> bytes \<Rightarrow> nat \<Rightarrow> nat \<Rightarrow> packet_info \<Rightarrow> packet_info option" where
  "parse_payload limit packet packet_len off info =
     (if packet_len \<le> off then Some info
      else do {
        let available = packet_len - off;
        let decode = (if available > limit then limit else available);
        let prev = (if available > 256 then 256 else available);
        bytes \<leftarrow> rd_slice packet off prev;
        preview \<leftarrow> blit (payload_preview info) 0 bytes;
        Some (info\<lparr>has_payload := (available > 0), payload := Some (drop off packet),
          payload_capture_length := available, payload_decode_length := decode,
          payload_preview_length := prev, payload_preview := preview\<rparr>)
      })"

definition parse_tcp_payload :: "nat \<Rightarrow> bytes \<Rightarrow> nat \<Rightarrow> nat \<Rightarrow> packet_info \<Rightarrow> packet_info option" where
  "parse_tcp_payload limit packet packet_len off info =
     (if packet_len < off + 20 then Some info
      else do {
        b \<leftarrow> rd packet (off + 12);
        let header_len = unat (drop_bit 4 b) * 4;
        if header_len < 20 then Some info
        else if packet_len < off + header_len then Some info
        else parse_payload limit packet packet_len (off + header_len) info
      })"

definition parse_udp_payload :: "nat \<Rightarrow> bytes \<Rightarrow> nat \<Rightarrow> nat \<Rightarrow> packet_info \<Rightarrow> packet_info option" where
  "parse_udp_payload limit packet packet_len off info =
     (if packet_len < off + 8 then Some info
      else do {
        udp_length \<leftarrow> read_u16_network packet (off + 4);
        if udp_length < 8 then Some info
        else if unat udp_length > packet_len - off then Some info
        else
          let len = (if unat udp_length < packet_len - off then off + unat udp_length else packet_len)
          in parse_payload limit packet len (off + 8) info
      })"

definition parse_icmp_payload :: "nat \<Rightarrow> bytes \<Rightarrow> nat \<Rightarrow> nat \<Rightarrow> packet_info \<Rightarrow> packet_info option" where
  "parse_icmp_payload limit packet packet_len off info =
     (if packet_len < off + 8 then Some info
      else do {
        t \<leftarrow> rd packet off;
        c \<leftarrow> rd packet (off + 1);
        parse_payload limit packet packet_len (off + 8) (info\<lparr>has_icmp := True, icmp_type := t, icmp_code := c\<rparr>)
      })"

definition clear_transport_ports :: "packet_info \<Rightarrow> packet_info" where
  "clear_transport_ports info = info\<lparr>src_port := 0, dst_port := 0, has_ports := False\<rparr>"

definition initialize_packet_info :: "nat \<Rightarrow> packet_info" where
  "initialize_packet_info packet_len =
     packet_info_zero\<lparr>pkt_size := packet_len, protocol := PROTO_OTHER, ip_version := 0\<rparr>"

text \<open>The transport part that IPv4 and IPv6 share.\<close>

definition parse_tcp :: "nat \<Rightarrow> bytes \<Rightarrow> nat \<Rightarrow> nat \<Rightarrow> packet_info \<Rightarrow> packet_info option" where
  "parse_tcp limit packet packet_len off info =
     do { i1 \<leftarrow> parse_tcp_ports packet packet_len off info;
          i2 \<leftarrow> parse_tcp_sequence_and_flags packet packet_len off i1;
          parse_tcp_payload limit packet packet_len off i2 }"

definition parse_udp :: "nat \<Rightarrow> bytes \<Rightarrow> nat \<Rightarrow> nat \<Rightarrow> packet_info \<Rightarrow> packet_info option" where
  "parse_udp limit packet packet_len off info =
     do { i1 \<leftarrow> parse_udp_ports packet packet_len off info;
          parse_udp_payload limit packet packet_len off i1 }"

section \<open>IPv6 extension headers\<close>

definition ipv6_extension_header_is_skippable :: "u8 \<Rightarrow> bool" where
  "ipv6_extension_header_is_skippable n \<longleftrightarrow> n = 0 \<or> n = 43 \<or> n = 60 \<or> n = 51"

definition ipv6_extension_header_length :: "bytes \<Rightarrow> nat \<Rightarrow> u8 \<Rightarrow> nat option" where
  "ipv6_extension_header_length packet off n =
     do { b \<leftarrow> rd packet (off + 1); Some (if n = 51 then (unat b + 2) * 4 else (unat b + 1) * 8) }"

function ipv6_walk :: "bytes \<Rightarrow> nat \<Rightarrow> nat \<Rightarrow> u8 \<Rightarrow> ipv6_transport option" where
  "ipv6_walk packet packet_len off n =
     (if \<not> ipv6_extension_header_is_skippable n then
        Some \<lparr>next_header = n, transport_offset = off, transport_reachable = True\<rparr>
      else if packet_len < off + 2 then
        Some \<lparr>next_header = n, transport_offset = off, transport_reachable = False\<rparr>
      else case ipv6_extension_header_length packet off n of None \<Rightarrow> None
      | Some header_len \<Rightarrow>
          if header_len < 8 \<or> packet_len < off + header_len then
            Some \<lparr>next_header = n, transport_offset = off, transport_reachable = False\<rparr>
          else do { n' \<leftarrow> rd packet off; ipv6_walk packet packet_len (off + header_len) n' })"
  by pat_completeness auto
termination by (relation "measure (\<lambda>(_, packet_len, off, _). packet_len - off)") auto

declare ipv6_walk.simps [simp del]

definition find_ipv6_transport :: "bytes \<Rightarrow> nat \<Rightarrow> nat \<Rightarrow> u8 \<Rightarrow> ipv6_transport option" where
  "find_ipv6_transport packet packet_len off n =
     do {
       r \<leftarrow> ipv6_walk packet packet_len off n;
       if \<not> transport_reachable r then Some r
       else if next_header r = 44 then
         (if packet_len \<ge> transport_offset r + 8 then do {
            n' \<leftarrow> rd packet (transport_offset r);
            Some (r\<lparr>next_header := n', transport_reachable := False\<rparr>) }
          else Some (r\<lparr>transport_reachable := False\<rparr>))
       else if next_header r = 50 \<or> next_header r = 59 then Some (r\<lparr>transport_reachable := False\<rparr>)
       else Some r
     }"

section \<open>Network headers\<close>

definition format_mac_address :: "bytes \<Rightarrow> nat \<Rightarrow> bytes \<Rightarrow> bytes option" where
  "format_mac_address packet off dst =
     do { a \<leftarrow> rd packet off; b \<leftarrow> rd packet (off + 1); c \<leftarrow> rd packet (off + 2);
       d \<leftarrow> rd packet (off + 3); e \<leftarrow> rd packet (off + 4); f \<leftarrow> rd packet (off + 5);
       Some (put_str dst (hex_fixed 2 (unat a) @ 58 # hex_fixed 2 (unat b) @ 58 # hex_fixed 2 (unat c) @ 58 #
         hex_fixed 2 (unat d) @ 58 # hex_fixed 2 (unat e) @ 58 # hex_fixed 2 (unat f))) }"

definition ipv4_text_at :: "bytes \<Rightarrow> nat \<Rightarrow> bytes option" where
  "ipv4_text_at packet off =
     do { a \<leftarrow> rd packet off; b \<leftarrow> rd packet (off + 1); c \<leftarrow> rd packet (off + 2); d \<leftarrow> rd packet (off + 3);
       Some (ipv4_text a b c d) }"

text \<open>
  Both addresses into the result; a failure of \<open>inet_ntop\<close> leaves with the code 1. The answer pairs
  the return value with the result.
\<close>

definition set_addresses :: "bytes \<Rightarrow> bytes \<Rightarrow> packet_info \<Rightarrow> bool \<times> packet_info" where
  "set_addresses src dst info =
     (case ntop_into (src_ip info) src of None \<Rightarrow> (False, info)
      | Some s \<Rightarrow>
        let info1 = info\<lparr>src_ip := s\<rparr> in
        case ntop_into (dst_ip info1) dst of None \<Rightarrow> (False, info1)
        | Some d \<Rightarrow> (True, info1\<lparr>dst_ip := d\<rparr>))"

definition parse_arp_packet :: "bytes \<Rightarrow> nat \<Rightarrow> nat \<Rightarrow> packet_info \<Rightarrow> (int \<times> packet_info) option" where
  "parse_arp_packet packet packet_len off info =
     (if packet_len < off + 28 then Some (0, info)
      else do {
        htype \<leftarrow> read_u16_network packet off;
        ptype \<leftarrow> read_u16_network packet (off + 2);
        hlen \<leftarrow> rd packet (off + 4);
        plen \<leftarrow> rd packet (off + 5);
        if htype \<noteq> 1 \<or> ptype \<noteq> 0x0800 \<or> hlen \<noteq> 6 \<or> plen \<noteq> 4 then Some (0, info)
        else do {
          operation \<leftarrow> read_u16_network packet (off + 6);
          sender \<leftarrow> format_mac_address packet (off + 8) (arp_sender_mac info);
          target \<leftarrow> format_mac_address packet (off + 8 + 6 + 4) (arp_target_mac info);
          src \<leftarrow> ipv4_text_at packet (off + 8 + 6);
          dst \<leftarrow> ipv4_text_at packet (off + 8 + 12 + 4);
          let i1 = info\<lparr>protocol := PROTO_ARP, has_arp := True, arp_operation := operation,
                     arp_sender_mac := sender, arp_target_mac := target\<rparr>;
          let (ok, i2) = set_addresses src dst i1;
          Some (if ok then 0 else 1, i2)
        }
      })"

definition parse_ipv4_packet :: "nat \<Rightarrow> bytes \<Rightarrow> nat \<Rightarrow> nat \<Rightarrow> packet_info \<Rightarrow> (int \<times> packet_info) option" where
  "parse_ipv4_packet limit packet packet_len ip info =
     (if packet_len < ip + 20 then Some (0, info)
      else do {
        b0 \<leftarrow> rd packet ip;
        let header_len = unat (b0 AND 0x0f) * 4;
        if drop_bit 4 b0 \<noteq> 4 \<or> header_len < 20 then Some (0, info)
        else if packet_len < ip + header_len then Some (0, info)
        else do {
          total_length \<leftarrow> read_u16_network packet (ip + 2);
          if unat total_length < header_len then Some (0, info)
          else do {
            let captured = packet_len - ip;
            let parsed_len = ip + (if captured < unat total_length then captured else unat total_length);
            src \<leftarrow> ipv4_text_at packet (ip + 12);
            dst \<leftarrow> ipv4_text_at packet (ip + 16);
            let (ok, i1) = set_addresses src dst info;
            if \<not> ok then Some (1, i1)
            else do {
              proto \<leftarrow> rd packet (ip + 9);
              let i2 = clear_transport_ports ((set_ipv4_protocol proto i1)\<lparr>ip_version := 4, ipv4_protocol_number := proto\<rparr>);
              let i3 = (if parsed_len \<ge> ip + header_len then
                  i2\<lparr>ipv4_fragment_payload := Some (drop (ip + header_len) packet),
                     ipv4_fragment_payload_length := parsed_len - (ip + header_len)\<rparr> else i2);
              ident \<leftarrow> read_u16_network packet (ip + 4);
              header \<leftarrow> (if header_len \<le> length (ipv4_header i3) then do {
                  h \<leftarrow> rd_slice packet ip header_len; blit (ipv4_header i3) 0 h } else Some (ipv4_header i3));
              field \<leftarrow> read_u16_network packet (ip + 6);
              let i4 = i3\<lparr>ipv4_identification := ident, ipv4_header_length := header_len, ipv4_header := header,
                     ipv4_fragment_offset := unat (field AND 0x1fff) * 8,
                     ipv4_more_fragments := (field AND 0x2000 \<noteq> 0)\<rparr>;
              if field AND (0x1fff OR 0x2000) \<noteq> 0 then Some (0, i4\<lparr>is_ipv4_fragment := True\<rparr>)
              else do {
                i5 \<leftarrow> (if protocol i4 = PROTO_TCP then parse_tcp limit packet parsed_len (ip + header_len) i4
                      else if protocol i4 = PROTO_UDP then parse_udp limit packet parsed_len (ip + header_len) i4
                      else if protocol i4 = PROTO_ICMP then
                        parse_icmp_payload limit packet parsed_len (ip + header_len) (clear_transport_ports i4)
                      else Some i4);
                Some (0, i5)
              }
            }
          }
        }
      })"

definition parse_ipv6_packet ::
    "platform \<Rightarrow> nat \<Rightarrow> bytes \<Rightarrow> nat \<Rightarrow> nat \<Rightarrow> packet_info \<Rightarrow> (int \<times> packet_info) option" where
  "parse_ipv6_packet P limit packet packet_len ip info =
     (if packet_len < ip + 40 then Some (0, info)
      else do {
        b0 \<leftarrow> rd packet ip;
        if drop_bit 4 b0 \<noteq> 6 then Some (0, info)
        else do {
          payload_length \<leftarrow> read_u16_network packet (ip + 4);
          nh \<leftarrow> rd packet (ip + 6);
          let captured = packet_len - ip;
          let parsed_len = ip + (if captured < 40 + unat payload_length then captured else 40 + unat payload_length);
          src \<leftarrow> rd_slice packet (ip + 8) 16;
          dst \<leftarrow> rd_slice packet (ip + 24) 16;
          let (ok, i1) = set_addresses (ntop6 P src) (ntop6 P dst) info;
          if \<not> ok then Some (1, i1)
          else do {
            t \<leftarrow> find_ipv6_transport packet parsed_len (ip + 40) nh;
            let i2 = clear_transport_ports (set_ip_protocol (next_header t) (i1\<lparr>ip_version := 6\<rparr>));
            if \<not> transport_reachable t then Some (0, i2)
            else do {
              i3 \<leftarrow> (if protocol i2 = PROTO_TCP then parse_tcp limit packet parsed_len (transport_offset t) i2
                    else if protocol i2 = PROTO_UDP then parse_udp limit packet parsed_len (transport_offset t) i2
                    else if protocol i2 = PROTO_ICMP then
                      parse_icmp_payload limit packet parsed_len (transport_offset t) i2
                    else Some i2);
              Some (0, i3)
            }
          }
        }
      })"

section \<open>Link layers\<close>

definition network_from_ethertype :: "u16 \<Rightarrow> network_layer" where
  "network_from_ethertype e =
     (if e = 0x0800 then NETWORK_IPV4 else if e = 0x86dd then NETWORK_IPV6
      else if e = 0x0806 then NETWORK_ARP else NETWORK_UNKNOWN)"

definition read_u32_little :: "bytes \<Rightarrow> nat \<Rightarrow> u32 option" where
  "read_u32_little p i = do { b0 \<leftarrow> rd p i; b1 \<leftarrow> rd p (i + 1); b2 \<leftarrow> rd p (i + 2); b3 \<leftarrow> rd p (i + 3);
     Some (be32 b3 b2 b1 b0) }"

definition read_u32_big :: "bytes \<Rightarrow> nat \<Rightarrow> u32 option" where
  "read_u32_big p i = do { b0 \<leftarrow> rd p i; b1 \<leftarrow> rd p (i + 1); b2 \<leftarrow> rd p (i + 2); b3 \<leftarrow> rd p (i + 3);
     Some (be32 b0 b1 b2 b3) }"

definition network_from_null_family :: "inet \<Rightarrow> bytes \<Rightarrow> network_layer option" where
  "network_from_null_family N packet =
     do {
       little \<leftarrow> read_u32_little packet 0;
       big \<leftarrow> read_u32_big packet 0;
       Some (if little = of_int (af_inet N) \<or> big = of_int (af_inet N) then NETWORK_IPV4
         else if little = of_int (af_inet6 N) \<or> big = of_int (af_inet6 N) \<or> little = 24 \<or> big = 24 \<or>
           little = 28 \<or> big = 28 \<or> little = 30 \<or> big = 30 then NETWORK_IPV6
         else NETWORK_UNKNOWN)
     }"

definition infer_raw_ip_network :: "bytes \<Rightarrow> nat \<Rightarrow> network_layer option" where
  "infer_raw_ip_network packet packet_len =
     (if packet_len = 0 then Some NETWORK_UNKNOWN
      else do {
        b \<leftarrow> rd packet 0;
        Some (if drop_bit 4 b = 4 then NETWORK_IPV4 else if drop_bit 4 b = 6 then NETWORK_IPV6 else NETWORK_UNKNOWN)
      })"

definition select_network_layer :: "platform \<Rightarrow> bytes \<Rightarrow> nat \<Rightarrow> int \<Rightarrow> (nat \<times> network_layer) option" where
  "select_network_layer P packet packet_len datalink =
     (if packet_len = 0 then Some (0, NETWORK_UNKNOWN)
      else if datalink = dlt_en10mb P then
        (if packet_len < 14 then Some (0, NETWORK_UNKNOWN)
         else do { e \<leftarrow> read_u16_network packet 12; Some (14, network_from_ethertype e) })
      else if datalink = dlt_raw P then
        do { l \<leftarrow> infer_raw_ip_network packet packet_len; Some (0, l) }
      else if dlt_ipv4 P = Some datalink then Some (0, NETWORK_IPV4)
      else if dlt_ipv6 P = Some datalink then Some (0, NETWORK_IPV6)
      else if datalink = dlt_null P \<or> datalink = dlt_loop P then
        (if packet_len < 4 then Some (0, NETWORK_UNKNOWN)
         else do { l \<leftarrow> network_from_null_family (net P) packet; Some (4, l) })
      else if dlt_linux_sll P = Some datalink then
        (if packet_len < 16 then Some (0, NETWORK_UNKNOWN)
         else do { e \<leftarrow> read_u16_network packet 14; Some (16, network_from_ethertype e) })
      else if dlt_linux_sll2 P = Some datalink then
        (if packet_len < 20 then Some (0, NETWORK_UNKNOWN)
         else do { e \<leftarrow> read_u16_network packet 0; Some (20, network_from_ethertype e) })
      else Some (0, NETWORK_UNKNOWN))"

definition parser_supports_datalink :: "platform \<Rightarrow> int \<Rightarrow> bool" where
  "parser_supports_datalink P datalink \<longleftrightarrow>
     datalink = dlt_en10mb P \<or> datalink = dlt_raw P \<or> datalink = dlt_null P \<or> datalink = dlt_loop P \<or>
     dlt_ipv4 P = Some datalink \<or> dlt_ipv6 P = Some datalink \<or>
     dlt_linux_sll P = Some datalink \<or> dlt_linux_sll2 P = Some datalink"

definition parser_parse_packet_with_datalink ::
    "platform \<Rightarrow> nat \<Rightarrow> bytes option \<Rightarrow> nat \<Rightarrow> int \<Rightarrow> (int \<times> packet_info) option" where
  "parser_parse_packet_with_datalink P limit packet packet_len datalink =
     (let info = initialize_packet_info packet_len in
      if packet_len = 0 then Some (0, info)
      else case packet of None \<Rightarrow> Some (1, info)
      | Some d \<Rightarrow> do {
          (off, layer) \<leftarrow> select_network_layer P d packet_len datalink;
          if layer = NETWORK_IPV4 then parse_ipv4_packet limit d packet_len off info
          else if layer = NETWORK_IPV6 then parse_ipv6_packet P limit d packet_len off info
          else if layer = NETWORK_ARP then parse_arp_packet d packet_len off info
          else Some (0, info)
        })"

definition parser_parse_packet :: "platform \<Rightarrow> nat \<Rightarrow> bytes option \<Rightarrow> nat \<Rightarrow> (int \<times> packet_info) option" where
  "parser_parse_packet P limit packet packet_len =
     parser_parse_packet_with_datalink P limit packet packet_len (dlt_en10mb P)"

definition parser_set_payload_decode_limit :: "nat \<Rightarrow> nat" where
  "parser_set_payload_decode_limit limit = (if limit = 0 \<or> limit > 65535 then 2048 else limit)"


section \<open>What a parsed packet satisfies\<close>

text \<open>The payload window: inside the captured bytes, cut to the decode limit, with its preview copied.\<close>

definition window_ok :: "bytes \<Rightarrow> nat \<Rightarrow> packet_info \<Rightarrow> bool" where
  "window_ok d limit i \<longleftrightarrow>
     (case payload i of None \<Rightarrow> \<not> has_payload i \<and> payload_decode_length i = 0 \<and> payload_preview_length i = 0
      | Some p \<Rightarrow> has_payload i \<and> (\<exists>k. p = drop k d) \<and> 0 < payload_capture_length i \<and> payload_capture_length i \<le> length p \<and>
          payload_decode_length i = min (payload_capture_length i) limit \<and>
          payload_preview_length i = min (payload_capture_length i) 256 \<and>
          take (payload_preview_length i) (payload_preview i) = take (payload_preview_length i) p)"

definition parsed_ok :: "bytes \<Rightarrow> nat \<Rightarrow> packet_info \<Rightarrow> bool" where
  "parsed_ok d limit i \<longleftrightarrow> terminated 46 (src_ip i) \<and> terminated 46 (dst_ip i) \<and>
     terminated 18 (arp_sender_mac i) \<and> terminated 18 (arp_target_mac i) \<and>
     length (timestamp i) = 32 \<and> length (ipv4_header i) = 60 \<and> length (payload_preview i) = 256 \<and> app i = app_info_zero \<and>
     window_ok d limit i \<and>
     (has_ports i \<longrightarrow> protocol i = PROTO_TCP \<or> protocol i = PROTO_UDP) \<and>
     (has_tcp_sequence i \<longrightarrow> protocol i = PROTO_TCP) \<and> (has_icmp i \<longrightarrow> protocol i = PROTO_ICMP) \<and>
     (has_arp i \<longrightarrow> protocol i = PROTO_ARP) \<and>
     (is_ipv4_fragment i \<longrightarrow> \<not> has_ports i \<and> \<not> has_payload i) \<and>
     (\<forall>p. ipv4_fragment_payload i = Some p \<longrightarrow>
        (\<exists>k. p = drop k d) \<and> ipv4_fragment_payload_length i \<le> length p)"

text \<open>What a transport parser changes: it starts from a packet without payload and keeps the rest.\<close>

definition fresh :: "packet_info \<Rightarrow> bool" where
  "fresh i \<longleftrightarrow> payload i = None \<and> \<not> is_ipv4_fragment i \<and> \<not> has_arp i"

definition parses_to :: "bytes \<Rightarrow> nat \<Rightarrow> packet_info option \<Rightarrow> bool" where
  "parses_to d limit r \<longleftrightarrow> (\<exists>i. r = Some i \<and> parsed_ok d limit i)"

lemma read_network_in [mem_simps]:
  "off + 2 \<le> length d \<Longrightarrow> read_u16_network d off = Some (be16 (d ! off) (d ! (off + 1)))"
  "off + 4 \<le> length d \<Longrightarrow> read_u32_network d off = Some (be32 (d ! off) (d ! (off + 1)) (d ! (off + 2)) (d ! (off + 3)))"
  by (simp_all add: read_u16_network_def read_u32_network_def rd_def)

lemma parse_payload_in:
  assumes "n \<le> length d" "length (payload_preview i) = 256"
  shows "parse_payload limit d n off i = Some (if n \<le> off then i else
     i\<lparr>has_payload := True, payload := Some (drop off d), payload_capture_length := n - off,
       payload_decode_length := min (n - off) limit, payload_preview_length := min (n - off) 256,
       payload_preview := take (min (n - off) 256) (drop off d) @ drop (min (n - off) 256) (payload_preview i)\<rparr>)"
proof (cases "n \<le> off")
  case False
  define m where "m = min (n - off) 256"
  have m: "(if n - off > 256 then 256 else n - off) = m" "(if n - off > limit then limit else n - off) = min (n - off) limit"
    by (auto simp: m_def)
  have "off + m \<le> length d" "m \<le> 256" using False assms(1) by (auto simp: m_def)
  then show ?thesis
    using False assms(2) by (simp add: parse_payload_def Let_def m rd_slice_def blit_def m_def [symmetric])
qed (simp add: parse_payload_def)

lemma parse_payload_ok:
  assumes "n \<le> length d" "parsed_ok d limit i" "fresh i"
  shows "parses_to d limit (parse_payload limit d n off i)"
proof -
  have "length (payload_preview i) = 256" using assms(2) by (simp add: parsed_ok_def)
  from parse_payload_in [OF assms(1) this] assms show ?thesis
    by (auto simp: parses_to_def parsed_ok_def window_ok_def fresh_def)
qed

lemma parse_tcp_payload_ok:
  "n \<le> length d \<Longrightarrow> parsed_ok d limit i \<Longrightarrow> fresh i \<Longrightarrow> parses_to d limit (parse_tcp_payload limit d n off i)"
  using parse_payload_ok [of n d limit i]
  by (auto simp: parse_tcp_payload_def rd_def Let_def parses_to_def [of _ _ "Some i"])

lemma parse_udp_payload_ok:
  "n \<le> length d \<Longrightarrow> parsed_ok d limit i \<Longrightarrow> fresh i \<Longrightarrow> parses_to d limit (parse_udp_payload limit d n off i)"
  using parse_payload_ok [of _ d limit i]
  by (auto simp: parse_udp_payload_def read_network_in Let_def parses_to_def [of _ _ "Some i"])

lemma parse_icmp_payload_ok:
  "n \<le> length d \<Longrightarrow> parsed_ok d limit i \<Longrightarrow> fresh i \<Longrightarrow> protocol i = PROTO_ICMP \<Longrightarrow>
    parses_to d limit (parse_icmp_payload limit d n off i)"
  unfolding parse_icmp_payload_def
  by (auto simp: rd_def parses_to_def [of _ _ "Some i"] intro!: parse_payload_ok)
    (auto simp: parsed_ok_def window_ok_def fresh_def split: option.splits)

lemma parse_tcp_ok:
  assumes "n \<le> length d" "parsed_ok d limit i" "fresh i" "protocol i = PROTO_TCP"
  shows "parses_to d limit (parse_tcp limit d n off i)"
proof -
  have 1: "\<exists>j. parse_tcp_ports d n off i = Some j \<and> parsed_ok d limit j \<and> fresh j \<and> protocol j = PROTO_TCP"
    using assms by (auto simp: parse_tcp_ports_def read_network_in parsed_ok_def fresh_def window_ok_def)
  have 2: "\<exists>j. parse_tcp_sequence_and_flags d n off i = Some j \<and> parsed_ok d limit j \<and> fresh j"
    if "parsed_ok d limit i" "fresh i" "protocol i = PROTO_TCP" for i
    using that assms(1)
    by (auto simp: parse_tcp_sequence_and_flags_def read_network_in rd_def parsed_ok_def fresh_def window_ok_def)
  from 1 obtain j where j: "parse_tcp_ports d n off i = Some j" "parsed_ok d limit j" "fresh j" "protocol j = PROTO_TCP" by blast
  from 2 [OF j(2-4)] obtain k where "parse_tcp_sequence_and_flags d n off j = Some k" "parsed_ok d limit k" "fresh k" by blast
  with j(1) assms(1) show ?thesis by (simp add: parse_tcp_def parse_tcp_payload_ok)
qed

lemma parse_udp_ok:
  assumes "n \<le> length d" "parsed_ok d limit i" "fresh i" "protocol i = PROTO_UDP"
  shows "parses_to d limit (parse_udp limit d n off i)"
proof -
  have "\<exists>j. parse_udp_ports d n off i = Some j \<and> parsed_ok d limit j \<and> fresh j"
    using assms by (auto simp: parse_udp_ports_def read_network_in parsed_ok_def fresh_def window_ok_def)
  with assms(1) show ?thesis by (auto simp: parse_udp_def parse_udp_payload_ok)
qed

lemma ipv6_walk_in: "n \<le> length d \<Longrightarrow> \<exists>r. ipv6_walk d n off h = Some r"
proof (induction d n off h rule: ipv6_walk.induct)
  case (1 d n off h)
  show ?case
  proof (cases "n < off + 2")
    case False
    then have "\<exists>l. ipv6_extension_header_length d off h = Some l" "rd d off = Some (d ! off)"
      using 1(2) by (auto simp: ipv6_extension_header_length_def rd_def)
    then show ?thesis using 1 False by (subst ipv6_walk.simps) (auto split: option.splits)
  qed (subst ipv6_walk.simps, simp)
qed

lemma find_ipv6_transport_in: "n \<le> length d \<Longrightarrow> \<exists>r. find_ipv6_transport d n off h = Some r"
  using ipv6_walk_in [of n d off h] by (auto simp: find_ipv6_transport_def rd_def)

lemma set_addresses_ok:
  assumes "terminated 46 (src_ip i)" "terminated 46 (dst_ip i)" "length s < 46" "length t < 46"
  shows "set_addresses s t i = (True, i\<lparr>src_ip := put_str (src_ip i) s, dst_ip := put_str (dst_ip i) t\<rparr>)"
  using assms by (auto simp: set_addresses_def ntop_into_def terminated_def)

lemma ipv4_text_at_in: "off + 4 \<le> length d \<Longrightarrow> \<exists>s. ipv4_text_at d off = Some s \<and> length s < 46"
  using length_ipv4_text [of "d ! off" "d ! (off + 1)" "d ! (off + 2)" "d ! (off + 3)"]
  by (simp add: ipv4_text_at_def rd_def)

lemma format_mac_in: "off + 6 \<le> length d \<Longrightarrow> terminated 18 x \<Longrightarrow> \<exists>s. format_mac_address d off x = Some s \<and> terminated 18 s"
  by (simp add: format_mac_address_def rd_def)

text \<open>The three network parsers, from the initialised result.\<close>

definition network_ok :: "bytes \<Rightarrow> nat \<Rightarrow> (int \<times> packet_info) option \<Rightarrow> bool" where
  "network_ok d limit r \<longleftrightarrow> (\<exists>i. r = Some (0, i) \<and> parsed_ok d limit i)"

lemma initial_ok: "parsed_ok d limit (initialize_packet_info n)" "fresh (initialize_packet_info n)"
  by (simp_all add: parsed_ok_def fresh_def window_ok_def initialize_packet_info_def packet_info_zero_def)

lemma parse_arp_ok:
  assumes n: "n \<le> length d" and i: "parsed_ok d limit i" "fresh i" "\<not> has_ports i" "\<not> has_tcp_sequence i" "\<not> has_icmp i"
  shows "network_ok d limit (parse_arp_packet d n off i)"
proof (cases "n < off + 28")
  case False
  then obtain s t where st: "ipv4_text_at d (off + 8 + 6) = Some s" "length s < 46"
    "ipv4_text_at d (off + 8 + 12 + 4) = Some t" "length t < 46"
    using ipv4_text_at_in [of "off + 8 + 6" d] ipv4_text_at_in [of "off + 8 + 12 + 4" d] n by auto
  obtain a b where ab: "format_mac_address d (off + 8) (arp_sender_mac i) = Some a" "terminated 18 a"
    "format_mac_address d (off + 8 + 6 + 4) (arp_target_mac i) = Some b" "terminated 18 b"
    using format_mac_in [of "off + 8" d "arp_sender_mac i"] format_mac_in [of "off + 8 + 6 + 4" d "arp_target_mac i"] i(1) n False
    by (auto simp: parsed_ok_def)
  have r: "read_u16_network d off = Some (be16 (d ! off) (d ! (off + 1)))"
    "read_u16_network d (off + 2) = Some (be16 (d ! (off + 2)) (d ! (off + 2 + 1)))"
    "read_u16_network d (off + 6) = Some (be16 (d ! (off + 6)) (d ! (off + 6 + 1)))"
    "rd d (off + 4) = Some (d ! (off + 4))" "rd d (off + 5) = Some (d ! (off + 5))"
    using False n by (simp_all add: read_network_in rd_def)
  define i' where "i' = i\<lparr>protocol := PROTO_ARP, has_arp := True, arp_operation := be16 (d ! (off + 6)) (d ! (off + 6 + 1)),
    arp_sender_mac := a, arp_target_mac := b\<rparr>"
  have a': "set_addresses s t i' = (True, i'\<lparr>src_ip := put_str (src_ip i') s, dst_ip := put_str (dst_ip i') t\<rparr>)"
    using i(1) st by (intro set_addresses_ok) (auto simp: i'_def parsed_ok_def)
  have "parsed_ok d limit (i'\<lparr>src_ip := put_str (src_ip i') s, dst_ip := put_str (dst_ip i') t\<rparr>)"
    using i ab by (auto simp: parsed_ok_def fresh_def window_ok_def i'_def)
  then show ?thesis
    using False i(1) unfolding parse_arp_packet_def network_ok_def
    by (simp only: r st ab bind.simps if_False Let_def i'_def [symmetric] a' prod.case) auto
qed (use i in \<open>simp add: parse_arp_packet_def network_ok_def\<close>)


lemma transport_ok:
  assumes "n \<le> length d" "parsed_ok d limit i" "fresh i"
  shows "parses_to d limit (if protocol i = PROTO_TCP then parse_tcp limit d n off i
    else if protocol i = PROTO_UDP then parse_udp limit d n off i
    else if protocol i = PROTO_ICMP then parse_icmp_payload limit d n off i else Some i)"
  using assms parse_tcp_ok parse_udp_ok parse_icmp_payload_ok by (auto simp: parses_to_def [of _ _ "Some i"])

lemma clear_ports_ok:
  "parsed_ok d limit i \<Longrightarrow> parsed_ok d limit (clear_transport_ports i)" "fresh i \<Longrightarrow> fresh (clear_transport_ports i)"
  "protocol (clear_transport_ports i) = protocol i"
  by (auto simp: parsed_ok_def fresh_def window_ok_def clear_transport_ports_def split: option.splits)

text \<open>The part of the IPv4 parser after the addresses.\<close>

definition ipv4_fields :: "bytes \<Rightarrow> nat \<Rightarrow> nat \<Rightarrow> nat \<Rightarrow> packet_info \<Rightarrow> packet_info" where
  "ipv4_fields d ip hl parsed i =
     (clear_transport_ports ((set_ipv4_protocol (d ! (ip + 9)) i)\<lparr>ip_version := 4, ipv4_protocol_number := d ! (ip + 9)\<rparr>))
       \<lparr>ipv4_fragment_payload := Some (drop (ip + hl) d), ipv4_fragment_payload_length := parsed - (ip + hl),
        ipv4_identification := be16 (d ! (ip + 4)) (d ! (ip + 5)), ipv4_header_length := hl,
        ipv4_header := take hl (drop ip d) @ drop hl (ipv4_header i),
        ipv4_fragment_offset := unat (be16 (d ! (ip + 6)) (d ! (ip + 7)) AND 0x1fff) * 8,
        ipv4_more_fragments := (be16 (d ! (ip + 6)) (d ! (ip + 7)) AND 0x2000 \<noteq> 0)\<rparr>"

definition ipv4_addresses :: "bytes \<Rightarrow> nat \<Rightarrow> packet_info \<Rightarrow> packet_info" where
  "ipv4_addresses d ip i = i\<lparr>
     src_ip := put_str (src_ip i) (ipv4_text (d ! (ip + 12)) (d ! (ip + 13)) (d ! (ip + 14)) (d ! (ip + 15))),
     dst_ip := put_str (dst_ip i) (ipv4_text (d ! (ip + 16)) (d ! (ip + 17)) (d ! (ip + 18)) (d ! (ip + 19)))\<rparr>"

definition is_fragment_field :: "u16 \<Rightarrow> bool" where
  "is_fragment_field f \<longleftrightarrow> f AND (0x1fff OR 0x2000) \<noteq> 0"

lemma parse_ipv4_in:
  fixes d :: bytes and ip n :: nat
  assumes n: "n \<le> length d" and i: "terminated 46 (src_ip i)" "terminated 46 (dst_ip i)" "length (ipv4_header i) = 60"
  defines "hl \<equiv> unat (d ! ip AND 0x0f) * 4"
    and "tlen \<equiv> unat (be16 (d ! (ip + 2)) (d ! (ip + 3)))"
  defines "parsed \<equiv> ip + min (n - ip) tlen"
  assumes ok: "ip + 20 \<le> n" "drop_bit 4 (d ! ip) = 4" "20 \<le> hl" "ip + hl \<le> n" "hl \<le> tlen"
  shows "parse_ipv4_packet limit d n ip i = (let j = ipv4_fields d ip hl parsed (ipv4_addresses d ip i) in
    if is_fragment_field (be16 (d ! (ip + 6)) (d ! (ip + 7))) then Some (0, j\<lparr>is_ipv4_fragment := True\<rparr>)
    else do {
      k \<leftarrow> (if protocol j = PROTO_TCP then parse_tcp limit d parsed (ip + hl) j
           else if protocol j = PROTO_UDP then parse_udp limit d parsed (ip + hl) j
           else if protocol j = PROTO_ICMP then parse_icmp_payload limit d parsed (ip + hl) (clear_transport_ports j)
           else Some j);
      Some (0, k)
    })"
proof -
  have hl60: "hl \<le> 60"
  proof -
    have "unat (d ! ip AND 0x0f) \<le> unat (0x0f :: u8)" by (simp only: word_le_nat_alt [symmetric] word_and_le1)
    then show ?thesis by (simp add: hl_def)
  qed
  have m: "(if n - ip < tlen then n - ip else tlen) = min (n - ip) tlen" by auto
  have r: "rd d ip = Some (d ! ip)" "rd d (ip + 9) = Some (d ! (ip + 9))"
    "read_u16_network d (ip + 2) = Some (be16 (d ! (ip + 2)) (d ! (ip + 3)))"
    "read_u16_network d (ip + 4) = Some (be16 (d ! (ip + 4)) (d ! (ip + 5)))"
    "read_u16_network d (ip + 6) = Some (be16 (d ! (ip + 6)) (d ! (ip + 7)))"
    "ipv4_text_at d (ip + 12) = Some (ipv4_text (d ! (ip + 12)) (d ! (ip + 13)) (d ! (ip + 14)) (d ! (ip + 15)))"
    "ipv4_text_at d (ip + 16) = Some (ipv4_text (d ! (ip + 16)) (d ! (ip + 17)) (d ! (ip + 18)) (d ! (ip + 19)))"
    using ok(1) n
    by (simp_all add: read_u16_network_def rd_def ipv4_text_at_def add.commute [of ip] del: add_2_eq_Suc add_2_eq_Suc')
  have a: "set_addresses (ipv4_text x1 x2 x3 x4) (ipv4_text y1 y2 y3 y4) i =
      (True, i\<lparr>src_ip := put_str (src_ip i) (ipv4_text x1 x2 x3 x4), dst_ip := put_str (dst_ip i) (ipv4_text y1 y2 y3 y4)\<rparr>)"
    for x1 x2 x3 x4 y1 y2 y3 y4
    using i length_ipv4_text [of x1 x2 x3 x4] length_ipv4_text [of y1 y2 y3 y4] by (intro set_addresses_ok) auto
  have c: "\<not> n < ip + 20" "\<not> (drop_bit 4 (d ! ip) \<noteq> 4 \<or> hl < 20)" "\<not> n < ip + hl" "\<not> tlen < hl" "ip + hl \<le> parsed"
    using ok by (simp_all add: parsed_def)
  have "length (take hl (drop ip d)) = hl" using ok(4) n by simp
  then have h: "rd_slice d ip hl = Some (take hl (drop ip d))"
    "blit (ipv4_header i) 0 (take hl (drop ip d)) = Some (take hl (drop ip d) @ drop hl (ipv4_header i))"
    using ok(4) n hl60 i(3) by (simp_all add: rd_slice_def blit_def del: length_take)
  show ?thesis
    unfolding parse_ipv4_packet_def
    by (simp only: r bind.simps Let_def hl_def [symmetric] tlen_def [symmetric] c if_False m parsed_def [symmetric] a prod.case
        simp_thms if_True)
      (simp add: ipv4_fields_def ipv4_addresses_def is_fragment_field_def set_ipv4_protocol_def
        clear_transport_ports_def h i(3) hl60)
qed


lemma network_ok_parse: "parses_to d limit r \<Longrightarrow> network_ok d limit (do { i \<leftarrow> r; Some (0, i) })"
  by (auto simp: parses_to_def network_ok_def)

lemma parse_ipv4_ok:
  assumes n: "n \<le> length d" and i: "parsed_ok d limit i" "fresh i" "\<not> has_ports i" "\<not> has_tcp_sequence i" "\<not> has_icmp i"
  shows "network_ok d limit (parse_ipv4_packet limit d n ip i)"
proof -
  define hl where "hl = unat (d ! ip AND 0x0f) * 4"
  define tlen where "tlen = unat (be16 (d ! (ip + 2)) (d ! (ip + 3)))"
  define parsed where "parsed = ip + min (n - ip) tlen"
  note defs = hl_def [symmetric] tlen_def [symmetric] parsed_def [symmetric]
  have lens: "terminated 46 (src_ip i)" "terminated 46 (dst_ip i)" "length (ipv4_header i) = 60"
    using i(1) by (auto simp: parsed_ok_def)
  show ?thesis
  proof (cases "ip + 20 \<le> n \<and> drop_bit 4 (d ! ip) = 4 \<and> 20 \<le> hl \<and> ip + hl \<le> n \<and> hl \<le> tlen")
    case True
    define j where "j = ipv4_fields d ip hl parsed (ipv4_addresses d ip i)"
    have p: "parsed \<le> length d" "ip + hl \<le> parsed" using n True by (auto simp: parsed_def)
    have hl60: "hl \<le> 60"
    proof -
      have "unat (d ! ip AND 0x0f) \<le> unat (0x0f :: u8)" by (simp only: word_le_nat_alt [symmetric] word_and_le1)
      then show ?thesis by (simp add: hl_def)
    qed
    have j: "parsed_ok d limit j" "fresh j" "\<not> has_ports j" "payload j = None"
      using i lens p True n hl60
      by (auto simp: j_def ipv4_fields_def ipv4_addresses_def set_ipv4_protocol_def clear_transport_ports_def
          parsed_ok_def fresh_def window_ok_def)
    have frag: "parsed_ok d limit (j\<lparr>is_ipv4_fragment := True\<rparr>)"
      using j by (auto simp: parsed_ok_def window_ok_def)
    have rest: "parses_to d limit (if protocol j = PROTO_TCP then parse_tcp limit d parsed (ip + hl) j
           else if protocol j = PROTO_UDP then parse_udp limit d parsed (ip + hl) j
           else if protocol j = PROTO_ICMP then parse_icmp_payload limit d parsed (ip + hl) (clear_transport_ports j)
           else Some j)"
      using transport_ok [OF p(1) j(1,2)] clear_ports_ok j p(1) parse_icmp_payload_ok
      by (auto split: if_splits)
    show ?thesis
      using parse_ipv4_in [OF n lens, of ip, unfolded defs] True frag network_ok_parse [OF rest]
      by (simp add: j_def [symmetric] Let_def) (simp add: network_ok_def)
  next
    case False
    have r: "ip + 20 \<le> n \<Longrightarrow> rd d ip = Some (d ! ip)"
      "ip + 20 \<le> n \<Longrightarrow> read_u16_network d (ip + 2) = Some (be16 (d ! (ip + 2)) (d ! (ip + 3)))"
      using n by (simp_all add: rd_def read_u16_network_def numeral_3_eq_3)
    have "parse_ipv4_packet limit d n ip i = Some (0, i)"
      unfolding parse_ipv4_packet_def using False r
      by (cases "ip + 20 \<le> n") (auto simp: Let_def hl_def tlen_def)
    then show ?thesis using i(1) by (simp add: network_ok_def)
  qed
qed

lemma parse_ipv6_ok:
  assumes P: "platform_ok P" and n: "n \<le> length d"
    and i: "parsed_ok d limit i" "fresh i" "\<not> has_ports i" "\<not> has_tcp_sequence i" "\<not> has_icmp i"
  shows "network_ok d limit (parse_ipv6_packet P limit d n ip i)"
proof (cases "ip + 40 \<le> n \<and> drop_bit 4 (d ! ip) = 6")
  case True
  define plen where "plen = be16 (d ! (ip + 4)) (d ! (ip + 4 + 1))"
  define parsed where "parsed = ip + (if n - ip < 40 + unat plen then n - ip else 40 + unat plen)"
  have r: "rd d ip = Some (d ! ip)" "rd d (ip + 6) = Some (d ! (ip + 6))"
    "read_u16_network d (ip + 4) = Some plen"
    "rd_slice d (ip + 8) 16 = Some (take 16 (drop (ip + 8) d))" "rd_slice d (ip + 24) 16 = Some (take 16 (drop (ip + 24) d))"
    using True n by (simp_all add: rd_def read_u16_network_def rd_slice_def plen_def)
  have p: "parsed \<le> length d" using n True by (auto simp: parsed_def)
  obtain t where t: "find_ipv6_transport d parsed (ip + 40) (d ! (ip + 6)) = Some t"
    using find_ipv6_transport_in [OF p] by blast
  define src where "src = ntop6 P (take 16 (drop (ip + 8) d))"
  define dst where "dst = ntop6 P (take 16 (drop (ip + 24) d))"
  define j where "j = clear_transport_ports (set_ip_protocol (next_header t)
    (i\<lparr>src_ip := put_str (src_ip i) src, dst_ip := put_str (dst_ip i) dst, ip_version := 6\<rparr>))"
  have a: "set_addresses src dst i = (True, i\<lparr>src_ip := put_str (src_ip i) src, dst_ip := put_str (dst_ip i) dst\<rparr>)"
    using i(1) P by (intro set_addresses_ok) (auto simp: parsed_ok_def platform_ok_def src_def dst_def)
  have j: "parsed_ok d limit j" "fresh j"
    using i by (auto simp: j_def set_ip_protocol_def clear_transport_ports_def parsed_ok_def fresh_def window_ok_def)
  show ?thesis
  proof (cases "transport_reachable t")
    case reach: True
    show ?thesis
      using True network_ok_parse [OF transport_ok [OF p j, of "transport_offset t"]] reach
      unfolding parse_ipv6_packet_def
      by (simp only: r bind.simps Let_def parsed_def [symmetric] src_def [symmetric] dst_def [symmetric] a prod.case t
          j_def [symmetric]) (simp add: j_def)
  next
    case False
    then show ?thesis
      using True j(1) unfolding parse_ipv6_packet_def
      by (simp only: r bind.simps Let_def parsed_def [symmetric] src_def [symmetric] dst_def [symmetric] a prod.case t)
        (simp add: j_def network_ok_def)
  qed
next
  case False
  then show ?thesis
    using i(1) n by (auto simp: parse_ipv6_packet_def network_ok_def rd_def)
qed

lemma select_network_in: "n \<le> length d \<Longrightarrow> \<exists>r. select_network_layer P d n dl = Some r"
  by (auto simp: select_network_layer_def read_network_in infer_raw_ip_network_def network_from_null_family_def
      read_u32_little_def read_u32_big_def rd_def)

lemma parser_ok:
  assumes "platform_ok P" "n \<le> length d"
  shows "network_ok d limit (parser_parse_packet_with_datalink P limit (Some d) n dl)"
proof -
  obtain off l where l: "select_network_layer P d n dl = Some (off, l)" using select_network_in [OF assms(2)] by fast
  let ?i = "initialize_packet_info n"
  have f: "\<not> has_ports ?i" "\<not> has_tcp_sequence ?i" "\<not> has_icmp ?i"
    by (simp_all add: initialize_packet_info_def packet_info_zero_def)
  show ?thesis
    using l initial_ok(1) [of d limit n] initial_ok(2) [of n] f assms parse_ipv4_ok parse_ipv6_ok parse_arp_ok
    by (auto simp: parser_parse_packet_with_datalink_def Let_def) (simp_all add: network_ok_def)
qed



section \<open>Chains of IPv6 extension headers\<close>

definition ext_length :: "u8 \<Rightarrow> u8 \<Rightarrow> nat" where
  "ext_length h b = (if h = 51 then (unat b + 2) * 4 else (unat b + 1) * 8)"

text \<open>\<open>ipv6_chain d n off h off' h'\<close>: from header type \<open>h\<close> at \<open>off\<close>, complete skippable headers
  inside the first \<open>n\<close> bytes lead to the type \<open>h'\<close> at \<open>off'\<close>, which is not skippable.\<close>

inductive ipv6_chain :: "bytes \<Rightarrow> nat \<Rightarrow> nat \<Rightarrow> u8 \<Rightarrow> nat \<Rightarrow> u8 \<Rightarrow> bool" for d n where
  chain_end: "\<not> ipv6_extension_header_is_skippable h \<Longrightarrow> ipv6_chain d n off h off h"
| chain_step: "ipv6_extension_header_is_skippable h \<Longrightarrow> off + ext_length h (d ! (off + 1)) \<le> n \<Longrightarrow>
    ipv6_chain d n (off + ext_length h (d ! (off + 1))) (d ! off) off' h' \<Longrightarrow> ipv6_chain d n off h off' h'"

lemma ext_length_ge: "8 \<le> ext_length h b"
  by (simp add: ext_length_def)

lemma ipv6_walk_round:
  assumes "n \<le> length d"
  shows "ipv6_walk d n off h =
    (if \<not> ipv6_extension_header_is_skippable h then
       Some \<lparr>next_header = h, transport_offset = off, transport_reachable = True\<rparr>
     else if n < off + 2 \<or> n < off + ext_length h (d ! (off + 1)) then
       Some \<lparr>next_header = h, transport_offset = off, transport_reachable = False\<rparr>
     else ipv6_walk d n (off + ext_length h (d ! (off + 1))) (d ! off))"
  using assms ext_length_ge [of h "d ! (off + 1)"]
  by (subst ipv6_walk.simps) (auto simp: ipv6_extension_header_length_def rd_def ext_length_def)

lemma ipv6_chain_walk:
  "ipv6_chain d n off h off' h' \<Longrightarrow> n \<le> length d \<Longrightarrow>
    ipv6_walk d n off h = Some \<lparr>next_header = h', transport_offset = off', transport_reachable = True\<rparr>"
proof (induction rule: ipv6_chain.induct)
  case (chain_step h off off' h')
  then show ?case
    using ext_length_ge [of h "d ! (off + 1)"] by (subst ipv6_walk_round) auto
qed (subst ipv6_walk.simps, simp)

lemma ipv6_walk_chain:
  "n \<le> length d \<Longrightarrow> ipv6_walk d n off h = Some t \<Longrightarrow> transport_reachable t \<Longrightarrow>
    ipv6_chain d n off h (transport_offset t) (next_header t)"
proof (induction "n - off" arbitrary: off h rule: less_induct)
  case less
  let ?k = "off + ext_length h (d ! (off + 1))"
  show ?case
  proof (cases "ipv6_extension_header_is_skippable h")
    case True
    with less.prems have k: "?k \<le> n" "ipv6_walk d n ?k (d ! off) = Some t"
      by (auto simp: ipv6_walk_round [OF less.prems(1), of off h] split: if_splits)
    then have "ipv6_chain d n ?k (d ! off) (transport_offset t) (next_header t)"
      using less.prems(1,3) ext_length_ge [of h "d ! (off + 1)"] by (intro less.hyps) auto
    with True k(1) show ?thesis by (rule chain_step)
  next
    case False
    then show ?thesis using less.prems by (auto simp: ipv6_walk.simps [of d n off h] intro: chain_end)
  qed
qed

section \<open>Rendering a TCP packet\<close>

text \<open>Ethernet frame, IPv4 header and TCP header as bytes whose fields are consistent.\<close>

definition ip_header_for :: "bytes \<Rightarrow> u8 \<Rightarrow> nat \<Rightarrow> bool" where
  "ip_header_for h proto tlen \<longleftrightarrow> 20 \<le> length h \<and> drop_bit 4 (h ! 0) = 4 \<and> unat (h ! 0 AND 0x0f) * 4 = length h \<and>
     h ! 9 = proto \<and> unat (be16 (h ! 2) (h ! 3)) = tlen \<and> \<not> is_fragment_field (be16 (h ! 6) (h ! 7))"

definition tcp_header_wf :: "bytes \<Rightarrow> bool" where
  "tcp_header_wf t \<longleftrightarrow> 20 \<le> length t \<and> unat (drop_bit 4 (t ! 12)) * 4 = length t"

lemma parse_tcp_in:
  assumes d: "d = pre @ tcp @ body @ post" and n: "n = length pre + length tcp + length body"
    and wf: "tcp_header_wf tcp" and i: "length (payload_preview i) = 256"
  shows "\<exists>j. parse_tcp limit d n (length pre) i = Some j \<and>
    src_port j = be16 (tcp ! 0) (tcp ! 1) \<and> dst_port j = be16 (tcp ! 2) (tcp ! 3) \<and> has_ports j \<and>
    tcp_sequence j = be32 (tcp ! 4) (tcp ! 5) (tcp ! 6) (tcp ! 7) \<and> tcp_flags j = tcp ! 13 AND 0x3f \<and>
    has_tcp_sequence j \<and>
    (if body = [] then payload j = payload i \<and> has_payload j = has_payload i
     else payload j = Some (body @ post) \<and> has_payload j \<and> payload_capture_length j = length body \<and>
       payload_decode_length j = min (length body) limit) \<and>
    src_ip j = src_ip i \<and> dst_ip j = dst_ip i \<and> protocol j = protocol i"
proof -
  let ?o = "length pre"
  have l: "20 \<le> length tcp" "unat (drop_bit 4 (tcp ! 12)) * 4 = length tcp" using wf by (auto simp: tcp_header_wf_def)
  have nth: "d ! (?o + k) = tcp ! k" if "k < 20" for k using that l(1) by (simp add: d nth_append)
  have nth0: "d ! ?o = tcp ! 0" "d ! Suc ?o = tcp ! Suc 0" using nth [of 0] nth [of 1] by simp_all
  have nth': "d ! (k + ?o) = tcp ! k" if "k < 20" for k using nth [OF that] by (simp add: add.commute)
  have nl: "n \<le> length d" "\<not> n < ?o + 20" "\<not> n < ?o + length tcp" using l(1) by (simp_all add: d n)
  have r: "read_u16_network d ?o = Some (be16 (tcp ! 0) (tcp ! 1))"
    "read_u16_network d (?o + 2) = Some (be16 (tcp ! 2) (tcp ! 3))"
    "read_u32_network d (?o + 4) = Some (be32 (tcp ! 4) (tcp ! 5) (tcp ! 6) (tcp ! 7))"
    "rd d (?o + 13) = Some (tcp ! 13)" "rd d (?o + 12) = Some (tcp ! 12)"
    using nl(1,2) nth nth0 nth' by (simp_all add: read_u16_network_def read_u32_network_def rd_def add.assoc
        del: add_2_eq_Suc add_2_eq_Suc')
  define j1 where "j1 = i\<lparr>src_port := be16 (tcp ! 0) (tcp ! 1), dst_port := be16 (tcp ! 2) (tcp ! 3), has_ports := True,
    tcp_sequence := be32 (tcp ! 4) (tcp ! 5) (tcp ! 6) (tcp ! 7), tcp_flags := tcp ! 13 AND 0x3f, has_tcp_sequence := True\<rparr>"
  have p: "parse_tcp limit d n ?o i = parse_payload limit d n (?o + length tcp) j1"
    using nl l r by (simp add: parse_tcp_def parse_tcp_ports_def parse_tcp_sequence_and_flags_def parse_tcp_payload_def
        Let_def j1_def)
  have "drop (?o + length tcp) d = body @ post" by (simp add: d)
  then show ?thesis
    unfolding p using i nl(1) by (subst parse_payload_in) (auto simp: j1_def n)
qed


lemma protocol_ipv4: "protocol (ipv4_fields d ip hl parsed i) =
    (if d ! (ip + 9) = 1 then PROTO_ICMP else if d ! (ip + 9) = 6 then PROTO_TCP
     else if d ! (ip + 9) = 17 then PROTO_UDP else PROTO_OTHER)"
  by (simp add: ipv4_fields_def set_ipv4_protocol_def clear_transport_ports_def)

lemma ipv4_fields_same:
  "payload (ipv4_fields d ip hl parsed i) = payload i" "has_payload (ipv4_fields d ip hl parsed i) = has_payload i"
  "payload_preview (ipv4_fields d ip hl parsed i) = payload_preview i"
  "src_ip (ipv4_fields d ip hl parsed i) = src_ip i" "dst_ip (ipv4_fields d ip hl parsed i) = dst_ip i"
  by (simp_all add: ipv4_fields_def set_ipv4_protocol_def clear_transport_ports_def)

section \<open>Properties\<close>

text \<open>C28. Parsing is safe for any captured bytes: whatever the bytes, the link type and the decode limit,
  the parser reads only the captured bytes, returns 0, and fills the result consistently: texts
  terminated in their arrays, the payload window inside the capture and cut to the limit with its
  preview copied, ports only for TCP and UDP, no ports and no payload for a fragment, and a fragment
  payload inside the capture, which is what IPv4 reassembly requires of its input.\<close>

theorem parser_safe:
  assumes "platform_ok P" "n \<le> length d"
  shows "\<exists>i. parser_parse_packet_with_datalink P limit (Some d) n dl = Some (0, i) \<and> parsed_ok d limit i \<and>
    (length d < 2 ^ 63 \<longrightarrow> frag_input i)"
proof -
  obtain i where "parser_parse_packet_with_datalink P limit (Some d) n dl = Some (0, i)" "parsed_ok d limit i"
    using parser_ok [OF assms, of limit dl] by (auto simp: network_ok_def)
  then show ?thesis by (intro exI [of _ i]) (auto simp: frag_input_def parsed_ok_def terminated_def)
qed

definition ex_platform :: platform where
  "ex_platform = \<lparr>net = ex_inet, ntop6 = (\<lambda>_. [58, 58]), dlt_en10mb = 1, dlt_raw = 12, dlt_null = 0, dlt_loop = 108,
     dlt_ipv4 = Some 228, dlt_ipv6 = Some 229, dlt_linux_sll = Some 113, dlt_linux_sll2 = Some 276\<rparr>"

lemma ex_platform_ok: "platform_ok ex_platform"
  by (simp add: platform_ok_def ex_platform_def ex_inet_ok)

lemma parser_safe_witness:
  "\<exists>i. parser_parse_packet_with_datalink ex_platform 2048 (Some [0x60, 1, 2]) 3 12 = Some (0, i) \<and>
     parsed_ok [0x60, 1, 2] 2048 i \<and> frag_input i"
  using parser_safe [OF ex_platform_ok, of 3 "[0x60, 1, 2]" 2048 12] by simp

text \<open>C29. The walk over IPv6 extension headers is exact and always ends: the transport is reachable at an
  offset with a type exactly when a chain of complete hop-by-hop, routing, destination and
  authentication headers inside the packet leads there and the type is neither a fragment header,
  nor ESP, nor no-next-header.\<close>

theorem ipv6_transport_exact:
  assumes "n \<le> length d"
  shows "\<exists>t. find_ipv6_transport d n off h = Some t \<and>
    (\<forall>off' h'. transport_reachable t \<and> transport_offset t = off' \<and> next_header t = h' \<longleftrightarrow>
       transport_reachable t \<and> ipv6_chain d n off h off' h' \<and> h' \<noteq> 44 \<and> h' \<noteq> 50 \<and> h' \<noteq> 59) \<and>
    (transport_reachable t \<longleftrightarrow> (\<exists>off' h'. ipv6_chain d n off h off' h' \<and> h' \<noteq> 44 \<and> h' \<noteq> 50 \<and> h' \<noteq> 59))"
proof -
  obtain w where w: "ipv6_walk d n off h = Some w" using ipv6_walk_in [OF assms] by blast
  have chain: "ipv6_chain d n off h off' h' \<longleftrightarrow> w = \<lparr>next_header = h', transport_offset = off', transport_reachable = True\<rparr>"
    for off' h'
    using ipv6_chain_walk [OF _ assms, of off h off' h'] ipv6_walk_chain [OF assms w] w by auto
  obtain t where t: "find_ipv6_transport d n off h = Some t" using find_ipv6_transport_in [OF assms] by blast
  have "t = w \<and> transport_reachable w \<and> next_header w \<noteq> 44 \<and> next_header w \<noteq> 50 \<and> next_header w \<noteq> 59 \<or>
      \<not> transport_reachable t \<and> (\<not> transport_reachable w \<or> next_header w = 44 \<or> next_header w = 50 \<or> next_header w = 59)"
    using t w by (auto simp: find_ipv6_transport_def split: if_splits bind_splits)
  then show ?thesis using t chain by (intro exI [of _ t]) (cases w; auto)
qed


lemma ipv6_transport_exact_witness:
  "\<exists>t. find_ipv6_transport [6, 0, 0, 0, 0, 0, 0, 0, 1] 9 0 0 = Some t \<and> transport_reachable t"
proof -
  have "\<not> ipv6_extension_header_is_skippable 6" "ipv6_extension_header_is_skippable 0"
    by (simp_all add: ipv6_extension_header_is_skippable_def)
  then have "ipv6_chain [6, 0, 0, 0, 0, 0, 0, 0, 1] 9 0 0 8 6"
    using chain_step [of 0 0 "[6, 0, 0, 0, 0, 0, 0, 0, 1]" 9 8 6] chain_end [of 6 "[6, 0, 0, 0, 0, 0, 0, 0, 1]" 9 8]
    by (simp add: ext_length_def)
  moreover have "(6 :: u8) \<noteq> 44" "(6 :: u8) \<noteq> 50" "(6 :: u8) \<noteq> 59" by simp_all
  ultimately show ?thesis
    using ipv6_transport_exact [of 9 "[6, 0, 0, 0, 0, 0, 0, 0, 1]" 0 0] by (simp, blast)
qed

definition ex_iph :: bytes where
  "ex_iph = [0x45, 0, 0, 43, 0, 1, 0x40, 0, 64, 6, 0, 0, 10, 0, 0, 1, 10, 0, 0, 2]"

definition ex_tcp :: bytes where
  "ex_tcp = [0x1f, 0x90, 0, 80, 0, 0, 0, 7, 0, 0, 0, 0, 0x50, 0x18, 0, 0, 0, 0, 0, 0]"

definition ex_frame :: bytes where
  "ex_frame = replicate 12 0 @ [0x08, 0x00] @ ex_iph @ ex_tcp @ [1, 2, 3] @ [0, 0]"

text \<open>C30. Parsing recovers a TCP packet: for every Ethernet frame with a consistent unfragmented IPv4 header
  (with or without options), a TCP header of any data offset, any segment and any padding behind the
  datagram, the parser reports TCP with the addresses, ports, sequence number and flags of the
  headers, and its payload window is exactly the segment, cut to the decode limit: never the padding.\<close>

theorem parser_tcp_roundtrip:
  fixes eth iph tcp body padding :: bytes
  assumes eth: "length eth = 12"
    and iph: "ip_header_for iph 6 (length iph + length tcp + length body)" and tcp: "tcp_header_wf tcp"
  defines "frame \<equiv> eth @ [0x08, 0x00] @ iph @ tcp @ body @ padding"
  shows "\<exists>i. parser_parse_packet P limit (Some frame) (length frame) = Some (0, i) \<and> protocol i = PROTO_TCP \<and>
    cstr (src_ip i) = ipv4_text (iph ! 12) (iph ! 13) (iph ! 14) (iph ! 15) \<and>
    cstr (dst_ip i) = ipv4_text (iph ! 16) (iph ! 17) (iph ! 18) (iph ! 19) \<and>
    has_ports i \<and> src_port i = be16 (tcp ! 0) (tcp ! 1) \<and> dst_port i = be16 (tcp ! 2) (tcp ! 3) \<and>
    has_tcp_sequence i \<and> tcp_sequence i = be32 (tcp ! 4) (tcp ! 5) (tcp ! 6) (tcp ! 7) \<and>
    tcp_flags i = tcp ! 13 AND 0x3f \<and>
    (if body = [] then \<not> has_payload i \<and> payload i = None
     else has_payload i \<and> payload_capture_length i = length body \<and>
       payload_decode_length i = min (length body) limit \<and> (\<exists>p. payload i = Some p \<and> take (length body) p = body))"
proof -
  let ?n = "length frame" and ?i = "initialize_packet_info (length frame)"
  let ?tlen = "length iph + length tcp + length body"
  have ip: "20 \<le> length iph" "drop_bit 4 (iph ! 0) = 4" "unat (iph ! 0 AND 0x0f) * 4 = length iph" "iph ! 9 = 6"
    "unat (be16 (iph ! 2) (iph ! 3)) = ?tlen" "\<not> is_fragment_field (be16 (iph ! 6) (iph ! 7))"
    using iph by (auto simp: ip_header_for_def)
  have nth: "frame ! (14 + k) = iph ! k" if "k < 20" for k using that eth ip(1) by (simp add: frame_def nth_append)
  have nth0: "frame ! 14 = iph ! 0" using nth [of 0] by simp
  have ln: "?n = 14 + ?tlen + length padding" using eth by (simp add: frame_def)
  define parsed where "parsed = 14 + min (?n - 14) ?tlen"
  have parsed: "parsed = 14 + ?tlen" using ln by (simp add: parsed_def)
  define j where "j = ipv4_fields frame 14 (length iph) parsed (ipv4_addresses frame 14 ?i)"
  have i: "terminated 46 (src_ip ?i)" "terminated 46 (dst_ip ?i)" "length (ipv4_header ?i) = 60"
    "length (payload_preview ?i) = 256" "payload ?i = None" "\<not> has_payload ?i" "length (src_ip ?i) = 46" "length (dst_ip ?i) = 46"
    by (simp_all add: initialize_packet_info_def packet_info_zero_def)
  have proto: "protocol j = PROTO_TCP" using nth [of 9] ip(4) by (simp add: j_def protocol_ipv4)
  have fields: "frame ! (14 + 2) = iph ! 2" "frame ! (14 + 3) = iph ! 3" "frame ! (14 + 6) = iph ! 6" "frame ! (14 + 7) = iph ! 7"
    by (rule nth, simp)+
  have hl: "unat (frame ! 14 AND 0x0f) * 4 = length iph" using ip(3) nth0 by simp
  have tl: "unat (be16 (frame ! (14 + 2)) (frame ! (14 + 3))) = ?tlen" by (simp only: fields ip(5))
  note whole = parse_ipv4_in [where d = frame and n = ?n and ip = 14 and i = ?i and limit = limit,
      OF order_refl i(1-3), unfolded hl fields ip(5), folded parsed_def, folded j_def]
  have "parse_ipv4_packet limit frame ?n 14 ?i = (let j = j in
      if is_fragment_field (be16 (iph ! 6) (iph ! 7)) then Some (0, j\<lparr>is_ipv4_fragment := True\<rparr>)
      else do {
        k \<leftarrow> (if protocol j = PROTO_TCP then parse_tcp limit frame parsed (14 + length iph) j
             else if protocol j = PROTO_UDP then parse_udp limit frame parsed (14 + length iph) j
             else if protocol j = PROTO_ICMP then parse_icmp_payload limit frame parsed (14 + length iph) (clear_transport_ports j)
             else Some j);
        Some (0, k)
      })"
    using ip(1,2) ln nth0 by (intro whole) auto
  then have ipv4: "parse_ipv4_packet limit frame ?n 14 ?i = do {
      k \<leftarrow> parse_tcp limit frame parsed (14 + length iph) j; Some (0, k) }"
    by (simp only: Let_def ip(6) if_False proto if_True simp_thms)
  have "\<exists>k. parse_tcp limit frame parsed (length (eth @ [0x08, 0x00] @ iph)) j = Some k \<and>
    src_port k = be16 (tcp ! 0) (tcp ! 1) \<and> dst_port k = be16 (tcp ! 2) (tcp ! 3) \<and> has_ports k \<and>
    tcp_sequence k = be32 (tcp ! 4) (tcp ! 5) (tcp ! 6) (tcp ! 7) \<and> tcp_flags k = tcp ! 13 AND 0x3f \<and>
    has_tcp_sequence k \<and>
    (if body = [] then payload k = payload j \<and> has_payload k = has_payload j
     else payload k = Some (body @ padding) \<and> has_payload k \<and> payload_capture_length k = length body \<and>
       payload_decode_length k = min (length body) limit) \<and>
    src_ip k = src_ip j \<and> dst_ip k = dst_ip j \<and> protocol k = protocol j"
    using eth parsed tcp i(4)
    by (intro parse_tcp_in) (auto simp: frame_def j_def ipv4_fields_same ipv4_addresses_def)
  moreover have "length (eth @ [0x08, 0x00] @ iph) = 14 + length iph" using eth by simp
  ultimately obtain k where k: "parse_tcp limit frame parsed (14 + length iph) j = Some k"
    "src_port k = be16 (tcp ! 0) (tcp ! 1)" "dst_port k = be16 (tcp ! 2) (tcp ! 3)" "has_ports k"
    "tcp_sequence k = be32 (tcp ! 4) (tcp ! 5) (tcp ! 6) (tcp ! 7)" "tcp_flags k = tcp ! 13 AND 0x3f" "has_tcp_sequence k"
    "if body = [] then payload k = payload j \<and> has_payload k = has_payload j
     else payload k = Some (body @ padding) \<and> has_payload k \<and> payload_capture_length k = length body \<and>
       payload_decode_length k = min (length body) limit"
    "src_ip k = src_ip j" "dst_ip k = dst_ip j" "protocol k = protocol j" by auto
  have "select_network_layer P frame ?n (dlt_en10mb P) = Some (14, NETWORK_IPV4)"
  proof -
    have "frame ! 12 = 0x08" "frame ! 13 = 0" using eth by (simp_all add: frame_def nth_append)
    moreover have "be16 0x08 0 = 0x0800" by (simp add: be16_def)
    ultimately show ?thesis
      using ln by (simp add: select_network_layer_def read_u16_network_def rd_def network_from_ethertype_def)
  qed
  then have parse: "parser_parse_packet P limit (Some frame) ?n = Some (0, k)"
    using ln ip(1) ipv4 k(1) by (simp add: parser_parse_packet_def parser_parse_packet_with_datalink_def Let_def)
  have addr: "cstr (src_ip j) = ipv4_text (iph ! 12) (iph ! 13) (iph ! 14) (iph ! 15)"
    "cstr (dst_ip j) = ipv4_text (iph ! 16) (iph ! 17) (iph ! 18) (iph ! 19)"
  proof -
    have "cstr (put_str x (ipv4_text a b c d)) = ipv4_text a b c d" if "length x = 46" for x a b c d
      using that length_ipv4_text [of a b c d] by (intro cstr_put_fits) (auto simp: ipv4_text_no_nul)
    then show "cstr (src_ip j) = ipv4_text (iph ! 12) (iph ! 13) (iph ! 14) (iph ! 15)"
      "cstr (dst_ip j) = ipv4_text (iph ! 16) (iph ! 17) (iph ! 18) (iph ! 19)"
      using i(7,8) nth [of 12] nth [of 13] nth [of 14] nth [of 15] nth [of 16] nth [of 17] nth [of 18] nth [of 19]
      by (simp_all add: j_def ipv4_fields_same ipv4_addresses_def)
  qed
  have "payload j = None" "\<not> has_payload j" using i(5,6) by (simp_all add: j_def ipv4_fields_same ipv4_addresses_def)
  then show ?thesis using parse k proto addr by (intro exI [of _ k]) auto
qed

lemma parser_tcp_roundtrip_witness:
  "\<exists>i. parser_parse_packet ex_platform 2 (Some ex_frame) (length ex_frame) = Some (0, i) \<and>
     src_port i = 8080 \<and> tcp_sequence i = 7 \<and> payload_capture_length i = 3 \<and> payload_decode_length i = 2"
proof -
  have "ip_header_for ex_iph 6 (length ex_iph + length ex_tcp + length [1 :: u8, 2, 3])"
    by (simp add: ip_header_for_def ex_iph_def ex_tcp_def be16_def is_fragment_field_def)
  moreover have "tcp_header_wf ex_tcp" by (simp add: tcp_header_wf_def ex_tcp_def)
  moreover have "length (replicate 12 (0 :: u8)) = 12" by simp
  ultimately obtain i where "parser_parse_packet ex_platform 2 (Some ex_frame) (length ex_frame) = Some (0, i)"
    "src_port i = be16 (ex_tcp ! 0) (ex_tcp ! 1)"
    "tcp_sequence i = be32 (ex_tcp ! 4) (ex_tcp ! 5) (ex_tcp ! 6) (ex_tcp ! 7)"
    "if [1 :: u8, 2, 3] = [] then \<not> has_payload i \<and> payload i = None
     else has_payload i \<and> payload_capture_length i = length [1 :: u8, 2, 3] \<and>
       payload_decode_length i = min (length [1 :: u8, 2, 3]) 2 \<and>
       (\<exists>p. payload i = Some p \<and> take (length [1 :: u8, 2, 3]) p = [1, 2, 3])"
    using parser_tcp_roundtrip [where eth = "replicate 12 0" and iph = ex_iph and tcp = ex_tcp and body = "[1, 2, 3]" and P = ex_platform and limit = 2 and padding = "[0, 0]", folded ex_frame_def] by blast
  moreover have "be16 (ex_tcp ! 0) (ex_tcp ! 1) = 8080" "be32 (ex_tcp ! 4) (ex_tcp ! 5) (ex_tcp ! 6) (ex_tcp ! 7) = 7"
    by (simp_all add: ex_tcp_def be16_def be32_def)
  ultimately show ?thesis by (intro exI [of _ i]) simp
qed

end
