(* ===== verification/Filters.thy ===== *)
theory Filters
  imports Text Parser "HOL-Library.Sublist"
begin

text \<open>
  \<open>src/filters.c\<close> and \<open>src/filter.c\<close>: which packets are displayed.

  A \<open>char\<close> array that is read as a string is \<open>c_str\<close>: \<open>None\<close> when the array holds no terminator, so
  that the answer \<open>Some b\<close> of a filter also says that no string is read past its array. The texts
  below are the strings, and a pointer that walks one is the rest of it.

  The program is built with or without libidn2; \<open>idna\<close> is \<open>None\<close> without it, and otherwise the
  function \<open>idn2_lookup_u8\<close>, of which nothing is assumed.
\<close>

type_synonym idna = "(bytes \<Rightarrow> bytes option) option"

record filter_context =
  fc_packet :: "packet_info option"
  fc_packet_app :: "app_info option"
  fc_flow_app :: "app_info option"
  fc_flow_is_classified :: bool

section \<open>Transport filters\<close>

definition protocol_filter_matches :: "app_config \<Rightarrow> packet_info \<Rightarrow> bool" where
  "protocol_filter_matches config info =
     (if \<not> filter_protocol_enabled config then True else protocol info = filter_protocol config)"

definition port_filter_matches :: "app_config \<Rightarrow> packet_info \<Rightarrow> bool" where
  "port_filter_matches config info =
     (if \<not> filter_port_enabled config then True
      else if \<not> has_ports info then False
      else src_port info = filter_port config \<or> dst_port info = filter_port config)"

definition host_filter_matches :: "app_config \<Rightarrow> packet_info \<Rightarrow> bool option" where
  "host_filter_matches config info =
     (if \<not> filter_host_enabled config then Some True
      else do {
        s \<leftarrow> strcmp_equal (src_ip info) (filter_host config);
        if s then Some True else strcmp_equal (dst_ip info) (filter_host config)
      })"

section \<open>Payload filters\<close>

function contains_from :: "bytes \<Rightarrow> nat \<Rightarrow> bytes \<Rightarrow> nat \<Rightarrow> bool option" where
  "contains_from pl n needle i =
     (if i \<le> n - length needle then
        do { s \<leftarrow> rd_slice pl i (length needle);
             if s = needle then Some True else contains_from pl n needle (i + 1) }
      else Some False)"
  by pat_completeness auto
termination by (relation "measure (\<lambda>(_, n, needle, i). Suc (n - length needle) - i)") auto

declare contains_from.simps [simp del]

definition payload_contains :: "bytes option \<Rightarrow> nat \<Rightarrow> bytes \<Rightarrow> nat \<Rightarrow> bool option" where
  "payload_contains pl payload_length needle needle_length =
     (case pl of None \<Rightarrow> Some False
      | Some p \<Rightarrow>
        if needle_length = 0 then Some False
        else if payload_length < needle_length then Some False
        else do { nd \<leftarrow> rd_slice needle 0 needle_length; contains_from p payload_length nd 0 })"

definition payload_text_filter_matches :: "app_config \<Rightarrow> packet_info \<Rightarrow> bool option" where
  "payload_text_filter_matches config info =
     (if \<not> filter_payload_text_enabled config then Some True
      else if \<not> has_payload info then Some False
      else payload_contains (payload info) (payload_decode_length info)
             (filter_payload_text config) (filter_payload_text_length config))"

definition payload_hex_filter_matches :: "app_config \<Rightarrow> packet_info \<Rightarrow> bool option" where
  "payload_hex_filter_matches config info =
     (if \<not> filter_payload_hex_enabled config then Some True
      else if \<not> has_payload info then Some False
      else payload_contains (payload info) (payload_decode_length info)
             (filter_payload_hex config) (filter_payload_hex_length config))"

section \<open>Application filters\<close>

lemma dropWhile_shorter: "c \<noteq> [] \<Longrightarrow> length (dropWhile P c) - Suc 0 < length c"
  using length_dropWhile_le [of P c] by (cases c) auto

text \<open>The loop over the comma-separated list; the cursor is the rest of the list.\<close>

function alpn_list_loop :: "bytes \<Rightarrow> bytes \<Rightarrow> bool" where
  "alpn_list_loop cursor needle =
     (if cursor = [] then False
      else let token = takeWhile (\<lambda>c. c \<noteq> 44) cursor; rest = dropWhile (\<lambda>c. c \<noteq> 44) cursor in
        if length token = length needle \<and> token = needle then True
        else if rest = [] then False
        else alpn_list_loop (tl rest) needle)"
  by pat_completeness auto
termination by (relation "measure (\<lambda>(c, _). length c)") (auto simp: dropWhile_shorter)

declare alpn_list_loop.simps [simp del]

definition app_has_alpn :: "bytes \<Rightarrow> bytes \<Rightarrow> bool option" where
  "app_has_alpn lst needle = do {
     nd \<leftarrow> c_str needle;
     if nd = [] then Some False else do { l \<leftarrow> c_str lst; Some (alpn_list_loop l nd) }
   }"

definition ascii_lower :: "u8 \<Rightarrow> u8" where
  "ascii_lower c = (if 65 \<le> c \<and> c \<le> 90 then c + (97 - 65) else c)"

function domain_loop :: "bytes \<Rightarrow> bytes \<Rightarrow> nat \<Rightarrow> nat \<Rightarrow> bool option" where
  "domain_loop l r n i =
     (if i < n then do { a \<leftarrow> rd l i; b \<leftarrow> rd r i;
        if ascii_lower a \<noteq> ascii_lower b then Some False else domain_loop l r n (i + 1) }
      else Some True)"
  by pat_completeness auto
termination by (relation "measure (\<lambda>(_, _, n, i). n - i)") auto

declare domain_loop.simps [simp del]

definition domain_length :: "bytes \<Rightarrow> nat" where
  "domain_length s = (if length s > 1 \<and> s ! (length s - 1) = 46 then length s - 1 else length s)"

definition domain_name_equals_normalized :: "bytes \<Rightarrow> bytes \<Rightarrow> bool option" where
  "domain_name_equals_normalized left right =
     (if domain_length left \<noteq> domain_length right then Some False
      else domain_loop left right (domain_length left) 0)"

definition domain_name_equals_idna :: "(bytes \<Rightarrow> bytes option) \<Rightarrow> bytes \<Rightarrow> bytes \<Rightarrow> bool option" where
  "domain_name_equals_idna lookup left right =
     (case lookup left of None \<Rightarrow> Some False
      | Some l \<Rightarrow> case lookup right of None \<Rightarrow> Some False
        | Some r \<Rightarrow> domain_name_equals_normalized l r)"

definition domain_name_matches :: "idna \<Rightarrow> app_config \<Rightarrow> bytes \<Rightarrow> bytes \<Rightarrow> bool option" where
  "domain_name_matches idn config left right = do {
     l \<leftarrow> c_str left;
     r \<leftarrow> c_str right;
     if domain_match_mode config = DOMAIN_MATCH_EXACT then Some (l = r)
     else case idn of
         None \<Rightarrow> domain_name_equals_normalized l r
       | Some lookup \<Rightarrow>
           if domain_match_mode config = DOMAIN_MATCH_IDNA then domain_name_equals_idna lookup l r
           else domain_name_equals_normalized l r
   }"

text \<open>\<open>and_also a b\<close> is \<open>a && b\<close>: \<open>b\<close> is evaluated only when \<open>a\<close> holds.\<close>

definition and_also :: "bool option \<Rightarrow> bool option \<Rightarrow> bool option" where
  "and_also a b = do { x \<leftarrow> a; if x then b else Some False }"

text \<open>One guard of the C function: when the filter is on, the test has to succeed.\<close>

definition guard_filter :: "bool \<Rightarrow> bool option \<Rightarrow> bool option \<Rightarrow> bool option" where
  "guard_filter enabled test rest = (if enabled then and_also test rest else rest)"

definition dns_like :: "app_info \<Rightarrow> bool" where
  "dns_like a \<longleftrightarrow> app_protocol a = APP_PROTO_DNS \<or> app_protocol a = APP_PROTO_MDNS"

definition app_filter_matches_one :: "idna \<Rightarrow> app_config \<Rightarrow> app_info option \<Rightarrow> bool option" where
  "app_filter_matches_one idn config ap =
     (case ap of None \<Rightarrow> Some False
      | Some a \<Rightarrow>
        if app_protocol a = APP_PROTO_UNKNOWN then Some False
        else
          guard_filter (filter_app_enabled config) (Some (app_protocol a = filter_app_protocol config)) (
          guard_filter (filter_http_host_enabled config)
            (and_also (Some (app_protocol a = APP_PROTO_HTTP))
              (domain_name_matches idn config (http_host a) (filter_http_host config))) (
          guard_filter (filter_http_method_enabled config)
            (and_also (Some (app_protocol a = APP_PROTO_HTTP))
              (strcmp_equal (http_method a) (filter_http_method config))) (
          guard_filter (filter_dns_query_enabled config)
            (and_also (Some (dns_like a))
              (domain_name_matches idn config (dns_query_name a) (filter_dns_query config))) (
          guard_filter (filter_dns_type_enabled config)
            (Some (dns_like a \<and> dns_query_type a = filter_dns_type config)) (
          guard_filter (filter_tls_sni_enabled config)
            (and_also (Some (app_protocol a = APP_PROTO_TLS))
              (domain_name_matches idn config (tls_sni a) (filter_tls_sni config))) (
          guard_filter (filter_tls_alpn_enabled config)
            (and_also (Some (app_protocol a = APP_PROTO_TLS))
              (app_has_alpn (tls_alpn a) (filter_tls_alpn config))) (
          guard_filter (filter_dhcp_type_enabled config)
            (Some (app_protocol a = APP_PROTO_DHCP \<and> dhcp_message_type a = filter_dhcp_type config)) (
          guard_filter (filter_quic_version_enabled config)
            (Some (app_protocol a = APP_PROTO_QUIC \<and> quic_version a = filter_quic_version config))
            (Some True))))))))))"

definition app_filters_enabled :: "app_config \<Rightarrow> bool" where
  "app_filters_enabled config \<longleftrightarrow>
     filter_app_enabled config \<or> filter_http_host_enabled config \<or> filter_http_method_enabled config \<or>
     filter_dns_query_enabled config \<or> filter_dns_type_enabled config \<or> filter_tls_sni_enabled config \<or>
     filter_tls_alpn_enabled config \<or> filter_dhcp_type_enabled config \<or> filter_quic_version_enabled config"

definition app_filters_match :: "idna \<Rightarrow> app_config \<Rightarrow> filter_context \<Rightarrow> bool option" where
  "app_filters_match idn config context =
     (if \<not> app_filters_enabled config then Some True
      else if reassemble config then
        and_also (Some (fc_flow_is_classified context)) (app_filter_matches_one idn config (fc_flow_app context))
      else app_filter_matches_one idn config (fc_packet_app context))"

definition filters_match :: "idna \<Rightarrow> app_config option \<Rightarrow> filter_context option \<Rightarrow> bool option" where
  "filters_match idn config ctx =
     (case config of None \<Rightarrow> Some False
      | Some cfg \<Rightarrow> case ctx of None \<Rightarrow> Some False
        | Some c \<Rightarrow> case fc_packet c of None \<Rightarrow> Some False
          | Some info \<Rightarrow>
            and_also (Some (protocol_filter_matches cfg info)) (
            and_also (Some (port_filter_matches cfg info)) (
            and_also (host_filter_matches cfg info) (
            and_also (payload_text_filter_matches cfg info) (
            and_also (payload_hex_filter_matches cfg info) (
              app_filters_match idn cfg c))))))"

definition filter_packet_matches :: "idna \<Rightarrow> app_config option \<Rightarrow> packet_info option \<Rightarrow> bool option" where
  "filter_packet_matches idn config info =
     filters_match idn config (Some \<lparr>fc_packet = info, fc_packet_app = None, fc_flow_app = None,
       fc_flow_is_classified = False\<rparr>)"

section \<open>What the loops compute\<close>

text \<open>Substring search, by induction on the distance to the last possible offset.\<close>

lemma contains_from_exact:
  "length needle \<le> n \<Longrightarrow> n \<le> length p \<Longrightarrow>
   contains_from p n needle i = Some (\<exists>j\<ge>i. j \<le> n - length needle \<and> take (length needle) (drop j p) = needle)"
proof (induction p n needle i rule: contains_from.induct)
  case (1 p n needle i)
  show ?case
  proof (cases "i \<le> n - length needle")
    case True
    have r: "rd_slice p i (length needle) = Some (take (length needle) (drop i p))"
      using True 1(2,3) by (intro rd_slice_in) simp
    have step: "(\<exists>j\<ge>i. P j) \<longleftrightarrow> P i \<or> (\<exists>j\<ge>i + 1. P j)" for P :: "nat \<Rightarrow> bool"
      by (metis Suc_eq_plus1 le_SucI not_less_eq_eq order_antisym_conv order_refl)
    show ?thesis
      using 1(1) [OF True] True 1(2,3) by (subst contains_from.simps, subst step) (auto simp: r)
  next
    case False then show ?thesis by (subst contains_from.simps) auto
  qed
qed

lemma sublist_at:
  assumes "n \<le> length p"
  shows "sublist xs (take n p) \<longleftrightarrow> length xs \<le> n \<and> (\<exists>j \<le> n - length xs. take (length xs) (drop j p) = xs)"
proof
  assume "sublist xs (take n p)"
  then obtain a b where ab: "take n p = a @ xs @ b" by (auto simp: sublist_def)
  have len: "n = length a + length xs + length b" using assms arg_cong [OF ab, of length] by simp
  have "take (length xs) (drop (length a) p) = take (length xs) (drop (length a) (take n p))"
    using len by (simp add: drop_take min_def)
  also have "\<dots> = xs" by (simp add: ab)
  finally show "length xs \<le> n \<and> (\<exists>j \<le> n - length xs. take (length xs) (drop j p) = xs)"
    using len by (intro conjI exI [of _ "length a"]) auto
next
  assume "length xs \<le> n \<and> (\<exists>j \<le> n - length xs. take (length xs) (drop j p) = xs)"
  then obtain j where "length xs \<le> n" "j \<le> n - length xs" and js: "take (length xs) (drop j p) = xs" by blast
  then have j: "j + length xs \<le> n" "take (length xs) (drop j p) = xs" by simp_all
  have "take n p = take j p @ take (n - j) (drop j p)" using j(1) by (metis le_add_diff_inverse add_leD1 take_add)
  also have "take (n - j) (drop j p) = xs @ take (n - j - length xs) (drop (j + length xs) p)"
    using j by (metis add.commute add_le_imp_le_diff drop_drop le_add_diff_inverse take_add)
  finally show "sublist xs (take n p)" by (auto simp: sublist_def)
qed

lemma payload_contains_exact:
  assumes "needle_length \<le> length needle" and "case pl of None \<Rightarrow> True | Some p \<Rightarrow> n \<le> length p"
  shows "payload_contains pl n needle needle_length =
    Some (\<exists>p. pl = Some p \<and> 0 < needle_length \<and> sublist (take needle_length needle) (take n p))"
  using assms
  by (auto simp: payload_contains_def rd_slice_def sublist_at contains_from_exact split: option.splits)

text \<open>An element of a comma-separated list.\<close>

definition list_element :: "bytes \<Rightarrow> bytes \<Rightarrow> bool" where
  "list_element e l \<longleftrightarrow> e \<noteq> [] \<and> 44 \<notin> set e \<and>
     (\<exists>pre post. l = pre @ e @ post \<and> (pre = [] \<or> last pre = 44) \<and> (post = [] \<or> hd post = 44))"

lemma list_element_Nil [simp]: "\<not> list_element e []"
  by (auto simp: list_element_def)

lemma span_comma:
  assumes "44 \<notin> set e" "post = [] \<or> hd post = (44 :: u8)"
  shows "takeWhile (\<lambda>c. c \<noteq> 44) (e @ post) = e" "dropWhile (\<lambda>c. c \<noteq> 44) (e @ post) = post"
proof -
  have "c \<noteq> 44" if "c \<in> set e" for c using that assms(1) by auto
  then show "takeWhile (\<lambda>c. c \<noteq> 44) (e @ post) = e" "dropWhile (\<lambda>c. c \<noteq> 44) (e @ post) = post"
    using assms(2) by (cases post; simp add: takeWhile_append2 dropWhile_append2)+
qed

lemma list_element_step:
  assumes t: "44 \<notin> set t" and r: "r = [] \<or> hd r = 44"
  shows "list_element e (t @ r) \<longleftrightarrow> e \<noteq> [] \<and> t = e \<or> r \<noteq> [] \<and> list_element e (tl r)"
proof
  assume "list_element e (t @ r)"
  then obtain pre post where e: "e \<noteq> []" "44 \<notin> set e" "t @ r = pre @ e @ post"
    "pre = [] \<or> last pre = 44" "post = [] \<or> hd post = 44" by (auto simp: list_element_def)
  note span = span_comma [OF t r]
  show "e \<noteq> [] \<and> t = e \<or> r \<noteq> [] \<and> list_element e (tl r)"
  proof (cases "pre = []")
    case True
    then have "takeWhile (\<lambda>c. c \<noteq> 44) (t @ r) = e"
      using span_comma(1) [OF e(2,5)] e(3) by simp
    then show ?thesis using span e by simp
  next
    case False
    then have "44 \<in> set pre" using e(4) by (metis last_in_set)
    then obtain u v where uv: "pre = u @ 44 # v" "44 \<notin> set u" by (meson split_list_first)
    have "dropWhile (\<lambda>c. c \<noteq> 44) (t @ r) = 44 # v @ e @ post"
      using span_comma(2) [OF uv(2), of "44 # v @ e @ post"] uv(1) e(3) by simp
    then have "r = 44 # v @ e @ post" using span by simp
    moreover have "v = [] \<or> last v = 44" using e(4) uv False by (auto split: if_splits)
    ultimately show ?thesis using e by (auto simp: list_element_def)
  qed
next
  assume "e \<noteq> [] \<and> t = e \<or> r \<noteq> [] \<and> list_element e (tl r)"
  then show "list_element e (t @ r)"
  proof
    assume "e \<noteq> [] \<and> t = e" then show ?thesis using t r by (auto simp: list_element_def intro: exI [of _ "[]"])
  next
    assume a: "r \<noteq> [] \<and> list_element e (tl r)"
    then obtain pre post where "e \<noteq> []" "44 \<notin> set e" "tl r = pre @ e @ post"
      "pre = [] \<or> last pre = 44" "post = [] \<or> hd post = 44" by (auto simp: list_element_def)
    moreover have "r = 44 # tl r" using a r by (cases r) auto
    moreover from calculation have "t @ r = (t @ 44 # pre) @ e @ post" by simp
    moreover have "last (t @ 44 # pre) = 44" using calculation by auto
    ultimately show ?thesis unfolding list_element_def by blast
  qed
qed

lemma alpn_list_loop_exact: "nd \<noteq> [] \<Longrightarrow> alpn_list_loop l nd \<longleftrightarrow> list_element nd l"
proof (induction l nd rule: alpn_list_loop.induct)
  case (1 l nd)
  let ?t = "takeWhile (\<lambda>c. c \<noteq> 44) l" and ?r = "dropWhile (\<lambda>c. c \<noteq> 44) l"
  have r: "?r = [] \<or> hd ?r = 44" using hd_dropWhile [of "\<lambda>c. c \<noteq> 44" l] by auto
  have t: "44 \<notin> set ?t" by (auto dest: set_takeWhileD)
  have l: "list_element nd l \<longleftrightarrow> nd \<noteq> [] \<and> ?t = nd \<or> ?r \<noteq> [] \<and> list_element nd (tl ?r)"
    using list_element_step [OF t r, of nd] by simp
  show ?case using 1(2) 1(1) [of ?t ?r] by (subst alpn_list_loop.simps) (auto simp: l Let_def simp del: dropWhile_eq_Nil_conv)
qed

lemma app_has_alpn_exact:
  "0 \<in> set l \<Longrightarrow> 0 \<in> set nd \<Longrightarrow> app_has_alpn l nd = Some (list_element (cstr nd) (cstr l))"
  by (auto simp: app_has_alpn_def c_str_def alpn_list_loop_exact) (simp add: list_element_def)

text \<open>A domain name up to case and one trailing dot.\<close>

definition domain_norm :: "bytes \<Rightarrow> bytes" where
  "domain_norm s = map ascii_lower (if 1 < length s \<and> last s = 46 then butlast s else s)"

lemma domain_norm_eq: "domain_norm s = map ascii_lower (take (domain_length s) s)"
  by (cases "s = []") (auto simp: domain_norm_def domain_length_def last_conv_nth butlast_conv_take)

lemma domain_loop_exact:
  "n \<le> length l \<Longrightarrow> n \<le> length r \<Longrightarrow>
   domain_loop l r n i = Some (\<forall>j. i \<le> j \<and> j < n \<longrightarrow> ascii_lower (l ! j) = ascii_lower (r ! j))"
proof (induction l r n i rule: domain_loop.induct)
  case (1 l r n i)
  show ?case
  proof (cases "i < n")
    case True
    have "rd l i = Some (l ! i)" "rd r i = Some (r ! i)" using True 1(2,3) by (simp_all add: rd_def)
    moreover have "(\<forall>j. i \<le> j \<and> j < n \<longrightarrow> P j) \<longleftrightarrow> P i \<and> (\<forall>j. i + 1 \<le> j \<and> j < n \<longrightarrow> P j)" for P :: "nat \<Rightarrow> bool"
      using True by (metis Suc_eq_plus1 Suc_leD Suc_leI le_neq_implies_less order_refl)
    ultimately show ?thesis using 1 True by (subst domain_loop.simps) (auto simp del: One_nat_def)
  next
    case False then show ?thesis by (subst domain_loop.simps) auto
  qed
qed

lemma domain_equals_exact: "domain_name_equals_normalized l r = Some (domain_norm l = domain_norm r)"
proof -
  have len [simp]: "domain_length s \<le> length s" for s by (simp add: domain_length_def)
  have loop: "domain_loop l r (domain_length l) 0 = Some (\<forall>j < domain_length l. ascii_lower (l ! j) = ascii_lower (r ! j))"
    if "domain_length l = domain_length r"
    using that len [of l] len [of r] by (subst domain_loop_exact) (auto simp del: len)
  show ?thesis
  proof (cases "domain_length l = domain_length r")
    case True
    then show ?thesis
      using loop len [of l] by (auto simp: domain_name_equals_normalized_def domain_norm_eq list_eq_iff_nth_eq)
  next
    case False
    then have "length (domain_norm l) \<noteq> length (domain_norm r)" by (simp add: domain_norm_eq min_absorb2)
    then show ?thesis using False by (auto simp: domain_name_equals_normalized_def)
  qed
qed

section \<open>The filters decide their declarative reading\<close>


text \<open>
  The declarative reading of the filters: a payload filter asks for a substring of the decoded
  window, an ALPN filter for an element of the list, a name filter for the same name up to case and
  a trailing dot (or as the chosen mode compares names), and all enabled filters have to hold.
\<close>

definition domain_same :: "idna \<Rightarrow> DomainMatchMode \<Rightarrow> bytes \<Rightarrow> bytes \<Rightarrow> bool" where
  "domain_same idn mode l r =
     (if mode = DOMAIN_MATCH_EXACT then l = r
      else if mode = DOMAIN_MATCH_IDNA \<and> idn \<noteq> None then
        (case (the idn l, the idn r) of (Some a, Some b) \<Rightarrow> domain_norm a = domain_norm b | _ \<Rightarrow> False)
      else domain_norm l = domain_norm r)"

definition contains :: "packet_info \<Rightarrow> bytes \<Rightarrow> bool" where
  "contains i needle \<longleftrightarrow> has_payload i \<and> needle \<noteq> [] \<and>
     (\<exists>p. payload i = Some p \<and> sublist needle (take (payload_decode_length i) p))"

definition app_accepted :: "idna \<Rightarrow> app_config \<Rightarrow> app_info \<Rightarrow> bool" where
  "app_accepted idn cfg a \<longleftrightarrow> app_protocol a \<noteq> APP_PROTO_UNKNOWN \<and>
     (filter_app_enabled cfg \<longrightarrow> app_protocol a = filter_app_protocol cfg) \<and>
     (filter_http_host_enabled cfg \<longrightarrow> app_protocol a = APP_PROTO_HTTP \<and>
        domain_same idn (domain_match_mode cfg) (cstr (http_host a)) (cstr (filter_http_host cfg))) \<and>
     (filter_http_method_enabled cfg \<longrightarrow> app_protocol a = APP_PROTO_HTTP \<and>
        cstr (http_method a) = cstr (filter_http_method cfg)) \<and>
     (filter_dns_query_enabled cfg \<longrightarrow> dns_like a \<and>
        domain_same idn (domain_match_mode cfg) (cstr (dns_query_name a)) (cstr (filter_dns_query cfg))) \<and>
     (filter_dns_type_enabled cfg \<longrightarrow> dns_like a \<and> dns_query_type a = filter_dns_type cfg) \<and>
     (filter_tls_sni_enabled cfg \<longrightarrow> app_protocol a = APP_PROTO_TLS \<and>
        domain_same idn (domain_match_mode cfg) (cstr (tls_sni a)) (cstr (filter_tls_sni cfg))) \<and>
     (filter_tls_alpn_enabled cfg \<longrightarrow> app_protocol a = APP_PROTO_TLS \<and>
        list_element (cstr (filter_tls_alpn cfg)) (cstr (tls_alpn a))) \<and>
     (filter_dhcp_type_enabled cfg \<longrightarrow> app_protocol a = APP_PROTO_DHCP \<and> dhcp_message_type a = filter_dhcp_type cfg) \<and>
     (filter_quic_version_enabled cfg \<longrightarrow> app_protocol a = APP_PROTO_QUIC \<and> quic_version a = filter_quic_version cfg)"

definition accepted :: "idna \<Rightarrow> app_config \<Rightarrow> filter_context \<Rightarrow> packet_info \<Rightarrow> bool" where
  "accepted idn cfg c i \<longleftrightarrow>
     (filter_protocol_enabled cfg \<longrightarrow> protocol i = filter_protocol cfg) \<and>
     (filter_port_enabled cfg \<longrightarrow> has_ports i \<and> filter_port cfg \<in> {src_port i, dst_port i}) \<and>
     (filter_host_enabled cfg \<longrightarrow> cstr (filter_host cfg) \<in> {cstr (src_ip i), cstr (dst_ip i)}) \<and>
     (filter_payload_text_enabled cfg \<longrightarrow>
        contains i (take (filter_payload_text_length cfg) (filter_payload_text cfg))) \<and>
     (filter_payload_hex_enabled cfg \<longrightarrow>
        contains i (take (filter_payload_hex_length cfg) (filter_payload_hex cfg))) \<and>
     (app_filters_enabled cfg \<longrightarrow>
        (if reassemble cfg then fc_flow_is_classified c \<and> (\<exists>a. fc_flow_app c = Some a \<and> app_accepted idn cfg a)
         else \<exists>a. fc_packet_app c = Some a \<and> app_accepted idn cfg a))"

text \<open>What the code relies on: every string of the configuration, the packet and the metadata ends in its array.\<close>

definition filter_config_ok :: "app_config \<Rightarrow> bool" where
  "filter_config_ok cfg \<longleftrightarrow> terminated 46 (filter_host cfg) \<and>
     filter_payload_text_length cfg \<le> length (filter_payload_text cfg) \<and>
     filter_payload_hex_length cfg \<le> length (filter_payload_hex cfg) \<and>
     terminated 256 (filter_http_host cfg) \<and> terminated 16 (filter_http_method cfg) \<and>
     terminated 256 (filter_dns_query cfg) \<and> terminated 256 (filter_tls_sni cfg) \<and>
     terminated 256 (filter_tls_alpn cfg)"

definition filter_context_ok :: "filter_context \<Rightarrow> bool" where
  "filter_context_ok c \<longleftrightarrow>
     (\<forall>i. fc_packet c = Some i \<longrightarrow> terminated 46 (src_ip i) \<and> terminated 46 (dst_ip i) \<and>
        (\<forall>p. payload i = Some p \<longrightarrow> payload_decode_length i \<le> length p)) \<and>
     (\<forall>a. fc_packet_app c = Some a \<longrightarrow> app_info_ok a) \<and> (\<forall>a. fc_flow_app c = Some a \<longrightarrow> app_info_ok a)"

named_theorems filter_simps \<open>what each test of the filters answers on terminated strings\<close>

lemma and_also_Some [filter_simps]: "and_also (Some a) (Some b) = Some (a \<and> b)"
  by (simp add: and_also_def)

lemma guard_filter_Some [filter_simps]: "guard_filter e (Some t) (Some r) = Some ((e \<longrightarrow> t) \<and> r)"
  by (simp add: guard_filter_def and_also_Some)

lemmas [filter_simps] = c_str_terminated

lemma strcmp_terminated [filter_simps]:
  "0 \<in> set a \<Longrightarrow> 0 \<in> set b \<Longrightarrow> strcmp_equal a b = Some (cstr a = cstr b)"
  by (simp add: strcmp_equal_def c_str_terminated)

lemma alpn_terminated [filter_simps]:
  "0 \<in> set l \<Longrightarrow> 0 \<in> set nd \<Longrightarrow> app_has_alpn l nd = Some (list_element (cstr nd) (cstr l))"
  by (simp add: app_has_alpn_exact)

lemma domain_matches [filter_simps]:
  "0 \<in> set l \<Longrightarrow> 0 \<in> set r \<Longrightarrow>
   domain_name_matches idn cfg l r = Some (domain_same idn (domain_match_mode cfg) (cstr l) (cstr r))"
  by (auto simp: domain_name_matches_def c_str_terminated domain_same_def domain_equals_exact
      domain_name_equals_idna_def split: option.splits)

lemma contains_eq:
  "l \<le> length nd \<Longrightarrow> contains i (take l nd) \<longleftrightarrow> has_payload i \<and>
     (\<exists>p. payload i = Some p \<and> 0 < l \<and> sublist (take l nd) (take (payload_decode_length i) p))"
  by (auto simp: contains_def)

lemma app_filter_exact:
  assumes "filter_config_ok cfg" "\<And>a. ap = Some a \<Longrightarrow> app_info_ok a"
  shows "app_filter_matches_one idn cfg ap = Some (\<exists>a. ap = Some a \<and> app_accepted idn cfg a)"
proof (cases ap)
  case (Some a)
  then show ?thesis
    using assms by (simp add: app_filter_matches_one_def filter_config_ok_def app_info_ok_def terminated_def filter_simps app_accepted_def)
qed (simp add: app_filter_matches_one_def)

lemma filters_decide:
  assumes "filter_config_ok cfg" "filter_context_ok c" "fc_packet c = Some i"
  shows "filters_match idn (Some cfg) (Some c) = Some (accepted idn cfg c i)"
proof -
  have i: "terminated 46 (src_ip i)" "terminated 46 (dst_ip i)"
    "case payload i of None \<Rightarrow> True | Some p \<Rightarrow> payload_decode_length i \<le> length p"
    using assms(2,3) by (auto simp: filter_context_ok_def split: option.split)
  have cfg: "terminated 46 (filter_host cfg)" "filter_payload_text_length cfg \<le> length (filter_payload_text cfg)"
    "filter_payload_hex_length cfg \<le> length (filter_payload_hex cfg)" using assms(1) by (simp_all add: filter_config_ok_def)
  have "host_filter_matches cfg i = Some (filter_host_enabled cfg \<longrightarrow> cstr (filter_host cfg) \<in> {cstr (src_ip i), cstr (dst_ip i)})"
    using i cfg by (auto simp: host_filter_matches_def terminated_def filter_simps)
  moreover have "payload_text_filter_matches cfg i = Some (filter_payload_text_enabled cfg \<longrightarrow>
      contains i (take (filter_payload_text_length cfg) (filter_payload_text cfg)))"
    using i(3) cfg by (auto simp: payload_text_filter_matches_def payload_contains_exact contains_eq)
  moreover have "payload_hex_filter_matches cfg i = Some (filter_payload_hex_enabled cfg \<longrightarrow>
      contains i (take (filter_payload_hex_length cfg) (filter_payload_hex cfg)))"
    using i(3) cfg by (auto simp: payload_hex_filter_matches_def payload_contains_exact contains_eq)
  moreover have "app_filter_matches_one idn cfg (fc_flow_app c) = Some (\<exists>a. fc_flow_app c = Some a \<and> app_accepted idn cfg a)"
    "app_filter_matches_one idn cfg (fc_packet_app c) = Some (\<exists>a. fc_packet_app c = Some a \<and> app_accepted idn cfg a)"
    using assms by (auto intro!: app_filter_exact simp: filter_context_ok_def)
  moreover have "protocol_filter_matches cfg i = (filter_protocol_enabled cfg \<longrightarrow> protocol i = filter_protocol cfg)"
    "port_filter_matches cfg i = (filter_port_enabled cfg \<longrightarrow> has_ports i \<and> filter_port cfg \<in> {src_port i, dst_port i})"
    by (auto simp: protocol_filter_matches_def port_filter_matches_def)
  ultimately show ?thesis
    by (simp add: filters_match_def assms(3) app_filters_match_def accepted_def and_also_Some)
qed

text \<open>C31. The filters decide exactly their declarative reading, for every configuration, packet and
  metadata, and never read outside a string, the payload window or a configured pattern.\<close>

theorem filters_exact:
  assumes "filter_config_ok cfg" "filter_context_ok c" "fc_packet c = Some i"
  shows "filters_match idn (Some cfg) (Some c) = Some (accepted idn cfg c i)"
  using assms by (intro filters_decide)

lemma filters_exact_witness:
  "filters_match None (Some (config_init_defaults\<lparr>filter_payload_text_enabled := True,
       filter_payload_text := [66, 67] @ replicate 126 0, filter_payload_text_length := 2\<rparr>))
     (Some \<lparr>fc_packet = Some (packet_info_zero\<lparr>has_payload := True, payload := Some [65, 66, 67, 68], payload_decode_length := 3\<rparr>),
       fc_packet_app = None, fc_flow_app = None, fc_flow_is_classified = False\<rparr>) = Some True"
proof -
  define cfg where "cfg = config_init_defaults\<lparr>filter_payload_text_enabled := True,
       filter_payload_text := [66, 67] @ replicate 126 0, filter_payload_text_length := 2\<rparr>"
  define i where "i = packet_info_zero\<lparr>has_payload := True, payload := Some [65, 66, 67, 68], payload_decode_length := 3\<rparr>"
  define c where "c = \<lparr>fc_packet = Some i, fc_packet_app = None, fc_flow_app = None, fc_flow_is_classified = False\<rparr>"
  have "filter_config_ok cfg" by (simp add: filter_config_ok_def cfg_def config_init_defaults_def)
  moreover have "filter_context_ok c" by (simp add: filter_context_ok_def c_def i_def packet_info_zero_def)
  moreover have "fc_packet c = Some i" by (simp add: c_def)
  ultimately have "filters_match None (Some cfg) (Some c) = Some (accepted None cfg c i)" by (rule filters_exact)
  moreover have "[65, 66, 67 :: u8] = [65] @ [66, 67] @ []" by simp
  then have "sublist [66, 67] [65, 66, 67 :: u8]" unfolding sublist_def by blast
  then have "accepted None cfg c i"
    by (simp add: accepted_def cfg_def i_def config_init_defaults_def contains_def app_filters_enabled_def)
  ultimately show ?thesis by (simp add: cfg_def c_def i_def)
qed

end
