(* ===== verification/Stats.thy ===== *)
theory Stats
  imports Text Flow Ipv4_Frag
begin

text \<open>
  \<open>src/stats.c\<close>: the counters of a capture run and the report of \<open>--stats\<close>. A \<open>PacketStats\<close> pointer
  is the record; an operation returns it updated. What is printed is the list of bytes written to
  standard output.
\<close>

section \<open>Counting\<close>

definition stats_init :: "packet_stats \<Rightarrow> packet_stats" where
  "stats_init s = packet_stats_zero"

definition stats_update :: "packet_stats \<Rightarrow> packet_info \<Rightarrow> packet_stats" where
  "stats_update s info =
     (let s1 = s\<lparr>total_packets := total_packets s + 1, total_bytes := total_bytes s + of_nat (pkt_size info)\<rparr>;
          s2 = (if protocol info = PROTO_TCP then s1\<lparr>tcp_packets := tcp_packets s1 + 1\<rparr>
                else if protocol info = PROTO_UDP then s1\<lparr>udp_packets := udp_packets s1 + 1\<rparr>
                else if protocol info = PROTO_ICMP then s1\<lparr>icmp_packets := icmp_packets s1 + 1\<rparr>
                else if protocol info = PROTO_ARP then s1\<lparr>arp_packets := arp_packets s1 + 1\<rparr>
                else s1\<lparr>other_packets := other_packets s1 + 1\<rparr>)
      in if app_decode_status info = STATUS_NO_MATCH then s2\<lparr>app_decode_no_match := app_decode_no_match s2 + 1\<rparr>
         else if app_decode_status info = STATUS_NEED_MORE then s2\<lparr>app_decode_need_more := app_decode_need_more s2 + 1\<rparr>
         else if app_decode_status info = STATUS_MALFORMED then s2\<lparr>app_decode_malformed := app_decode_malformed s2 + 1\<rparr>
         else if app_decode_status info = STATUS_TRUNCATED then s2\<lparr>app_decode_truncated := app_decode_truncated s2 + 1\<rparr>
         else if app_decode_status info = STATUS_DECODED then s2\<lparr>app_decode_decoded := app_decode_decoded s2 + 1\<rparr>
         else s2)"

definition stats_record_raw_packet :: "packet_stats \<Rightarrow> packet_stats" where
  "stats_record_raw_packet s = s\<lparr>raw_packets_seen := raw_packets_seen s + 1\<rparr>"

definition stats_record_parse_failure :: "packet_stats \<Rightarrow> packet_stats" where
  "stats_record_parse_failure s = s\<lparr>parse_failures := parse_failures s + 1\<rparr>"

definition stats_record_filtered_out :: "packet_stats \<Rightarrow> packet_stats" where
  "stats_record_filtered_out s = s\<lparr>packets_filtered_out := packets_filtered_out s + 1\<rparr>"

definition stats_apply_flow_table :: "packet_stats \<Rightarrow> flow_table \<Rightarrow> packet_stats" where
  "stats_apply_flow_table s t =
     (let snapshot = flow_table_snapshot_stats t in
      s\<lparr>flow_count_created := st_flows_created snapshot,
        flow_count_active_at_exit := st_flows_active snapshot,
        flow_closed_fin := st_flows_closed_fin snapshot,
        flow_closed_rst := st_flows_closed_rst snapshot,
        flow_evicted_idle := st_flows_evicted_idle snapshot,
        flow_evicted_capacity := st_flows_evicted_capacity snapshot,
        flow_retransmissions := st_retransmissions snapshot,
        flow_out_of_order_segments := st_out_of_order_segments snapshot,
        flow_overlapping_segments := st_overlapping_segments snapshot,
        flow_gaps := st_gaps snapshot,
        flow_stream_bytes_in_use := st_stream_bytes_in_use snapshot,
        flow_stream_bytes_configured_max := st_stream_bytes_configured_max snapshot\<rparr>)"

definition stats_apply_ipv4_fragment_table :: "packet_stats \<Rightarrow> frag_table \<Rightarrow> packet_stats" where
  "stats_apply_ipv4_fragment_table s t =
     s\<lparr>ipv4_fragment_bytes_in_use := ft_used_bytes t, ipv4_fragment_bytes_configured_max := ft_max_bytes t\<rparr>"

definition stats_apply_pcap_drops :: "packet_stats \<Rightarrow> bool \<Rightarrow> u32 \<Rightarrow> u32 \<Rightarrow> u32 \<Rightarrow> packet_stats" where
  "stats_apply_pcap_drops s available received dropped if_dropped =
     (let s1 = s\<lparr>pcap_stats_available := available\<rparr> in
      if \<not> available then
        s1\<lparr>pcap_packets_received := 0, pcap_packets_dropped := 0, pcap_packets_if_dropped := 0\<rparr>
      else s1\<lparr>pcap_packets_received := received, pcap_packets_dropped := dropped,
             pcap_packets_if_dropped := if_dropped\<rparr>)"

section \<open>The report\<close>

text \<open>One line \<open>label: number\<close>.\<close>

definition stat_line :: "string \<Rightarrow> nat \<Rightarrow> bytes" where
  "stat_line label n = asc label @ asc '': '' @ dec n @ [10]"

definition stats_average :: "packet_stats \<Rightarrow> u64" where
  "stats_average s = (if total_packets s \<noteq> 0 then total_bytes s div ucast (total_packets s) else 0)"

definition stats_print :: "packet_stats \<Rightarrow> bytes" where
  "stats_print s =
     stat_line ''Displayed packets'' (unat (total_packets s)) @
     stat_line ''Raw packets seen'' (unat (raw_packets_seen s)) @
     stat_line ''Packets filtered out'' (unat (packets_filtered_out s)) @
     stat_line ''Parse failures'' (unat (parse_failures s)) @
     stat_line ''TCP'' (unat (tcp_packets s)) @
     stat_line ''UDP'' (unat (udp_packets s)) @
     stat_line ''ICMP'' (unat (icmp_packets s)) @
     stat_line ''ARP'' (unat (arp_packets s)) @
     stat_line ''Other'' (unat (other_packets s)) @
     stat_line ''Total bytes'' (unat (total_bytes s)) @
     stat_line ''Average packet size'' (unat (stats_average s)) @
     stat_line ''IPv4 fragments seen'' (unat (ipv4_fragments_seen s)) @
     stat_line ''IPv4 fragments reassembled'' (unat (ipv4_fragments_reassembled s)) @
     stat_line ''IPv4 fragments expired'' (unat (ipv4_fragments_expired s)) @
     stat_line ''IPv4 fragments malformed'' (unat (ipv4_fragments_malformed s)) @
     stat_line ''IPv4 fragments dropped'' (unat (ipv4_fragments_dropped s)) @
     stat_line ''IPv4 fragment bytes in use'' (ipv4_fragment_bytes_in_use s) @
     stat_line ''IPv4 fragment bytes configured max'' (ipv4_fragment_bytes_configured_max s) @
     (if pcap_stats_available s then
        stat_line ''Pcap packets received'' (unat (pcap_packets_received s)) @
        stat_line ''Pcap packets dropped'' (unat (pcap_packets_dropped s)) @
        stat_line ''Pcap interface drops'' (unat (pcap_packets_if_dropped s))
      else asc ''Pcap driver stats: unavailable'' @ [10]) @
     stat_line ''App decode no_match'' (unat (app_decode_no_match s)) @
     stat_line ''App decode need_more'' (unat (app_decode_need_more s)) @
     stat_line ''App decode malformed'' (unat (app_decode_malformed s)) @
     stat_line ''App decode truncated'' (unat (app_decode_truncated s)) @
     stat_line ''App decode decoded'' (unat (app_decode_decoded s)) @
     stat_line ''Flows created'' (unat (flow_count_created s)) @
     stat_line ''Flows active at exit'' (unat (flow_count_active_at_exit s)) @
     stat_line ''Flows closed (FIN)'' (unat (flow_closed_fin s)) @
     stat_line ''Flows closed (RST)'' (unat (flow_closed_rst s)) @
     stat_line ''Flows evicted (idle)'' (unat (flow_evicted_idle s)) @
     stat_line ''Flows evicted (capacity)'' (unat (flow_evicted_capacity s)) @
     stat_line ''Flow retransmissions'' (unat (flow_retransmissions s)) @
     stat_line ''Flow out-of-order segments'' (unat (flow_out_of_order_segments s)) @
     stat_line ''Flow overlapping segments'' (unat (flow_overlapping_segments s)) @
     stat_line ''Flow gaps'' (unat (flow_gaps s)) @
     stat_line ''Flow stream bytes in use'' (flow_stream_bytes_in_use s) @
     stat_line ''Flow stream bytes configured max'' (flow_stream_bytes_configured_max s)"

section \<open>Balance\<close>

text \<open>Every displayed packet is in exactly one protocol counter.\<close>

definition protocols_balanced :: "packet_stats \<Rightarrow> bool" where
  "protocols_balanced s \<longleftrightarrow>
     total_packets s = tcp_packets s + udp_packets s + icmp_packets s + arp_packets s + other_packets s"

lemma stats_update_balanced: "protocols_balanced s \<Longrightarrow> protocols_balanced (stats_update s i)"
  by (simp add: protocols_balanced_def stats_update_def Let_def)

lemma stats_update_fields [simp]:
  "total_packets (stats_update s i) = total_packets s + 1"
  "raw_packets_seen (stats_update s i) = raw_packets_seen s"
  "parse_failures (stats_update s i) = parse_failures s"
  "packets_filtered_out (stats_update s i) = packets_filtered_out s"
  by (simp_all add: stats_update_def Let_def)

end
