(* ===== verification/Csv_Logger.thy ===== *)
theory Csv_Logger
  imports Text
begin

text \<open>
  \<open>src/csv_logger.c\<close> and \<open>src/logger.c\<close>: the CSV log. The file-scope variables of \<open>csv_logger.c\<close> are the
  record \<open>csv_logger\<close>, whose \<open>log_bytes\<close> is what has been written to the open file. Creating the file,
  \<open>fdopen\<close>, \<open>fprintf\<close> of the header, \<open>fflush\<close>, \<open>ferror\<close> and \<open>fclose\<close> report success or failure as the
  operating system decides: these answers are arguments. Messages to standard error are not modelled.
  An item of a row is \<open>None\<close> when its string does not end in its array.
\<close>

record csv_logger =
  log_file :: bool
  log_bytes :: bytes
  app_columns_enabled :: bool
  payload_columns_enabled :: bool
  payload_logging_limit :: nat
  active_flush_mode :: LogFlushMode

definition csv_logger_initial :: csv_logger where
  "csv_logger_initial = \<lparr>log_file = False, log_bytes = [], app_columns_enabled = False,
     payload_columns_enabled = False, payload_logging_limit = 256, active_flush_mode = LOG_FLUSH_LINE\<rparr>"

section \<open>Fields\<close>

definition app_protocol_to_string :: "AppProtocol \<Rightarrow> string" where
  "app_protocol_to_string p = (case p of
      APP_PROTO_HTTP \<Rightarrow> ''http'' | APP_PROTO_DNS \<Rightarrow> ''dns'' | APP_PROTO_TLS \<Rightarrow> ''tls''
    | APP_PROTO_DHCP \<Rightarrow> ''dhcp'' | APP_PROTO_MDNS \<Rightarrow> ''mdns'' | APP_PROTO_QUIC \<Rightarrow> ''quic''
    | APP_PROTO_UNKNOWN \<Rightarrow> '''')"

text \<open>The formula characters \<open>= + - @\<close>. The cursor stops at the latest at the terminator.\<close>

definition formula_char :: "u8 \<Rightarrow> bool" where
  "formula_char c \<longleftrightarrow> c = 61 \<or> c = 43 \<or> c = 45 \<or> c = 64"

definition csv_text_needs_formula_prefix :: "bytes \<Rightarrow> bool" where
  "csv_text_needs_formula_prefix s =
     (case dropWhile (\<lambda>c. c = 32) s of [] \<Rightarrow> False | c # _ \<Rightarrow> formula_char c)"

definition csv_char :: "u8 \<Rightarrow> bytes" where
  "csv_char c = (if c = 34 then [34] else []) @
     (if 0x20 \<le> c \<and> c \<le> 0x7e then [c] else asc [CHR 0x5C, CHR ''x''] @ hex_fixed 2 (unat c))"

definition csv_text :: "bytes \<Rightarrow> bytes" where
  "csv_text s = [34] @ (if csv_text_needs_formula_prefix s then [39] else []) @ concat (map csv_char s) @ [34]"

definition write_csv_text :: "bytes \<Rightarrow> bytes option" where
  "write_csv_text buf = do { s \<leftarrow> c_str buf; Some (csv_text s) }"

definition payload_limit :: "csv_logger \<Rightarrow> packet_info \<Rightarrow> nat" where
  "payload_limit l info = (if payload_preview_length info > payload_logging_limit l
     then payload_logging_limit l else payload_preview_length info)"

fun hex_pairs :: "bytes \<Rightarrow> bytes" where
  "hex_pairs [] = []"
| "hex_pairs [b] = hex_fixed 2 (unat b)"
| "hex_pairs (b # bs) = hex_fixed 2 (unat b) @ [32] @ hex_pairs bs"

definition write_payload_hex :: "csv_logger \<Rightarrow> packet_info \<Rightarrow> bytes option" where
  "write_payload_hex l info =
     (if \<not> has_payload info then Some []
      else do { bs \<leftarrow> rd_slice (payload_preview info) 0 (payload_limit l info); Some (hex_pairs bs) })"

definition ascii_char :: "u8 \<Rightarrow> bytes" where
  "ascii_char v = (if v = 34 then [34] else []) @ [if 32 \<le> v \<and> v \<le> 126 then v else 46]"

definition write_payload_ascii :: "csv_logger \<Rightarrow> packet_info \<Rightarrow> bytes option" where
  "write_payload_ascii l info =
     (if \<not> has_payload info then Some []
      else do {
        bs \<leftarrow> rd_slice (payload_preview info) 0 (payload_limit l info);
        Some ((if csv_text_needs_formula_prefix bs then [39] else []) @ concat (map ascii_char bs))
      })"

section \<open>Rows\<close>

definition app_header :: string where
  "app_header = ''timestamp,src_ip,src_port,dst_ip,dst_port,transport_protocol,packet_length,app_protocol,http_method,http_host,http_path,http_status,dns_query,dns_type,dns_class,dns_rcode,tls_sni,tls_alpn,tls_record_version,tls_client_version,app_source,dhcp_message_type,dhcp_transaction_id,dhcp_client_mac,dhcp_client_ip,dhcp_your_ip,dhcp_server_ip,dhcp_requested_ip,quic_version,quic_dcid,quic_scid,arp_operation,arp_sender_mac,arp_target_mac''"

definition payload_header :: string where
  "payload_header = ''packet_number,protocol,src_ip,src_port,dst_ip,dst_port,size,payload_length,payload_hex,payload_ascii''"

definition plain_header :: string where
  "plain_header = ''packet_number,protocol,src_ip,src_port,dst_ip,dst_port,size''"

definition write_header :: "csv_logger \<Rightarrow> bytes" where
  "write_header l =
     asc (if app_columns_enabled l then app_header
          else if payload_columns_enabled l then payload_header else plain_header) @ [10]"

definition write_legacy_packet :: "csv_logger \<Rightarrow> packet_info \<Rightarrow> bytes option" where
  "write_legacy_packet l info =
     (if payload_columns_enabled l then cat [
        out_u (unat (packet_number info)), lit '','', lit (protocol_to_string (protocol info)), lit '','',
        c_str (src_ip info), lit '','',
        (if has_ports info then cat [out_u (unat (src_port info)), lit '','', c_str (dst_ip info), lit '','',
           out_u (unat (dst_port info)), lit '','']
         else cat [lit '','', c_str (dst_ip info), lit '',,'']),
        out_u (pkt_size info), lit '','', out_u (payload_capture_length info), lit '','', Some [34],
        write_payload_hex l info, Some [34], lit '','', Some [34], write_payload_ascii l info, Some [34, 10]]
      else if has_ports info then cat [
        out_u (unat (packet_number info)), lit '','', lit (protocol_to_string (protocol info)), lit '','',
        c_str (src_ip info), lit '','', out_u (unat (src_port info)), lit '','', c_str (dst_ip info), lit '','',
        out_u (unat (dst_port info)), lit '','', out_u (pkt_size info), Some [10]]
      else cat [
        out_u (unat (packet_number info)), lit '','', lit (protocol_to_string (protocol info)), lit '','',
        c_str (src_ip info), lit '',,'', c_str (dst_ip info), lit '',,'', out_u (pkt_size info), Some [10]])"

definition write_optional_port :: "packet_info \<Rightarrow> u16 \<Rightarrow> bytes option" where
  "write_optional_port info port = when_out (has_ports info) (out_u (unat port))"

definition write_hex_version :: "u16 \<Rightarrow> bytes option" where
  "write_hex_version v = when_out (v \<noteq> 0) (Some (asc ''0x'' @ hex_fixed 4 (unat v)))"

definition normalized_app_source :: "app_info option \<Rightarrow> string option \<Rightarrow> string" where
  "normalized_app_source ap source =
     (case ap of None \<Rightarrow> ''none''
      | Some a \<Rightarrow>
        if app_protocol a = APP_PROTO_UNKNOWN then ''none''
        else case source of None \<Rightarrow> ''none''
          | Some s \<Rightarrow> if s = ''packet'' \<or> s = ''flow'' then s else ''none'')"

definition arp_operation_name :: "u16 \<Rightarrow> string" where
  "arp_operation_name n = (if n = 1 then ''request'' else if n = 2 then ''reply'' else ''other'')"

text \<open>The cells of a row of the application schema, in the order of the calls; commas are written between them.\<close>

definition app_cells :: "packet_info \<Rightarrow> app_info option \<Rightarrow> string option \<Rightarrow> bytes option list" where
  "app_cells p ap source =
     (let a = (case ap of None \<Rightarrow> app_info_zero | Some a \<Rightarrow> a) in [
        write_csv_text (timestamp p),
        write_csv_text (src_ip p),
        write_optional_port p (src_port p),
        write_csv_text (dst_ip p),
        write_optional_port p (dst_port p),
        lit (protocol_to_string (protocol p)),
        out_u (pkt_size p),
        lit (app_protocol_to_string (app_protocol a)),
        write_csv_text (http_method a),
        write_csv_text (http_host a),
        write_csv_text (http_path a),
        when_out (http_status_code a \<noteq> 0) (out_u (unat (http_status_code a))),
        write_csv_text (dns_query_name a),
        when_out (dns_query_type a \<noteq> 0) (out_u (unat (dns_query_type a))),
        when_out (dns_query_class a \<noteq> 0) (out_u (unat (dns_query_class a))),
        out_u (unat (dns_rcode a)),
        write_csv_text (tls_sni a),
        write_csv_text (tls_alpn a),
        write_hex_version (tls_record_version a),
        write_hex_version (tls_client_version a),
        Some (csv_text (asc (normalized_app_source ap source))),
        when_out (dhcp_message_type a \<noteq> 0) (out_u (unat (dhcp_message_type a))),
        when_out (app_protocol a = APP_PROTO_DHCP) (Some (asc ''0x'' @ hex_fixed 8 (unat (dhcp_transaction_id a)))),
        write_csv_text (dhcp_client_mac a),
        write_csv_text (dhcp_client_ip a),
        write_csv_text (dhcp_your_ip a),
        write_csv_text (dhcp_server_ip a),
        write_csv_text (dhcp_requested_ip a),
        when_out (app_protocol a = APP_PROTO_QUIC) (Some (asc ''0x'' @ hex_fixed 8 (unat (quic_version a)))),
        write_csv_text (quic_dcid a),
        write_csv_text (quic_scid a),
        when_out (has_arp p) (lit (arp_operation_name (arp_operation p))),
        write_csv_text (arp_sender_mac p),
        write_csv_text (arp_target_mac p)])"

fun with_commas :: "bytes option list \<Rightarrow> bytes option" where
  "with_commas [] = Some []"
| "with_commas [x] = x"
| "with_commas (x # xs) = cat [x, lit '','', with_commas xs]"

definition write_app_packet :: "packet_info \<Rightarrow> app_info option \<Rightarrow> string option \<Rightarrow> bytes option" where
  "write_app_packet p ap source = cat [with_commas (app_cells p ap source), Some [10]]"

section \<open>The log file\<close>

text \<open>The returned integer is the C return value. A NULL packet is \<open>None\<close>.\<close>

definition csv_logger_close :: "bool \<Rightarrow> csv_logger \<Rightarrow> int \<times> csv_logger" where
  "csv_logger_close fclose_ok l =
     (if log_file l then (if fclose_ok then 0 else 1, l\<lparr>log_file := False\<rparr>) else (0, l))"

definition csv_logger_write_packet :: "bool \<Rightarrow> bool \<Rightarrow> csv_logger \<Rightarrow> packet_info option \<Rightarrow>
    app_info option \<Rightarrow> string option \<Rightarrow> (int \<times> csv_logger) option" where
  "csv_logger_write_packet file_error fflush_ok l packet ap source =
     (case packet of None \<Rightarrow> Some (0, l)
      | Some p \<Rightarrow>
        if \<not> log_file l then Some (0, l)
        else do {
          row \<leftarrow> (if app_columns_enabled l then write_app_packet p ap source else write_legacy_packet l p);
          let l1 = l\<lparr>log_bytes := log_bytes l @ row\<rparr>;
          Some (if file_error \<or> active_flush_mode l1 \<noteq> LOG_FLUSH_EXIT \<and> \<not> fflush_ok then 1 else 0, l1)
        })"

text \<open>The answers of the operating system to \<open>open\<close>, \<open>fdopen\<close>, the header's \<open>fprintf\<close>, \<open>fflush\<close> and the two closings.\<close>

record open_answers =
  open_ok :: bool
  fdopen_ok :: bool
  header_ok :: bool
  flush_ok :: bool
  close_before_ok :: bool
  close_after_ok :: bool

definition csv_logger_open :: "open_answers \<Rightarrow> csv_logger \<Rightarrow> bytes option \<Rightarrow> bool \<Rightarrow> bool \<Rightarrow> nat \<Rightarrow>
    LogFlushMode \<Rightarrow> int \<times> csv_logger" where
  "csv_logger_open os l path enable_app enable_payload preview_limit flush_mode =
     (if path = None \<or> path = Some [] then (1, l)
      else
        let l1 = snd (csv_logger_close (close_before_ok os) l);
            l2 = l1\<lparr>app_columns_enabled := enable_app, payload_columns_enabled := enable_payload,
                    payload_logging_limit := preview_limit, active_flush_mode := flush_mode\<rparr>;
            l3 = (if payload_logging_limit l2 > 256 then l2\<lparr>payload_logging_limit := 256\<rparr> else l2)
        in if \<not> open_ok os then (1, l3)
           else if \<not> fdopen_ok os then (1, l3)
           else
             let l4 = l3\<lparr>log_file := True, log_bytes := []\<rparr>;
                 l5 = (if header_ok os then l4\<lparr>log_bytes := write_header l4\<rparr> else l4)
             in if \<not> header_ok os \<or> \<not> flush_ok os then (1, snd (csv_logger_close (close_after_ok os) l5))
                else (0, l5))"

section \<open>The older interface\<close>

text \<open>\<open>src/logger.c\<close> keeps the two settings of payload columns and opens without application columns.\<close>

record legacy_logger =
  payload_logging_enabled :: bool
  legacy_payload_limit :: nat

definition legacy_logger_initial :: legacy_logger where
  "legacy_logger_initial = \<lparr>payload_logging_enabled = False, legacy_payload_limit = 256\<rparr>"

definition logger_set_payload_logging :: "int \<Rightarrow> nat \<Rightarrow> legacy_logger \<Rightarrow> legacy_logger" where
  "logger_set_payload_logging enabled preview_limit g =
     g\<lparr>payload_logging_enabled := enabled \<noteq> 0, legacy_payload_limit := preview_limit\<rparr>"

definition logger_open :: "open_answers \<Rightarrow> legacy_logger \<Rightarrow> csv_logger \<Rightarrow> bytes option \<Rightarrow> int \<times> csv_logger" where
  "logger_open os g l path =
     csv_logger_open os l path False (payload_logging_enabled g) (legacy_payload_limit g) LOG_FLUSH_LINE"

definition logger_write :: "bool \<Rightarrow> bool \<Rightarrow> csv_logger \<Rightarrow> packet_info option \<Rightarrow> csv_logger option" where
  "logger_write file_error fflush_ok l info =
     map_option snd (csv_logger_write_packet file_error fflush_ok l info None (Some ''none''))"

definition logger_close :: "bool \<Rightarrow> csv_logger \<Rightarrow> csv_logger" where
  "logger_close fclose_ok l = snd (csv_logger_close fclose_ok l)"

section \<open>Rows read back\<close>


text \<open>
  What reads the log: a field is a quoted text in which a quote is doubled, or plain characters up to a
  comma or the end of the line; \<open>csv_row\<close> reads one line and its newline.
\<close>

fun csv_quoted :: "bytes \<Rightarrow> (bytes \<times> bytes) option" where
  "csv_quoted [] = None"
| "csv_quoted (c # xs) =
     (if c = 34 then
        (case xs of d # ys \<Rightarrow> if d = 34 then map_option (\<lambda>(f, r). (34 # f, r)) (csv_quoted ys) else Some ([], xs)
         | [] \<Rightarrow> Some ([], []))
      else map_option (\<lambda>(f, r). (c # f, r)) (csv_quoted xs))"

definition csv_plain :: "u8 \<Rightarrow> bool" where
  "csv_plain c \<longleftrightarrow> c \<noteq> 34 \<and> c \<noteq> 44 \<and> c \<noteq> 10"

definition csv_field :: "bytes \<Rightarrow> (bytes \<times> bytes) option" where
  "csv_field bs = (case bs of c # xs \<Rightarrow> if c = 34 then csv_quoted xs else Some (takeWhile csv_plain bs, dropWhile csv_plain bs)
     | [] \<Rightarrow> Some ([], []))"

lemma csv_quoted_length: "csv_quoted bs = Some (f, r) \<Longrightarrow> length r \<le> length bs"
proof (induction bs arbitrary: f rule: csv_quoted.induct)
  case (2 c xs)
  then show ?case by (fastforce split: if_splits list.splits)
qed simp

lemma csv_field_length: "csv_field bs = Some (f, r) \<Longrightarrow> length r \<le> length bs"
  using csv_quoted_length [of "tl bs" f r] length_dropWhile_le [of csv_plain bs]
  by (auto simp: csv_field_def split: list.splits if_splits)

function csv_row :: "bytes \<Rightarrow> bytes list option" where
  "csv_row bs = (case csv_field bs of None \<Rightarrow> None
     | Some (f, []) \<Rightarrow> None
     | Some (f, c # r) \<Rightarrow>
         if c = 44 then map_option ((#) f) (csv_row r)
         else if c = 10 \<and> r = [] then Some [f] else None)"
  by pat_completeness auto
termination by (relation "measure length") (auto dest: csv_field_length)

declare csv_row.simps [simp del]

text \<open>\<open>cell_reads x f\<close>: the written cell \<open>x\<close> is read as the field \<open>f\<close>, whatever column follows.\<close>

definition cell_reads :: "bytes \<Rightarrow> bytes \<Rightarrow> bool" where
  "cell_reads x f \<longleftrightarrow> (\<forall>c r. c = 44 \<or> c = 10 \<longrightarrow> csv_field (x @ c # r) = Some (f, c # r))"

lemma plain_cell: "\<forall>c \<in> set x. csv_plain c \<Longrightarrow> cell_reads x x"
proof -
  assume x: "\<forall>c \<in> set x. csv_plain c"
  have "takeWhile csv_plain (x @ c # r) = x \<and> dropWhile csv_plain (x @ c # r) = c # r" if "c = 44 \<or> c = 10" for c r
    using x that by (auto simp: takeWhile_append2 dropWhile_append2 csv_plain_def)
  then show ?thesis using x by (cases x) (auto simp: cell_reads_def csv_field_def csv_plain_def)
qed

text \<open>The value of a text cell: the text, a non-printable byte as \<open>\xNN\<close>, and the formula prefix.\<close>

definition csv_seen :: "u8 \<Rightarrow> bytes" where
  "csv_seen c = (if 0x20 \<le> c \<and> c \<le> 0x7e then [c] else [92, 120] @ hex_fixed 2 (unat c))"

definition csv_value :: "bytes \<Rightarrow> bytes" where
  "csv_value s = (if csv_text_needs_formula_prefix s then [39] else []) @ concat (map csv_seen s)"

lemma hex_digit_range: "d < 16 \<Longrightarrow> 48 \<le> hex_digit d \<and> hex_digit d \<le> 102"
  using unat_hex_digit [of d] by (simp add: word_le_nat_alt)

lemma hex_fixed_printable: "b \<in> set (hex_fixed w n) \<Longrightarrow> 48 \<le> b \<and> b \<le> 102"
  using hex_digit_range [of "m mod 16" for m] by (induction w arbitrary: n) auto

lemma csv_char_eq: "csv_char c = (if c = 34 then [34, 34] else csv_seen c)"
  by (auto simp: csv_char_def csv_seen_def asc_def)

lemma csv_quoted_plain: "34 \<notin> set xs \<Longrightarrow> csv_quoted (xs @ r) = map_option (\<lambda>(f, r). (xs @ f, r)) (csv_quoted r)"
proof (induction xs)
  case Nil then show ?case by (cases "csv_quoted r") auto
next
  case (Cons x xs) then show ?case by (cases "csv_quoted r") auto
qed

lemma csv_seen_printable: "b \<in> set (csv_seen c) \<Longrightarrow> 32 \<le> b \<and> b \<le> 126"
  using hex_fixed_printable [of b 2 "unat c"] by (auto simp: csv_seen_def word_le_nat_alt split: if_splits)

lemma csv_quoted_text:
  "c \<noteq> 34 \<Longrightarrow> csv_quoted (concat (map csv_char s) @ 34 # c # r) = Some (concat (map csv_seen s), c # r)"
proof (induction s)
  case (Cons x s)
  show ?case
  proof (cases "x = 34")
    case False
    then have "34 \<notin> set (csv_seen x)"
      using hex_fixed_printable [of 34 2 "unat x"] by (auto simp: csv_seen_def word_le_nat_alt)
    then show ?thesis using False Cons by (simp add: csv_char_eq csv_quoted_plain)
  qed (use Cons in \<open>simp add: csv_char_eq csv_seen_def\<close>)
qed simp

lemma text_cell: "cell_reads (csv_text s) (csv_value s)"
  by (auto simp: cell_reads_def csv_text_def csv_field_def csv_value_def csv_quoted_text)

lemma row_cells:
  "length xs = length fs \<Longrightarrow> xs \<noteq> [] \<Longrightarrow> \<forall>(x, f) \<in> set (zip xs fs). \<exists>b. x = Some b \<and> cell_reads b f \<Longrightarrow>
   \<exists>row. with_commas xs = Some row \<and> csv_row (row @ [10]) = Some fs"
proof (induction xs fs rule: list_induct2)
  case (Cons x xs f fs)
  obtain b where b: "x = Some b" "cell_reads b f" using Cons.prems by auto
  show ?case
  proof (cases xs)
    case Nil
    then show ?thesis using b Cons.hyps by (auto simp: cell_reads_def csv_row.simps [of "b @ [10]"])
  next
    case (Cons y ys)
    then obtain row where row: "with_commas xs = Some row" "csv_row (row @ [10]) = Some fs" using Cons.IH Cons.prems by auto
    have "with_commas (x # xs) = Some (b @ 44 # row)" using Cons b(1) row(1) by (simp add: lit_def asc_def)
    moreover have "csv_field (b @ 44 # row @ [10]) = Some (f, 44 # row @ [10])" using b(2) by (simp add: cell_reads_def)
    then have "csv_row ((b @ 44 # row) @ [10]) = Some (f # fs)" using row(2) by (simp add: csv_row.simps [of "b @ _"])
    ultimately show ?thesis by blast
  qed
qed simp

text \<open>A field that no spreadsheet takes for a formula, and characters that no terminal interprets.\<close>

lemma value_no_formula: "\<not> csv_text_needs_formula_prefix (csv_value s)"
proof (cases "csv_text_needs_formula_prefix s")
  case False
  then have "csv_text_needs_formula_prefix (concat (map csv_seen s)) = False"
  proof (induction s)
    case (Cons c s)
    have "92 \<noteq> (32 :: u8)" "\<not> formula_char 92" by (simp_all add: formula_char_def)
    then show ?case using Cons by (auto simp: csv_text_needs_formula_prefix_def csv_seen_def)
  qed (simp add: csv_text_needs_formula_prefix_def)
  then show ?thesis using False by (simp add: csv_value_def)
qed (simp add: csv_value_def csv_text_needs_formula_prefix_def formula_char_def)

lemma value_printable: "b \<in> set (csv_value s) \<Longrightarrow> 32 \<le> b \<and> b \<le> 126"
  using csv_seen_printable by (auto simp: csv_value_def split: if_splits)

text \<open>The fields of a row of the application schema.\<close>

definition optional :: "bool \<Rightarrow> bytes \<Rightarrow> bytes" where "optional b x = (if b then x else [])"

definition app_values :: "packet_info \<Rightarrow> app_info \<Rightarrow> string \<Rightarrow> bytes list" where
  "app_values p a source = [
     csv_value (cstr (timestamp p)), csv_value (cstr (src_ip p)), optional (has_ports p) (dec (unat (src_port p))),
     csv_value (cstr (dst_ip p)), optional (has_ports p) (dec (unat (dst_port p))),
     asc (protocol_to_string (protocol p)), dec (pkt_size p), asc (app_protocol_to_string (app_protocol a)),
     csv_value (cstr (http_method a)), csv_value (cstr (http_host a)), csv_value (cstr (http_path a)),
     optional (http_status_code a \<noteq> 0) (dec (unat (http_status_code a))), csv_value (cstr (dns_query_name a)),
     optional (dns_query_type a \<noteq> 0) (dec (unat (dns_query_type a))),
     optional (dns_query_class a \<noteq> 0) (dec (unat (dns_query_class a))), dec (unat (dns_rcode a)),
     csv_value (cstr (tls_sni a)), csv_value (cstr (tls_alpn a)),
     optional (tls_record_version a \<noteq> 0) (asc ''0x'' @ hex_fixed 4 (unat (tls_record_version a))),
     optional (tls_client_version a \<noteq> 0) (asc ''0x'' @ hex_fixed 4 (unat (tls_client_version a))),
     csv_value (asc source), optional (dhcp_message_type a \<noteq> 0) (dec (unat (dhcp_message_type a))),
     optional (app_protocol a = APP_PROTO_DHCP) (asc ''0x'' @ hex_fixed 8 (unat (dhcp_transaction_id a))),
     csv_value (cstr (dhcp_client_mac a)), csv_value (cstr (dhcp_client_ip a)), csv_value (cstr (dhcp_your_ip a)),
     csv_value (cstr (dhcp_server_ip a)), csv_value (cstr (dhcp_requested_ip a)),
     optional (app_protocol a = APP_PROTO_QUIC) (asc ''0x'' @ hex_fixed 8 (unat (quic_version a))),
     csv_value (cstr (quic_dcid a)), csv_value (cstr (quic_scid a)),
     optional (has_arp p) (asc (arp_operation_name (arp_operation p))), csv_value (cstr (arp_sender_mac p)),
     csv_value (cstr (arp_target_mac p))]"

definition packet_texts_ok :: "packet_info \<Rightarrow> bool" where
  "packet_texts_ok p \<longleftrightarrow> 0 \<in> set (timestamp p) \<and> 0 \<in> set (src_ip p) \<and> 0 \<in> set (dst_ip p) \<and>
     0 \<in> set (arp_sender_mac p) \<and> 0 \<in> set (arp_target_mac p)"

definition word_char :: "u8 \<Rightarrow> bool" where
  "word_char c \<longleftrightarrow> 48 \<le> c \<and> c \<le> 57 \<or> 65 \<le> c \<and> c \<le> 90 \<or> 97 \<le> c \<and> c \<le> 122"

lemma word_char_facts: "word_char c \<Longrightarrow> csv_plain c \<and> c \<noteq> 32 \<and> \<not> formula_char c \<and> 32 \<le> c \<and> c \<le> 126"
  by (auto simp: word_char_def csv_plain_def formula_char_def word_le_nat_alt)

lemma dec_chars: "b \<in> set (dec n) \<Longrightarrow> word_char b"
proof (induction n rule: dec.induct)
  case (1 n)
  have "word_char (dec_digit d)" if "d < 10" for d
    using unat_dec_digit [OF that] that by (simp add: word_char_def word_le_nat_alt)
  then show ?case using 1 by (subst (asm) dec.simps) (auto split: if_splits)
qed

lemma hex_chars: "b \<in> set (hex_fixed w n) \<Longrightarrow> word_char b"
proof (induction w arbitrary: n)
  case (Suc w)
  have "word_char (hex_digit d)" if "d < 16" for d
    using unat_hex_digit [OF that] that by (auto simp: word_char_def word_le_nat_alt)
  then show ?case using Suc by auto
qed simp

lemma name_chars:
  shows "b \<in> set (asc (protocol_to_string p)) \<Longrightarrow> word_char b"
    and "b \<in> set (asc (app_protocol_to_string q)) \<Longrightarrow> word_char b"
    and "b \<in> set (asc (arp_operation_name n)) \<Longrightarrow> word_char b"
    and "b \<in> set (asc ''0x'') \<Longrightarrow> word_char b"
proof -
  show "b \<in> set (asc (protocol_to_string p)) \<Longrightarrow> word_char b"
    by (cases p) (auto simp: protocol_to_string_def asc_def word_char_def)
  show "b \<in> set (asc (app_protocol_to_string q)) \<Longrightarrow> word_char b"
    by (cases q) (auto simp: app_protocol_to_string_def asc_def word_char_def)
  show "b \<in> set (asc (arp_operation_name n)) \<Longrightarrow> word_char b"
    by (auto simp: arp_operation_name_def asc_def word_char_def split: if_splits)
  show "b \<in> set (asc ''0x'') \<Longrightarrow> word_char b" by (auto simp: asc_def word_char_def)
qed

lemma chars_cell:
  assumes "\<forall>b \<in> set x. word_char b"
  shows "cell_reads x x" "\<not> csv_text_needs_formula_prefix x" "\<forall>b \<in> set x. 32 \<le> b \<and> b \<le> 126"
proof -
  show "cell_reads x x" "\<forall>b \<in> set x. 32 \<le> b \<and> b \<le> 126"
    using assms word_char_facts by (auto intro: plain_cell)
  show "\<not> csv_text_needs_formula_prefix x"
    using assms word_char_facts by (cases x) (auto simp: csv_text_needs_formula_prefix_def)
qed

text \<open>A written cell is good for a value: it reads back, is no formula and is printable.\<close>

definition good_cell :: "bytes option \<Rightarrow> bytes \<Rightarrow> bool" where
  "good_cell x f \<longleftrightarrow> (\<exists>b. x = Some b \<and> cell_reads b f \<and> (\<forall>c \<in> set b. 32 \<le> c \<and> c \<le> 126)) \<and>
     \<not> csv_text_needs_formula_prefix f"

named_theorems cells \<open>which cells are good\<close>

lemma csv_text_printable: "b \<in> set (csv_text s) \<Longrightarrow> 32 \<le> b \<and> b \<le> 126"
proof -
  have "32 \<le> b \<and> b \<le> 126" if "b \<in> set (csv_char c)" for c
    using that csv_seen_printable [of b c] by (auto simp: csv_char_eq split: if_splits)
  then show "b \<in> set (csv_text s) \<Longrightarrow> 32 \<le> b \<and> b \<le> 126" by (auto simp: csv_text_def split: if_splits)
qed

lemma good_text [cells]: "0 \<in> set b \<Longrightarrow> good_cell (write_csv_text b) (csv_value (cstr b))"
  "good_cell (Some (csv_text s)) (csv_value s)"
  using text_cell value_no_formula csv_text_printable by (auto simp: good_cell_def write_csv_text_def c_str_def)

lemma good_chars: "\<forall>b \<in> set x. word_char b \<Longrightarrow> good_cell (Some x) x"
  using chars_cell by (auto simp: good_cell_def)

lemma good_plain [cells]:
  "good_cell (out_u n) (dec n)" "good_cell (lit (protocol_to_string p)) (asc (protocol_to_string p))"
  "good_cell (lit (app_protocol_to_string q)) (asc (app_protocol_to_string q))"
  "good_cell (lit (arp_operation_name m)) (asc (arp_operation_name m))"
  "good_cell (Some (asc ''0x'' @ hex_fixed w n)) (asc ''0x'' @ hex_fixed w n)"
  using dec_chars name_chars hex_chars by (auto simp: out_u_def lit_def intro!: good_chars)

lemma good_optional [cells]: "good_cell x f \<Longrightarrow> good_cell (when_out b x) (optional b f)"
  using good_chars [of "[]"] by (simp add: when_out_def optional_def)

lemma good_port [cells]: "good_cell (write_optional_port p q) (optional (has_ports p) (dec (unat q)))"
  "good_cell (write_hex_version v) (optional (v \<noteq> 0) (asc ''0x'' @ hex_fixed 4 (unat v)))"
  by (simp_all add: write_optional_port_def write_hex_version_def cells)

lemma good_row:
  assumes "length xs = length fs" "xs \<noteq> []" "\<forall>(x, f) \<in> set (zip xs fs). good_cell x f"
  shows "\<exists>row. with_commas xs = Some row \<and> csv_row (row @ [10]) = Some fs \<and> (\<forall>c \<in> set row. 32 \<le> c \<and> c \<le> 126) \<and>
    (\<forall>f \<in> set fs. \<not> csv_text_needs_formula_prefix f)"
proof -
  have "(\<forall>f \<in> set fs. \<not> csv_text_needs_formula_prefix f) \<and> (\<exists>row. with_commas xs = Some row \<and> (\<forall>c \<in> set row. 32 \<le> c \<and> c \<le> 126))"
    using assms
  proof (induction xs fs rule: list_induct2)
    case (Cons x xs f fs)
    then show ?case by (cases xs) (auto simp: good_cell_def lit_def asc_def)
  qed simp
  moreover have "\<exists>row. with_commas xs = Some row \<and> csv_row (row @ [10]) = Some fs"
    using assms by (intro row_cells) (auto simp: good_cell_def)
  ultimately show ?thesis by auto
qed

lemma app_cells_good:
  assumes "packet_texts_ok p" "\<forall>a. ap = Some a \<longrightarrow> app_info_ok a"
  defines "a \<equiv> (case ap of None \<Rightarrow> app_info_zero | Some a \<Rightarrow> a)"
  shows "\<forall>(x, f) \<in> set (zip (app_cells p ap source) (app_values p a (normalized_app_source ap source))). good_cell x f"
proof -
  have "app_info_ok a" using assms(2) by (auto simp: a_def split: option.splits)
  then show ?thesis
    using assms(1)
    by (simp add: app_cells_def app_values_def a_def [symmetric] cells packet_texts_ok_def app_info_ok_def terminated_def)
qed

text \<open>C32. Every row of the application schema can be read back: for any packet and metadata, whatever bytes
  their texts hold, it is one line of printable ASCII that a CSV reader splits into exactly as many
  fields as the header has columns, each with the value it was written for, and no field starts with a
  character that a spreadsheet takes for a formula.\<close>

theorem csv_row_readable:
  assumes "packet_texts_ok p" "\<forall>a. ap = Some a \<longrightarrow> app_info_ok a"
  shows "\<exists>row. write_app_packet p ap source = Some (row @ [10]) \<and>
    csv_row (row @ [10]) = Some (app_values p (case ap of None \<Rightarrow> app_info_zero | Some a \<Rightarrow> a) (normalized_app_source ap source)) \<and>
    length (app_values p (case ap of None \<Rightarrow> app_info_zero | Some a \<Rightarrow> a) (normalized_app_source ap source)) =
      Suc (length (filter (\<lambda>c. c = CHR '','') app_header)) \<and>
    (\<forall>c \<in> set row. 32 \<le> c \<and> c \<le> 126) \<and>
    (\<forall>f \<in> set (app_values p (case ap of None \<Rightarrow> app_info_zero | Some a \<Rightarrow> a) (normalized_app_source ap source)).
       \<not> csv_text_needs_formula_prefix f)"
proof -
  let ?fs = "app_values p (case ap of None \<Rightarrow> app_info_zero | Some a \<Rightarrow> a) (normalized_app_source ap source)"
  have len: "length (app_cells p ap source) = length ?fs" "app_cells p ap source \<noteq> []"
    by (simp_all add: app_cells_def app_values_def Let_def)
  note good = app_cells_good [OF assms, where source = source]
  obtain row where row: "with_commas (app_cells p ap source) = Some row" "csv_row (row @ [10]) = Some ?fs"
    "\<forall>c \<in> set row. 32 \<le> c \<and> c \<le> 126" "\<forall>f \<in> set ?fs. \<not> csv_text_needs_formula_prefix f"
    using good_row [OF len good] by blast
  have "length ?fs = Suc (length (filter (\<lambda>c. c = CHR '','') app_header))"
    by (simp add: app_values_def app_header_def)
  then show ?thesis using row by (auto simp: write_app_packet_def)
qed

lemma csv_row_readable_witness:
  "\<exists>row fs. write_app_packet packet_info_zero (Some (app_info_zero\<lparr>app_protocol := APP_PROTO_HTTP,
       http_host := asc ''=1,2'' @ replicate 252 0\<rparr>)) (Some ''packet'') = Some (row @ [10]) \<and>
     csv_row (row @ [10]) = Some fs \<and> fs ! 9 = asc [CHR 0x27, CHR ''='', CHR ''1'', CHR '','', CHR ''2'']"
proof -
  define a where "a = app_info_zero\<lparr>app_protocol := APP_PROTO_HTTP, http_host := asc ''=1,2'' @ replicate 252 0\<rparr>"
  have p: "packet_texts_ok packet_info_zero" by (simp add: packet_texts_ok_def packet_info_zero_def)
  have ok: "\<forall>b. Some a = Some b \<longrightarrow> app_info_ok b"
    using app_info_zero_ok by (auto simp: a_def app_info_ok_def terminated_def asc_def)
  have "cstr (http_host a) = asc ''=1,2''" by (simp add: a_def asc_def cstr_def)
  then have "csv_value (cstr (http_host a)) = asc [CHR 0x27, CHR ''='', CHR ''1'', CHR '','', CHR ''2'']"
    by (simp add: csv_value_def csv_text_needs_formula_prefix_def formula_char_def asc_def csv_seen_def)
  then have "app_values packet_info_zero a x ! 9 = asc [CHR 0x27, CHR ''='', CHR ''1'', CHR '','', CHR ''2'']" for x
    by (simp add: app_values_def)
  then show ?thesis
    using csv_row_readable [OF p ok, where source = "Some ''packet''"] unfolding a_def [symmetric] by (simp, blast)
qed

end
