(* ===== verification/Output.thy ===== *)
theory Output
  imports Text Parser Csv_Logger
begin

text \<open>
  \<open>src/output.c\<close> and the printing functions of \<open>src/common.c\<close>: what a displayed packet looks like on
  standard output, as text and as one line of JSON. A function returns the bytes it writes, \<open>None\<close>
  when it reads a string or the payload preview past the array. The string arrays of a record are
  printed through \<open>c_str\<close>; a \<open>char\<close> pointer to a literal is a \<open>string\<close>.
\<close>

section \<open>Names\<close>

definition dns_type_name :: "u16 \<Rightarrow> string option" where
  "dns_type_name t = (if t = 1 then Some ''A'' else if t = 2 then Some ''NS'' else if t = 5 then Some ''CNAME''
     else if t = 28 then Some ''AAAA'' else None)"

definition print_dns_type :: "u16 \<Rightarrow> bytes option" where
  "print_dns_type t = (case dns_type_name t of Some n \<Rightarrow> lit n | None \<Rightarrow> out_u (unat t))"

definition output_dhcp_type_name :: "u8 \<Rightarrow> string option" where
  "output_dhcp_type_name t =
     (if t = 1 then Some ''discover'' else if t = 2 then Some ''offer'' else if t = 3 then Some ''request''
      else if t = 4 then Some ''decline'' else if t = 5 then Some ''ack'' else if t = 6 then Some ''nak''
      else if t = 7 then Some ''release'' else if t = 8 then Some ''inform'' else None)"

definition print_dhcp_message_type :: "u8 \<Rightarrow> bytes option" where
  "print_dhcp_message_type t = (case output_dhcp_type_name t of Some n \<Rightarrow> lit n | None \<Rightarrow> out_u (unat t))"

definition app_protocol_name :: "AppProtocol \<Rightarrow> string" where
  "app_protocol_name p = (case p of
      APP_PROTO_HTTP \<Rightarrow> ''http'' | APP_PROTO_DNS \<Rightarrow> ''dns'' | APP_PROTO_TLS \<Rightarrow> ''tls''
    | APP_PROTO_DHCP \<Rightarrow> ''dhcp'' | APP_PROTO_MDNS \<Rightarrow> ''mdns'' | APP_PROTO_QUIC \<Rightarrow> ''quic''
    | APP_PROTO_UNKNOWN \<Rightarrow> ''unknown'')"

definition protocol_json_name :: "Protocol \<Rightarrow> string" where
  "protocol_json_name p = (case p of
      PROTO_TCP \<Rightarrow> ''tcp'' | PROTO_UDP \<Rightarrow> ''udp'' | PROTO_ICMP \<Rightarrow> ''icmp'' | PROTO_ARP \<Rightarrow> ''arp''
    | PROTO_OTHER \<Rightarrow> ''other'')"

definition transport_name :: "u8 \<Rightarrow> string" where
  "transport_name n = (if n = 6 then ''tcp'' else if n = 17 then ''udp'' else ''other'')"

section \<open>Text\<close>

definition print_flow_endpoint :: "platform \<Rightarrow> ip_address \<Rightarrow> u16 \<Rightarrow> bytes option" where
  "print_flow_endpoint P address port =
     (if ip_family address = af_inet (net P) then do {
        b \<leftarrow> rd_slice (ip_bytes address) 0 4;
        cat [Some (ipv4_text (b ! 0) (b ! 1) (b ! 2) (b ! 3)), lit '':'', out_u (unat port)] }
      else if ip_family address = af_inet6 (net P) then do {
        b \<leftarrow> rd_slice (ip_bytes address) 0 16;
        cat [lit ''['', Some (ntop6 P b), lit '']:'', out_u (unat port)] }
      else cat [lit ''unknown:'', out_u (unat port)])"

definition escape_char :: "u8 \<Rightarrow> bytes" where
  "escape_char c = (if 0x20 \<le> c \<and> c \<le> 0x7e \<and> c \<noteq> 92 then [c]
     else if c = 92 then [92, 92] else [92, 120] @ hex_fixed 2 (unat c))"

definition print_escaped_text :: "bytes \<Rightarrow> bytes option" where
  "print_escaped_text buf = do { s \<leftarrow> c_str buf; Some (concat (map escape_char s)) }"

definition print_text_field :: "string \<Rightarrow> bytes \<Rightarrow> bytes option" where
  "print_text_field name value = do {
     c \<leftarrow> rd value 0;
     if c = 0 then Some [] else cat [lit '' '', lit name, lit ''='', print_escaped_text value] }"

text \<open>The HTTP, DNS and mDNS, TLS, DHCP and QUIC fields that the text formats share.\<close>

definition print_dns_fields :: "app_info \<Rightarrow> bytes option" where
  "print_dns_fields a = cat [print_text_field ''query'' (dns_query_name a),
     when_out (dns_query_type a \<noteq> 0) (cat [lit '' type='', print_dns_type (dns_query_type a)])]"

definition print_tls_fields :: "app_info \<Rightarrow> bytes option" where
  "print_tls_fields a = cat [print_text_field ''sni'' (tls_sni a), print_text_field ''alpn'' (tls_alpn a)]"

definition print_http_fields :: "string \<Rightarrow> app_info \<Rightarrow> bytes option" where
  "print_http_fields status a = cat [print_text_field ''method'' (http_method a),
     when_out (http_status_code a \<noteq> 0) (cat [lit '' '', lit status, lit ''='', out_u (unat (http_status_code a))]),
     print_text_field ''host'' (http_host a), print_text_field ''path'' (http_path a)]"

definition print_dhcp_fields :: "app_info \<Rightarrow> bytes option" where
  "print_dhcp_fields a = cat [lit '' type='', print_dhcp_message_type (dhcp_message_type a),
     print_text_field ''client_mac'' (dhcp_client_mac a), print_text_field ''requested_ip'' (dhcp_requested_ip a)]"

definition print_quic_fields :: "app_info \<Rightarrow> bytes option" where
  "print_quic_fields a = cat [lit '' version=0x'', Some (hex_fixed 8 (unat (quic_version a))),
     print_text_field ''dcid'' (quic_dcid a), print_text_field ''scid'' (quic_scid a)]"

definition print_app_with_prefix :: "app_info option \<Rightarrow> string \<Rightarrow> bytes option" where
  "print_app_with_prefix ap prefix =
     (case ap of None \<Rightarrow> Some []
      | Some a \<Rightarrow> (case app_protocol a of
          APP_PROTO_UNKNOWN \<Rightarrow> Some []
        | APP_PROTO_HTTP \<Rightarrow> cat [lit prefix, lit ''http'', print_http_fields ''status'' a, Some [10]]
        | APP_PROTO_DNS \<Rightarrow> cat [lit prefix, lit ''dns'', print_dns_fields a, Some [10]]
        | APP_PROTO_TLS \<Rightarrow> cat [lit prefix, lit ''tls'', print_tls_fields a, Some [10]]
        | APP_PROTO_MDNS \<Rightarrow> cat [lit prefix, lit ''mdns'', print_dns_fields a, Some [10]]
        | APP_PROTO_DHCP \<Rightarrow> cat [lit prefix, lit ''dhcp'', print_dhcp_fields a, Some [10]]
        | APP_PROTO_QUIC \<Rightarrow> cat [lit prefix, lit ''quic'', print_quic_fields a, Some [10]]))"

definition print_flow_app_fields :: "app_info option \<Rightarrow> bytes option" where
  "print_flow_app_fields ap =
     (case ap of None \<Rightarrow> Some []
      | Some a \<Rightarrow>
        if app_protocol a = APP_PROTO_UNKNOWN then Some []
        else cat [lit '' app='', lit (app_protocol_name (app_protocol a)),
          (if app_protocol a = APP_PROTO_HTTP then print_http_fields ''status'' a
           else if app_protocol a = APP_PROTO_DNS then print_dns_fields a
           else if app_protocol a = APP_PROTO_TLS then print_tls_fields a
           else Some [])])"

definition output_print_packet_app :: "app_info option \<Rightarrow> bytes option" where
  "output_print_packet_app ap = print_app_with_prefix ap ''      app: ''"

definition output_print_packet_app_status :: "AppDecodeStatus \<Rightarrow> app_info option \<Rightarrow> bytes option" where
  "output_print_packet_app_status status ap = cat [
     lit ''      app: status='', lit (app_decode_status_to_string status),
     (case ap of None \<Rightarrow> Some []
      | Some a \<Rightarrow> (case app_protocol a of
          APP_PROTO_UNKNOWN \<Rightarrow> Some []
        | APP_PROTO_HTTP \<Rightarrow> cat [lit '' protocol=http'', print_http_fields ''status_code'' a]
        | APP_PROTO_DNS \<Rightarrow> cat [lit '' protocol=dns'', print_dns_fields a]
        | APP_PROTO_TLS \<Rightarrow> cat [lit '' protocol=tls'', print_tls_fields a]
        | APP_PROTO_MDNS \<Rightarrow> cat [lit '' protocol=mdns'', print_dns_fields a]
        | APP_PROTO_DHCP \<Rightarrow> cat [lit '' protocol=dhcp'', print_dhcp_fields a]
        | APP_PROTO_QUIC \<Rightarrow> cat [lit '' protocol=quic'', print_quic_fields a])),
     Some [10]]"

definition output_print_flow_app_event :: "platform \<Rightarrow> flow_info option \<Rightarrow> bytes option" where
  "output_print_flow_app_event P flow =
     (case flow of None \<Rightarrow> Some []
      | Some f \<Rightarrow>
        if app_protocol (fi_app f) = APP_PROTO_UNKNOWN then Some []
        else cat [lit ''flow '', lit (transport_name (transport_protocol (fi_key f))), lit '' '',
          print_flow_endpoint P (a_ip (fi_key f)) (a_port (fi_key f)), lit '' <-> '',
          print_flow_endpoint P (b_ip (fi_key f)) (b_port (fi_key f)),
          print_flow_app_fields (Some (fi_app f)), Some [10]])"



section \<open>JSON\<close>

definition json_char :: "u8 \<Rightarrow> bytes" where
  "json_char c =
     (if c = 34 then [92, 34] else if c = 92 then [92, 92] else if c = 8 then [92, 98]
      else if c = 12 then [92, 102] else if c = 10 then [92, 110] else if c = 13 then [92, 114]
      else if c = 9 then [92, 116]
      else if c < 0x20 \<or> c = 0x7f then [92, 117] @ hex_fixed 4 (unat c) else [c])"

definition json_string :: "bytes \<Rightarrow> bytes" where
  "json_string s = [34] @ concat (map json_char s) @ [34]"

text \<open>The argument is a string, a NULL pointer is \<open>None\<close>.\<close>

definition print_json_string :: "bytes option \<Rightarrow> bytes" where
  "print_json_string text = (case text of None \<Rightarrow> json_string [] | Some s \<Rightarrow> json_string s)"

definition print_json_buffer :: "bytes \<Rightarrow> bytes option" where
  "print_json_buffer buf = do { s \<leftarrow> c_str buf; Some (print_json_string (Some s)) }"

definition json_name :: "string \<Rightarrow> bytes option" where
  "json_name name = Some (asc [CHR '','', CHR 0x22] @ asc name @ asc [CHR 0x22, CHR '':''])"

definition print_json_text_field :: "string \<Rightarrow> bytes \<Rightarrow> bytes option" where
  "print_json_text_field name value = do {
     c \<leftarrow> rd value 0;
     if c = 0 then Some [] else cat [json_name name, print_json_buffer value] }"

definition ascii_json_char :: "u8 \<Rightarrow> bytes" where
  "ascii_json_char v = (if v = 34 \<or> v = 92 then [92, v] else if 0x20 \<le> v \<and> v \<le> 0x7e then [v] else [46])"

definition print_json_payload_ascii :: "packet_info \<Rightarrow> nat \<Rightarrow> bytes option" where
  "print_json_payload_ascii p limit = do {
     bs \<leftarrow> rd_slice (payload_preview p) 0 limit; Some ([34] @ concat (map ascii_json_char bs) @ [34]) }"

definition print_json_payload_hex :: "packet_info \<Rightarrow> nat \<Rightarrow> bytes option" where
  "print_json_payload_hex p limit = do {
     bs \<leftarrow> rd_slice (payload_preview p) 0 limit; Some ([34] @ hex_pairs bs @ [34]) }"

definition json_number_field :: "string \<Rightarrow> nat \<Rightarrow> bytes option" where
  "json_number_field name n = cat [json_name name, out_u n]"

definition json_hex_field :: "string \<Rightarrow> nat \<Rightarrow> nat \<Rightarrow> bytes option" where
  "json_hex_field name w n = cat [json_name name, Some ([34] @ asc ''0x'' @ hex_fixed w n @ [34])]"

definition json_dns_fields :: "app_info \<Rightarrow> bytes option" where
  "json_dns_fields a = cat [
     print_json_text_field ''query'' (dns_query_name a),
     when_out (dns_query_type a \<noteq> 0) (json_number_field ''type'' (unat (dns_query_type a))),
     when_out (dns_query_class a \<noteq> 0) (json_number_field ''class'' (unat (dns_query_class a))),
     json_number_field ''rcode'' (unat (dns_rcode a))]"

definition json_app_fields :: "app_info \<Rightarrow> bytes option" where
  "json_app_fields a =
     (case app_protocol a of
        APP_PROTO_HTTP \<Rightarrow> cat [
          print_json_text_field ''method'' (http_method a), print_json_text_field ''host'' (http_host a),
          print_json_text_field ''path'' (http_path a), print_json_text_field ''version'' (http_version a),
          when_out (http_status_code a \<noteq> 0) (json_number_field ''status'' (unat (http_status_code a)))]
      | APP_PROTO_DNS \<Rightarrow> json_dns_fields a
      | APP_PROTO_TLS \<Rightarrow> cat [
          print_json_text_field ''sni'' (tls_sni a), print_json_text_field ''alpn'' (tls_alpn a),
          when_out (tls_record_version a \<noteq> 0) (json_hex_field ''record_version'' 4 (unat (tls_record_version a))),
          when_out (tls_client_version a \<noteq> 0) (json_hex_field ''client_version'' 4 (unat (tls_client_version a)))]
      | APP_PROTO_MDNS \<Rightarrow> json_dns_fields a
      | APP_PROTO_DHCP \<Rightarrow> cat [
          json_name ''message_type'',
          Some (print_json_string (map_option asc (output_dhcp_type_name (dhcp_message_type a)))),
          json_hex_field ''transaction_id'' 8 (unat (dhcp_transaction_id a)),
          print_json_text_field ''client_mac'' (dhcp_client_mac a),
          print_json_text_field ''client_ip'' (dhcp_client_ip a),
          print_json_text_field ''your_ip'' (dhcp_your_ip a),
          print_json_text_field ''server_ip'' (dhcp_server_ip a),
          print_json_text_field ''requested_ip'' (dhcp_requested_ip a)]
      | APP_PROTO_QUIC \<Rightarrow> cat [
          json_hex_field ''version'' 8 (unat (quic_version a)),
          print_json_text_field ''dcid'' (quic_dcid a), print_json_text_field ''scid'' (quic_scid a)]
      | APP_PROTO_UNKNOWN \<Rightarrow> Some [])"

definition print_json_app :: "app_info option \<Rightarrow> bytes option" where
  "print_json_app ap =
     (case ap of None \<Rightarrow> lit ''null''
      | Some a \<Rightarrow>
        if app_protocol a = APP_PROTO_UNKNOWN then lit ''null''
        else cat [Some (asc [CHR ''{'', CHR 0x22] @ asc ''protocol'' @ asc [CHR 0x22, CHR '':'']),
          Some (print_json_string (Some (asc (app_protocol_name (app_protocol a))))),
          json_app_fields a,
          lit ''}''])"

definition normalized_json_app_source :: "app_info option \<Rightarrow> string option \<Rightarrow> string" where
  "normalized_json_app_source ap source =
     (case ap of None \<Rightarrow> ''none''
      | Some a \<Rightarrow>
        if app_protocol a = APP_PROTO_UNKNOWN then ''none''
        else case source of None \<Rightarrow> ''none''
          | Some s \<Rightarrow> if s = ''packet'' \<or> s = ''flow'' then s else ''none'')"

text \<open>The names of the first member of an object, after the opening brace.\<close>

definition json_first :: "string \<Rightarrow> bytes option" where
  "json_first name = Some (asc [CHR ''{'', CHR 0x22] @ asc name @ asc [CHR 0x22, CHR '':''])"

definition json_transport :: "packet_info \<Rightarrow> bytes option" where
  "json_transport p = do {
     s0 \<leftarrow> rd (src_ip p) 0;
     d0 \<leftarrow> rd (dst_ip p) 0;
     cat [json_name ''transport'', json_first ''protocol'',
       Some (print_json_string (Some (asc (protocol_json_name (protocol p))))),
       when_out (s0 \<noteq> 0) (cat [json_name ''src_ip'', print_json_buffer (src_ip p)]),
       when_out (has_ports p) (json_number_field ''src_port'' (unat (src_port p))),
       when_out (d0 \<noteq> 0) (cat [json_name ''dst_ip'', print_json_buffer (dst_ip p)]),
       when_out (has_ports p) (json_number_field ''dst_port'' (unat (dst_port p))),
       when_out (has_icmp p) (cat [json_number_field ''icmp_type'' (unat (icmp_type p)),
         json_number_field ''icmp_code'' (unat (icmp_code p))]),
       lit ''}'', json_number_field ''packet_length'' (pkt_size p)] }"

definition json_arp :: "packet_info \<Rightarrow> bytes option" where
  "json_arp p = when_out (has_arp p) (cat [
     json_name ''arp'', json_first ''operation'',
     Some (print_json_string (Some (asc (arp_operation_name (arp_operation p))))),
     json_name ''sender_mac'', print_json_buffer (arp_sender_mac p),
     json_name ''sender_ip'', print_json_buffer (src_ip p),
     json_name ''target_mac'', print_json_buffer (arp_target_mac p),
     json_name ''target_ip'', print_json_buffer (dst_ip p), lit ''}''])"

definition json_payload :: "packet_info \<Rightarrow> bool \<Rightarrow> nat \<Rightarrow> bytes option" where
  "json_payload p payload_enabled preview_limit =
     (let limit = (if payload_preview_length p > preview_limit then preview_limit else payload_preview_length p) in
      when_out (payload_enabled \<and> has_payload p) (cat [
        json_name ''payload'', json_first ''length'', out_u (payload_capture_length p),
        json_number_field ''preview_length'' limit,
        json_name ''truncated'', lit (if payload_capture_length p > limit then ''true'' else ''false''),
        json_name ''hex'', print_json_payload_hex p limit,
        json_name ''ascii'', print_json_payload_ascii p limit, lit ''}'']))"

definition output_print_packet_json :: "packet_info option \<Rightarrow> app_info option \<Rightarrow> string option \<Rightarrow> bool \<Rightarrow> nat \<Rightarrow> bytes option" where
  "output_print_packet_json packet ap source payload_enabled preview_limit =
     (case packet of None \<Rightarrow> Some []
      | Some p \<Rightarrow> cat [
          json_first ''timestamp'', print_json_buffer (timestamp p),
          json_number_field ''packet_number'' (unat (packet_number p)),
          json_transport p, json_arp p, json_payload p payload_enabled preview_limit,
          json_name ''app'', print_json_app ap,
          json_name ''app_decode_status'',
          Some (print_json_string (Some (asc (app_decode_status_to_string (app_decode_status p))))),
          json_name ''app_source'',
          Some (print_json_string (Some (asc (normalized_json_app_source ap source)))),
          Some (asc ''}'' @ [10])])"

section \<open>The packet line\<close>

text \<open>\<open>%03u\<close> and \<open>%-6s\<close>.\<close>

definition zero_padded :: "nat \<Rightarrow> nat \<Rightarrow> bytes" where
  "zero_padded w n = (let d = dec n in replicate (w - length d) 48 @ d)"

definition right_padded :: "nat \<Rightarrow> string \<Rightarrow> bytes" where
  "right_padded w s = asc s @ replicate (w - length s) 32"

definition packet_protocol_display :: "packet_info \<Rightarrow> string" where
  "packet_protocol_display p =
     (if protocol p = PROTO_ICMP \<and> ip_version p = 6 then ''ICMPv6'' else protocol_to_string (protocol p))"

definition print_endpoint_with_port :: "bytes \<Rightarrow> u16 \<Rightarrow> bytes option" where
  "print_endpoint_with_port ip port = do {
     s \<leftarrow> c_str ip;
     if 58 \<in> set s then cat [lit ''['', Some s, lit '']:'', out_u (unat port)]
     else cat [Some s, lit '':'', out_u (unat port)] }"

definition packet_info_print :: "packet_info option \<Rightarrow> bytes option" where
  "packet_info_print info =
     (case info of None \<Rightarrow> Some []
      | Some p \<Rightarrow> do {
          s0 \<leftarrow> rd (src_ip p) 0;
          d0 \<leftarrow> rd (dst_ip p) 0;
          let start = Some (asc ''['' @ zero_padded 3 (unat (packet_number p)) @ asc ''] '' @
            right_padded 6 (packet_protocol_display p) @ asc '' '');
          if s0 \<noteq> 0 \<and> d0 \<noteq> 0 then
            if has_ports p then cat [start, print_endpoint_with_port (src_ip p) (src_port p), lit '' -> '',
              print_endpoint_with_port (dst_ip p) (dst_port p), lit '' size='', out_u (pkt_size p), Some [10]]
            else cat [start, c_str (src_ip p), lit '' -> '', c_str (dst_ip p), lit '' size='', out_u (pkt_size p),
              when_out (has_icmp p) (cat [lit '' type='', out_u (unat (icmp_type p)),
                lit '' code='', out_u (unat (icmp_code p))]),
              when_out (has_arp p) (cat [lit '' op='', lit (arp_operation_name (arp_operation p)),
                lit '' sender_mac='', c_str (arp_sender_mac p), lit '' target_mac='', c_str (arp_target_mac p)]),
              Some [10]]
          else cat [start, lit ''size='', out_u (pkt_size p), Some [10]]
        })"

definition packet_info_print_payload :: "packet_info option \<Rightarrow> nat \<Rightarrow> bytes option" where
  "packet_info_print_payload info preview_limit =
     (case info of None \<Rightarrow> Some []
      | Some p \<Rightarrow>
        if \<not> has_payload p then Some []
        else do {
          let limit = (if payload_preview_length p > preview_limit then preview_limit else payload_preview_length p);
          bs \<leftarrow> rd_slice (payload_preview p) 0 limit;
          cat [lit ''      payload length='', out_u (payload_capture_length p), lit '' preview='', out_u limit,
            when_out (payload_capture_length p > limit) (cat [lit ''/'', out_u (payload_capture_length p)]), Some [10],
            lit ''      hex: '', Some (hex_pairs bs), Some [10],
            lit ''      ascii: '', Some (map (\<lambda>v. if isprint v then v else 46) bs), Some [10]]
        })"

end
