(* ===== verification/Json_Output.thy ===== *)
theory Json_Output
  imports Output
begin

text \<open>
  What the JSON output means. First a reader: the part of RFC 8259 without white space, arrays, signs, fractions,
  upper-case hexadecimal digits and \<open>\u\<close> escapes beyond ASCII, so that every text it accepts is a JSON text with
  the value it answers. Like RFC 8259 it reads UTF-8 only. Then the value that a packet is, and that the line printed
  for the packet is read as this value.
\<close>

section \<open>UTF-8\<close>

text \<open>
  The sequences of RFC 3629: after a first byte, the ranges that the following bytes have to lie in.
\<close>

definition utf8_lead :: "u8 \<Rightarrow> (u8 \<times> u8) list option" where
  "utf8_lead c =
     (let tail = (0x80, 0xbf) in
      if 0xc2 \<le> c \<and> c \<le> 0xdf then Some [tail]
      else if c = 0xe0 then Some [(0xa0, 0xbf), tail]
      else if c = 0xed then Some [(0x80, 0x9f), tail]
      else if 0xe1 \<le> c \<and> c \<le> 0xef then Some [tail, tail]
      else if c = 0xf0 then Some [(0x90, 0xbf), tail, tail]
      else if 0xf1 \<le> c \<and> c \<le> 0xf3 then Some [tail, tail, tail]
      else if c = 0xf4 then Some [(0x80, 0x8f), tail, tail]
      else None)"

fun utf8_from :: "(u8 \<times> u8) list \<Rightarrow> bytes \<Rightarrow> bool" where
  "utf8_from wanted [] = (wanted = [])"
| "utf8_from [] (c # xs) =
     (if c < 0x80 then utf8_from [] xs
      else case utf8_lead c of None \<Rightarrow> False | Some wanted \<Rightarrow> utf8_from wanted xs)"
| "utf8_from ((low, high) # wanted) (c # xs) = (low \<le> c \<and> c \<le> high \<and> utf8_from wanted xs)"

definition utf8_ok :: "bytes \<Rightarrow> bool" where
  "utf8_ok xs = utf8_from [] xs"

text \<open>What is wanted is never ASCII, so ASCII bytes separate.\<close>

definition beyond_ascii :: "(u8 \<times> u8) list \<Rightarrow> bool" where
  "beyond_ascii wanted \<longleftrightarrow> (\<forall>(low, high) \<in> set wanted. 0x80 \<le> low)"

lemma beyond_ascii_simps [simp]: "beyond_ascii []" "beyond_ascii ((l, h) # w) \<longleftrightarrow> 0x80 \<le> l \<and> beyond_ascii w"
  by (simp_all add: beyond_ascii_def)

lemma utf8_lead_beyond: "utf8_lead c = Some w \<Longrightarrow> beyond_ascii w"
  by (auto simp: utf8_lead_def Let_def split: if_splits)

lemma utf8_ascii_step: "beyond_ascii w \<Longrightarrow> c < 0x80 \<Longrightarrow> utf8_from w (c # xs) \<longleftrightarrow> w = [] \<and> utf8_from [] xs"
  by (cases w) auto

lemma utf8_high_step:
  "\<not> c < 0x80 \<Longrightarrow> beyond_ascii w \<Longrightarrow> \<exists>b w'. beyond_ascii w' \<and> (\<forall>ys. utf8_from w (c # ys) \<longleftrightarrow> b \<and> utf8_from w' ys)"
proof (cases w)
  case Nil
  assume "\<not> c < 0x80"
  show ?thesis
  proof (cases "utf8_lead c")
    case None
    then show ?thesis using Nil \<open>\<not> c < 0x80\<close> by (intro exI [of _ False] exI [of _ "[]"]) simp
  next
    case (Some w')
    then show ?thesis using Nil \<open>\<not> c < 0x80\<close> utf8_lead_beyond by (intro exI [of _ True] exI [of _ w']) simp
  qed
next
  case (Cons x w')
  assume "beyond_ascii w"
  then show ?thesis using Cons
    by (cases x) (auto intro!: exI [of _ "fst x \<le> c \<and> c \<le> snd x"] exI [of _ w'])
qed

lemma utf8_ascii_list: "\<forall>c \<in> set as. c < 0x80 \<Longrightarrow> utf8_from [] (as @ xs) = utf8_from [] xs"
  by (induction as) (simp_all add: utf8_ascii_step)

section \<open>Reading JSON\<close>

datatype json = JString bytes | JNumber nat | JBool bool | JNull | JObject "(bytes \<times> json) list"

definition hex_char :: "u8 \<Rightarrow> bool" where
  "hex_char c \<longleftrightarrow> 48 \<le> c \<and> c \<le> 57 \<or> 97 \<le> c \<and> c \<le> 102"

definition json_escape :: "u8 \<Rightarrow> u8 option" where
  "json_escape e = (if e = 34 then Some 34 else if e = 92 then Some 92 else if e = 47 then Some 47
     else if e = 98 then Some 8 else if e = 102 then Some 12 else if e = 110 then Some 10
     else if e = 114 then Some 13 else if e = 116 then Some 9 else None)"

text \<open>The text of a string after its opening quote, and what follows its closing quote.\<close>

fun json_string_rest :: "bytes \<Rightarrow> (bytes \<times> bytes) option" where
  "json_string_rest [] = None"
| "json_string_rest (c # xs) =
     (if c = 34 then Some ([], xs)
      else if c = 92 then
        (case xs of [] \<Rightarrow> None
         | e # ys \<Rightarrow>
            if e = 117 then
              (case ys of h1 # h2 # h3 # h4 # zs \<Rightarrow>
                 if list_all hex_char [h1, h2, h3, h4] \<and> hex_number [h1, h2, h3, h4] < 128
                 then map_option (apfst ((#) (of_nat (hex_number [h1, h2, h3, h4])))) (json_string_rest zs) else None
               | _ \<Rightarrow> None)
            else case json_escape e of None \<Rightarrow> None | Some b \<Rightarrow> map_option (apfst ((#) b)) (json_string_rest ys))
      else if c < 0x20 then None
      else map_option (apfst ((#) c)) (json_string_rest xs))"

definition json_digit :: "u8 \<Rightarrow> bool" where
  "json_digit c \<longleftrightarrow> 48 \<le> c \<and> c \<le> 57"

text \<open>A value, and the members of an object after its opening brace, each with the rest of the text. Every call reads
  at least one byte before the next one, so the length of the text is enough fuel.\<close>

fun json_value :: "nat \<Rightarrow> bytes \<Rightarrow> (json \<times> bytes) option"
  and json_members :: "nat \<Rightarrow> bytes \<Rightarrow> ((bytes \<times> json) list \<times> bytes) option" where
  "json_value 0 t = None"
| "json_value (Suc n) t =
     (case t of [] \<Rightarrow> None
      | c # u \<Rightarrow>
        if c = 34 then map_option (apfst JString) (json_string_rest u)
        else if c = 123 then
          (if u \<noteq> [] \<and> hd u = 125 then Some (JObject [], tl u) else map_option (apfst JObject) (json_members n u))
        else if json_digit c then
          (let ds = takeWhile json_digit t in
           if c = 48 \<and> length ds \<noteq> 1 then None else Some (JNumber (dec_number ds), dropWhile json_digit t))
        else if take 4 t = asc ''true'' then Some (JBool True, drop 4 t)
        else if take 5 t = asc ''false'' then Some (JBool False, drop 5 t)
        else if take 4 t = asc ''null'' then Some (JNull, drop 4 t)
        else None)"
| "json_members 0 t = None"
| "json_members (Suc n) t =
     (if t = [] \<or> hd t \<noteq> 34 then None
      else do {
        (k, u) \<leftarrow> json_string_rest (tl t);
        if u = [] \<or> hd u \<noteq> 58 then None
        else do {
          (x, v) \<leftarrow> json_value n (tl u);
          if v = [] then None
          else if hd v = 125 then Some ([(k, x)], tl v)
          else if hd v = 44 then do { (ms, w) \<leftarrow> json_members n (tl v); Some ((k, x) # ms, w) }
          else None
        }
      })"

definition json_read :: "bytes \<Rightarrow> json option" where
  "json_read line =
     (if \<not> utf8_ok line then None
      else case json_value (Suc (length line)) line of
        Some (j, rest) \<Rightarrow> if rest = [] then Some j else None
      | None \<Rightarrow> None)"

section \<open>Writing JSON\<close>

text \<open>Strings as the program writes them, members separated by commas.\<close>

fun render :: "json \<Rightarrow> bytes" where
  "render (JString s) = json_string s"
| "render (JNumber n) = dec n"
| "render (JBool b) = asc (if b then ''true'' else ''false'')"
| "render JNull = asc ''null''"
| "render (JObject ms) = [123] @ tl (concat (map (\<lambda>(k, v). [44] @ json_string k @ [58] @ render v) ms)) @ [125]"

fun utf8_json :: "json \<Rightarrow> bool" where
  "utf8_json (JString s) = utf8_ok s"
| "utf8_json (JObject ms) = list_all (\<lambda>(k, v). utf8_ok k \<and> utf8_json v) ms"
| "utf8_json _ = True"

lemma of_nat_hex: "of_nat (hex_number (hex_fixed 4 (unat (c :: u8)))) = c" "hex_number (hex_fixed 4 (unat c)) = unat c"
proof -
  have "unat c < 16 ^ 4" by (rule order_less_trans [OF unat_u8_less]) simp
  then show "hex_number (hex_fixed 4 (unat c)) = unat c" by (rule hex_number_fixed)
  then show "of_nat (hex_number (hex_fixed 4 (unat c))) = c" by simp
qed

lemma string_rest_char: "json_string_rest (json_char c @ r) = map_option (apfst ((#) c)) (json_string_rest r)"
proof (cases "c < 0x20 \<or> c = 0x7f")
  case True
  obtain h1 h2 h3 h4 where h: "hex_fixed 4 (unat c) = [h1, h2, h3, h4]"
    using length_hex_fixed [of 4 "unat c"] by (auto simp: length_Suc_conv numeral_eq_Suc simp del: length_hex_fixed hex_fixed.simps)
  have hx: "hex_char d" if "d \<in> set (hex_fixed w n)" for d w n
    using that
  proof (induction w arbitrary: n)
    case (Suc w)
    have "hex_char (hex_digit e)" if "e < 16" for e
      using unat_hex_digit [OF that] that by (auto simp: hex_char_def word_le_nat_alt)
    then show ?case using Suc by auto
  qed simp
  from hx [where w = 4 and n = "unat c"] have "list_all hex_char [h1, h2, h3, h4]" unfolding h by simp
  moreover have "hex_number [h1, h2, h3, h4] = unat c" "of_nat (hex_number [h1, h2, h3, h4]) = c"
    using of_nat_hex [of c] unfolding h by simp_all
  moreover have "unat c < 128" using True by (auto simp: word_less_nat_alt)
  ultimately have "json_string_rest ([92, 117] @ hex_fixed 4 (unat c) @ r) = map_option (apfst ((#) c)) (json_string_rest r)"
    unfolding h by simp
  then show ?thesis using True by (auto simp: json_char_def json_escape_def)
next
  case False
  then show ?thesis by (auto simp: json_char_def json_escape_def)
qed

lemma string_rest_string: "json_string_rest (concat (map json_char s) @ 34 # r) = Some (s, r)"
  by (induction s) (simp_all add: string_rest_char)

text \<open>Numbers: digits only, and no leading zero.\<close>

lemma digit_dec_digit: "d < 10 \<Longrightarrow> json_digit (dec_digit d)"
  using unat_dec_digit [of d] by (simp add: json_digit_def word_le_nat_alt)

lemma dec_digits: "c \<in> set (dec n) \<Longrightarrow> json_digit c"
proof (induction n rule: dec.induct)
  case (1 n)
  then show ?case by (subst (asm) (2) dec.simps) (auto simp: digit_dec_digit split: if_splits)
qed

lemma dec_nonempty [simp]: "dec n \<noteq> []"
  by (subst dec.simps) simp

lemma dec_head: "0 < n \<Longrightarrow> hd (dec n) \<noteq> 48"
proof (induction n rule: dec.induct)
  case (1 n)
  have "unat (dec_digit n) \<noteq> 48" if "n < 10" using 1(2) that by (simp add: unat_dec_digit)
  then have "dec_digit n \<noteq> 48" if "n < 10" using that by fastforce
  then show ?case using 1 by (subst dec.simps) simp
qed

lemma dec_zero: "dec 0 = [48]"
  by (subst dec.simps) (simp add: dec_digit_def)

definition ends_number :: "bytes \<Rightarrow> bool" where
  "ends_number r \<longleftrightarrow> r = [] \<or> \<not> json_digit (hd r)"

lemma read_number:
  assumes "ends_number r"
  shows "json_value (Suc n) (dec k @ r) = Some (JNumber k, r)"
proof -
  have t: "takeWhile json_digit (dec k @ r) = dec k" "dropWhile json_digit (dec k @ r) = r"
    using assms dec_digits [of _ k] by (cases r; simp add: ends_number_def)+
  obtain c u where c: "dec k = c # u" by (cases "dec k") auto
  then have d: "json_digit c" using dec_digits [of c k] by simp
  then have "c \<noteq> 34" "c \<noteq> 123" by (auto simp: json_digit_def)
  moreover have "c = 48 \<Longrightarrow> length (dec k) = 1" using dec_head [of k] c dec_zero by (cases "k = 0") auto
  ultimately show ?thesis using t d c dec_number_dec [of k] by (simp add: Let_def)
qed

section \<open>What is written is read\<close>

text \<open>Members as they are written, without the comma before the first.\<close>

definition members_line :: "(bytes \<times> json) list \<Rightarrow> bytes" where
  "members_line ms = tl (concat (map (\<lambda>(k, v). [44] @ json_string k @ [58] @ render v) ms))"

lemma members_line_Cons:
  "members_line ((k, v) # ms) = 34 # concat (map json_char k) @ 34 # 58 # render v @ (if ms = [] then [] else 44 # members_line ms)"
  by (cases ms) (auto simp: members_line_def json_string_def)

definition reads_back :: "json \<Rightarrow> bool" where
  "reads_back j \<longleftrightarrow> (\<forall>n r. length (render j) \<le> n \<longrightarrow> ends_number r \<longrightarrow> json_value n (render j @ r) = Some (j, r))"

lemma members_back:
  "\<forall>(k, v) \<in> set ms. reads_back v \<Longrightarrow> ms \<noteq> [] \<Longrightarrow> length (members_line ms) \<le> n \<Longrightarrow>
   json_members n (members_line ms @ 125 # r) = Some (ms, r)"
proof (induction ms arbitrary: n)
  case (Cons m ms)
  obtain k v where m: "m = (k, v)" by (cases m)
  define rest where "rest = (if ms = [] then [] else 44 # members_line ms)"
  have w: "members_line (m # ms) = 34 # concat (map json_char k) @ 34 # 58 # render v @ rest"
    by (simp add: m members_line_Cons rest_def)
  obtain n' where n: "n = Suc n'" using Cons.prems(3) w by (cases n) auto
  have e: "ends_number (rest @ 125 # r)" by (simp add: rest_def ends_number_def json_digit_def)
  have v: "json_value n' (render v @ rest @ 125 # r) = Some (v, rest @ 125 # r)"
    using Cons.prems e m w n by (auto simp: reads_back_def)
  show ?case
  proof (cases "ms = []")
    case True
    then show ?thesis unfolding w n using v by (simp add: string_rest_string m rest_def)
  next
    case False
    have "json_members n' (members_line ms @ 125 # r) = Some (ms, r)"
      using Cons.IH [of n'] Cons.prems False n w by (simp add: rest_def)
    then show ?thesis unfolding w n using v False by (simp add: string_rest_string m rest_def)
  qed
qed simp

lemma render_back: "reads_back j"
proof (induction j rule: render.induct)
  case (1 s)
  show ?case unfolding reads_back_def
  proof (intro allI impI)
    fix n r
    assume "length (render (JString s)) \<le> n"
    then obtain n' where "n = Suc n'" by (cases n) (auto simp: json_string_def)
    then show "json_value n (render (JString s) @ r) = Some (JString s, r)"
      by (simp add: json_string_def string_rest_string)
  qed
next
  case (2 k)
  show ?case unfolding reads_back_def
  proof (intro allI impI)
    fix n r
    assume n: "length (render (JNumber k)) \<le> n" and r: "ends_number r"
    have "n \<noteq> 0" using n dec_nonempty [of k] by (cases n) auto
    then obtain n' where "n = Suc n'" by (cases n) auto
    then show "json_value n (render (JNumber k) @ r) = Some (JNumber k, r)"
      using read_number [OF r] by simp
  qed
next
  case (3 b)
  show ?case unfolding reads_back_def
  proof (intro allI impI)
    fix n r
    assume "length (render (JBool b)) \<le> n"
    then obtain n' where "n = Suc n'" by (cases n) (auto simp: asc_def split: if_splits)
    then show "json_value n (render (JBool b) @ r) = Some (JBool b, r)"
      by (simp add: asc_def json_digit_def)
  qed
next
  case 4
  show ?case unfolding reads_back_def
  proof (intro allI impI)
    fix n r
    assume "length (render JNull) \<le> n"
    then obtain n' where "n = Suc n'" by (cases n) (auto simp: asc_def)
    then show "json_value n (render JNull @ r) = Some (JNull, r)"
      by (simp add: asc_def json_digit_def)
  qed
next
  case (5 ms)
  show ?case unfolding reads_back_def
  proof (intro allI impI)
    fix n r
    assume n: "length (render (JObject ms)) \<le> n"
    then obtain n' where s: "n = Suc n'" by (cases n) auto
    have w: "render (JObject ms) @ r = 123 # members_line ms @ 125 # r" by (simp add: members_line_def)
    show "json_value n (render (JObject ms) @ r) = Some (JObject ms, r)"
    proof (cases ms)
      case Nil
      then show ?thesis by (simp add: w s members_line_def)
    next
      case (Cons m ms')
      then obtain t where t: "members_line ms = 34 # t" by (cases m) (simp add: members_line_Cons)
      have "length (members_line ms) \<le> n'" using n s by (simp add: members_line_def)
      moreover have "\<forall>(k, v) \<in> set ms. reads_back v" using 5 by auto
      ultimately have "json_members n' (members_line ms @ 125 # r) = Some (ms, r)"
        using members_back Cons by blast
      then show ?thesis unfolding w s using t by simp
    qed
  qed
qed

text \<open>A rendered value is UTF-8 exactly when its strings are.\<close>

lemma json_char_ascii: "c < 0x80 \<Longrightarrow> d \<in> set (json_char c) \<Longrightarrow> d < 0x80"
proof -
  have h: "d < 0x80" if "d \<in> set (hex_fixed 4 k)" for k
    using hex_fixed_printable [OF that] by (auto simp: word_less_nat_alt word_le_nat_alt)
  show "c < 0x80 \<Longrightarrow> d \<in> set (json_char c) \<Longrightarrow> d < 0x80"
    using h [of "unat c"] by (auto simp: json_char_def split: if_splits)
qed

lemma json_char_high: "\<not> c < 0x80 \<Longrightarrow> json_char c = [c]"
  by (auto simp: json_char_def word_less_nat_alt)

lemma json_char_nonempty: "json_char c \<noteq> []"
  by (simp add: json_char_def)

lemma utf8_escaped:
  "beyond_ascii w \<Longrightarrow> utf8_from w (concat (map json_char s) @ 34 # r) \<longleftrightarrow> utf8_from w s \<and> utf8_from [] r"
proof (induction s arbitrary: w)
  case Nil
  then show ?case by (simp add: utf8_ascii_step)
next
  case (Cons c s)
  show ?case
  proof (cases "c < 0x80")
    case True
    obtain d ds where d: "json_char c = d # ds" using json_char_nonempty [of c] by (cases "json_char c") auto
    have a: "d < 0x80" "\<forall>x \<in> set ds. x < 0x80" using json_char_ascii [OF True] d by auto
    show ?thesis
      using Cons.IH [of "[]"] a True Cons.prems by (simp add: d utf8_ascii_step utf8_ascii_list)
  next
    case False
    from utf8_high_step [OF this Cons.prems] obtain b w' where
      w: "beyond_ascii w'" "\<And>ys. utf8_from w (c # ys) \<longleftrightarrow> b \<and> utf8_from w' ys" by blast
    show ?thesis using Cons.IH [OF w(1)] by (simp add: json_char_high [OF False] w(2))
  qed
qed

lemma utf8_string: "utf8_from [] (json_string s @ r) \<longleftrightarrow> utf8_ok s \<and> utf8_from [] r"
  by (simp add: json_string_def utf8_ascii_step utf8_escaped utf8_ok_def)

lemma digits_ascii: "c \<in> set (dec n) \<Longrightarrow> c < 0x80"
  using dec_digits [of c n] by (auto simp: json_digit_def word_less_nat_alt word_le_nat_alt)

lemma utf8_render: "utf8_from [] (render j @ r) \<longleftrightarrow> utf8_json j \<and> utf8_from [] r"
proof (induction j arbitrary: r rule: render.induct)
  case (5 ms)
  have "\<forall>m \<in> set ms. \<forall>r. utf8_from [] (render (snd m) @ r) \<longleftrightarrow> utf8_json (snd m) \<and> utf8_from [] r"
    using 5 [OF _ prod.collapse] by blast
  then have "utf8_from [] (concat (map (\<lambda>(k, v). [44] @ json_string k @ [58] @ render v) ms) @ r') \<longleftrightarrow>
      utf8_json (JObject ms) \<and> utf8_from [] r'" for r'
  proof (induction ms)
    case (Cons m ms)
    obtain k v where m: "m = (k, v)" by (cases m)
    have "utf8_from [] (render v @ r'') \<longleftrightarrow> utf8_json v \<and> utf8_from [] r''" for r''
      using Cons.prems m by auto
    moreover have "utf8_from [] (concat (map (\<lambda>(k, v). [44] @ json_string k @ [58] @ render v) ms) @ r') \<longleftrightarrow>
      utf8_json (JObject ms) \<and> utf8_from [] r'" using Cons by auto
    ultimately show ?case by (auto simp: m utf8_ascii_step utf8_string)
  qed simp
  moreover have "utf8_from [] (concat (map (\<lambda>(k, v). [44] @ json_string k @ [58] @ render v) ms) @ r') =
      utf8_from [] (tl (concat (map (\<lambda>(k, v). [44] @ json_string k @ [58] @ render v) ms)) @ r')" for r'
    by (cases ms) (auto simp: utf8_ascii_step)
  ultimately have w: "utf8_from [] (members_line ms @ r') \<longleftrightarrow> utf8_json (JObject ms) \<and> utf8_from [] r'" for r'
    unfolding members_line_def by blast
  have e: "render (JObject ms) @ r = 123 # members_line ms @ 125 # r" by (simp add: members_line_def)
  show ?case unfolding e using w [of "125 # r"] by (simp add: utf8_ascii_step del: utf8_json.simps)
qed (auto simp: utf8_string utf8_ascii_list digits_ascii asc_def utf8_ascii_step)

text \<open>The reader gets the value back, if its strings are UTF-8, and otherwise rejects the text.\<close>

lemma json_read_render: "json_read (render j) = (if utf8_json j then Some j else None)"
proof -
  have "json_value (Suc (length (render j))) (render j @ []) = Some (j, [])"
    using render_back [of j] unfolding reads_back_def by (simp add: ends_number_def del: json_value.simps)
  then show ?thesis
    using utf8_render [of j "[]"] by (simp add: json_read_def utf8_ok_def del: json_value.simps)
qed

text \<open>A rendered value holds no line break, so that one packet is one line.\<close>

lemma json_char_line: "10 \<notin> set (json_char c)"
  using hex_fixed_printable [of 10 4 "unat c"] by (auto simp: json_char_def word_le_nat_alt)

lemma json_string_line: "10 \<notin> set (json_string s)"
  using json_char_line by (simp add: json_string_def)

lemma set_tl_subset: "set (tl xs) \<subseteq> set xs"
  by (cases xs) auto

lemma render_line: "10 \<notin> set (render j)"
proof (induction j rule: render.induct)
  case (2 n)
  show ?case using dec_chars [of 10 n] by (auto simp: word_char_def)
next
  case (5 ms)
  have v: "10 \<notin> set (render (snd m))" if "m \<in> set ms" for m
    using 5 [OF that prod.collapse] .
  have "10 \<notin> set (concat (map (\<lambda>(k, v). [44] @ json_string k @ [58] @ render v) ms))"
    using v json_string_line by (simp add: case_prod_beta)
  then have "10 \<notin> set (tl (concat (map (\<lambda>(k, v). [44] @ json_string k @ [58] @ render v) ms)))"
    by (rule contra_subsetD [OF set_tl_subset])
  then show ?case by simp
next
  case (1 s) show ?case using json_string_line by simp
next
  case (3 b) show ?case by (simp add: asc_def)
next
  case 4 show ?case by (simp add: asc_def)
qed

section \<open>The value of a line\<close>

text \<open>The value that a displayed packet is: the members that are present, in order.\<close>

definition text_member :: "string \<Rightarrow> bytes \<Rightarrow> (bytes \<times> json) list" where
  "text_member name buf = (if cstr buf = [] then [] else [(asc name, JString (cstr buf))])"

definition num_member :: "string \<Rightarrow> nat \<Rightarrow> bytes \<times> json" where
  "num_member name n = (asc name, JNumber n)"

definition hex_member :: "string \<Rightarrow> nat \<Rightarrow> nat \<Rightarrow> bytes \<times> json" where
  "hex_member name w n = (asc name, JString (asc ''0x'' @ hex_fixed w n))"

definition dns_members :: "app_info \<Rightarrow> (bytes \<times> json) list" where
  "dns_members a = text_member ''query'' (dns_query_name a) @
     (if dns_query_type a \<noteq> 0 then [num_member ''type'' (unat (dns_query_type a))] else []) @
     (if dns_query_class a \<noteq> 0 then [num_member ''class'' (unat (dns_query_class a))] else []) @
     [num_member ''rcode'' (unat (dns_rcode a))]"

definition app_members :: "app_info \<Rightarrow> (bytes \<times> json) list" where
  "app_members a = (case app_protocol a of
     APP_PROTO_HTTP \<Rightarrow> text_member ''method'' (http_method a) @ text_member ''host'' (http_host a) @
       text_member ''path'' (http_path a) @ text_member ''version'' (http_version a) @
       (if http_status_code a \<noteq> 0 then [num_member ''status'' (unat (http_status_code a))] else [])
   | APP_PROTO_DNS \<Rightarrow> dns_members a
   | APP_PROTO_TLS \<Rightarrow> text_member ''sni'' (tls_sni a) @ text_member ''alpn'' (tls_alpn a) @
       (if tls_record_version a \<noteq> 0 then [hex_member ''record_version'' 4 (unat (tls_record_version a))] else []) @
       (if tls_client_version a \<noteq> 0 then [hex_member ''client_version'' 4 (unat (tls_client_version a))] else [])
   | APP_PROTO_MDNS \<Rightarrow> dns_members a
   | APP_PROTO_DHCP \<Rightarrow> [(asc ''message_type'', JString (case output_dhcp_type_name (dhcp_message_type a) of
         None \<Rightarrow> [] | Some n \<Rightarrow> asc n)), hex_member ''transaction_id'' 8 (unat (dhcp_transaction_id a))] @
       text_member ''client_mac'' (dhcp_client_mac a) @ text_member ''client_ip'' (dhcp_client_ip a) @
       text_member ''your_ip'' (dhcp_your_ip a) @ text_member ''server_ip'' (dhcp_server_ip a) @
       text_member ''requested_ip'' (dhcp_requested_ip a)
   | APP_PROTO_QUIC \<Rightarrow> [hex_member ''version'' 8 (unat (quic_version a))] @
       text_member ''dcid'' (quic_dcid a) @ text_member ''scid'' (quic_scid a)
   | APP_PROTO_UNKNOWN \<Rightarrow> [])"

definition app_json :: "app_info option \<Rightarrow> json" where
  "app_json ap = (case ap of None \<Rightarrow> JNull
     | Some a \<Rightarrow> if app_protocol a = APP_PROTO_UNKNOWN then JNull
       else JObject ((asc ''protocol'', JString (asc (app_protocol_name (app_protocol a)))) # app_members a))"

definition transport_json :: "packet_info \<Rightarrow> json" where
  "transport_json p = JObject ((asc ''protocol'', JString (asc (protocol_json_name (protocol p)))) #
     text_member ''src_ip'' (src_ip p) @ (if has_ports p then [num_member ''src_port'' (unat (src_port p))] else []) @
     text_member ''dst_ip'' (dst_ip p) @ (if has_ports p then [num_member ''dst_port'' (unat (dst_port p))] else []) @
     (if has_icmp p then [num_member ''icmp_type'' (unat (icmp_type p)), num_member ''icmp_code'' (unat (icmp_code p))]
      else []))"

definition arp_json :: "packet_info \<Rightarrow> json" where
  "arp_json p = JObject [(asc ''operation'', JString (asc (arp_operation_name (arp_operation p)))),
     (asc ''sender_mac'', JString (cstr (arp_sender_mac p))), (asc ''sender_ip'', JString (cstr (src_ip p))),
     (asc ''target_mac'', JString (cstr (arp_target_mac p))), (asc ''target_ip'', JString (cstr (dst_ip p)))]"

definition dotted :: "u8 \<Rightarrow> u8" where
  "dotted v = (if 0x20 \<le> v \<and> v \<le> 0x7e then v else 46)"

definition payload_json :: "packet_info \<Rightarrow> nat \<Rightarrow> json" where
  "payload_json p limit =
     (let shown = take (min limit (payload_preview_length p)) (payload_preview p) in
      JObject [num_member ''length'' (payload_capture_length p), num_member ''preview_length'' (length shown),
        (asc ''truncated'', JBool (length shown < payload_capture_length p)),
        (asc ''hex'', JString (hex_pairs shown)), (asc ''ascii'', JString (map dotted shown))])"

definition packet_json :: "packet_info \<Rightarrow> app_info option \<Rightarrow> string option \<Rightarrow> bool \<Rightarrow> nat \<Rightarrow> json" where
  "packet_json p ap source payload_enabled limit = JObject (
     [(asc ''timestamp'', JString (cstr (timestamp p))), num_member ''packet_number'' (unat (packet_number p)),
      (asc ''transport'', transport_json p), num_member ''packet_length'' (pkt_size p)] @
     (if has_arp p then [(asc ''arp'', arp_json p)] else []) @
     (if payload_enabled \<and> has_payload p then [(asc ''payload'', payload_json p limit)] else []) @
     [(asc ''app'', app_json ap),
      (asc ''app_decode_status'', JString (asc (app_decode_status_to_string (app_decode_status p)))),
      (asc ''app_source'', JString (asc (normalized_json_app_source ap source)))])"

text \<open>The code writes that value: each piece that it prints is the text of some members.\<close>

definition members_text :: "(bytes \<times> json) list \<Rightarrow> bytes" where
  "members_text ms = concat (map (\<lambda>(k, v). [44] @ json_string k @ [58] @ render v) ms)"

definition plain_name :: "string \<Rightarrow> bool" where
  "plain_name s \<longleftrightarrow> list_all (\<lambda>c. json_char (of_char c) = [of_char c]) s"

named_theorems pieces \<open>the text of each piece of a line\<close>

lemma members_text_simps [pieces]:
  "members_text [] = []" "members_text (xs @ ys) = members_text xs @ members_text ys"
  "members_text ((k, v) # ms) = [44] @ json_string k @ [58] @ render v @ members_text ms"
  "members_text (if b then xs else ys) = (if b then members_text xs else members_text ys)"
  by (simp_all add: members_text_def)

lemma render_object [pieces]:
  "render (JObject ((k, v) # ms)) = [123] @ json_string k @ [58] @ render v @ members_text ms @ [125]"
  by (simp add: members_text_def)

lemma json_string_plain: "plain_name n \<Longrightarrow> json_string (asc n) = [34] @ asc n @ [34]"
proof -
  assume "plain_name n"
  then have "concat (map json_char (asc n)) = asc n"
    by (induction n) (auto simp: plain_name_def asc_def)
  then show ?thesis by (simp add: json_string_def)
qed

lemma json_names [pieces]:
  "plain_name n \<Longrightarrow> json_name n = Some ([44] @ json_string (asc n) @ [58])"
  "plain_name n \<Longrightarrow> json_first n = Some ([123] @ json_string (asc n) @ [58])"
  by (simp_all add: json_string_plain json_name_def json_first_def) (simp_all add: asc_def)

lemma json_text_pieces [pieces]:
  "0 \<in> set b \<Longrightarrow> print_json_buffer b = Some (json_string (cstr b))"
  "print_json_string (Some s) = json_string s" "print_json_string None = json_string []"
  by (simp_all add: print_json_buffer_def print_json_string_def c_str_def)

lemma when_out_Some [pieces]: "when_out b (Some x) = Some (if b then x else [])"
  by (simp add: when_out_def)

lemma first_byte: "0 \<in> set b \<Longrightarrow> \<exists>c. rd b 0 = Some c \<and> (c = 0 \<longleftrightarrow> cstr b = [])"
  by (cases b) (auto simp: rd_def cstr_def)

lemma json_field_pieces [pieces]:
  "0 \<in> set b \<Longrightarrow> plain_name n \<Longrightarrow> print_json_text_field n b = Some (members_text (text_member n b))"
  "plain_name n \<Longrightarrow> json_number_field n k = Some (members_text [num_member n k])"
  using first_byte [of b]
  by (auto simp: print_json_text_field_def text_member_def num_member_def json_number_field_def out_u_def pieces)

lemma dotted_char: "ascii_json_char v = json_char (dotted v)"
  by (auto simp: ascii_json_char_def json_char_def dotted_def word_le_nat_alt word_less_nat_alt)

lemma word_char_json: "word_char c \<or> c = 32 \<Longrightarrow> json_char c = [c]"
  by (auto simp: json_char_def word_char_def word_le_nat_alt word_less_nat_alt)

lemma json_string_words: "\<forall>c \<in> set s. word_char c \<or> c = 32 \<Longrightarrow> json_string s = [34] @ s @ [34]"
proof -
  assume "\<forall>c \<in> set s. word_char c \<or> c = 32"
  then have "concat (map json_char s) = s" by (induction s) (auto simp: word_char_json)
  then show ?thesis by (simp add: json_string_def)
qed

lemma hex_pairs_chars: "b \<in> set (hex_pairs bs) \<Longrightarrow> word_char b \<or> b = 32"
  using hex_chars by (induction bs rule: hex_pairs.induct) auto

lemma json_hex_piece [pieces]:
  "plain_name n \<Longrightarrow> json_hex_field n w k = Some (members_text [hex_member n w k])"
proof -
  have "json_string (asc ''0x'' @ hex_fixed w k) = [34] @ (asc ''0x'' @ hex_fixed w k) @ [34]"
    using hex_chars [of _ w k] name_chars(4) by (intro json_string_words) auto
  then show "plain_name n \<Longrightarrow> json_hex_field n w k = Some (members_text [hex_member n w k])"
    by (simp add: json_hex_field_def hex_member_def pieces)
qed

section \<open>One line of JSON\<close>

declare render.simps(5) [simp del]

lemma plain_names:
  "list_all plain_name [''protocol'', ''method'', ''host'', ''path'', ''version'', ''status'', ''query'', ''type'', ''class'', ''rcode'',
     ''sni'', ''alpn'', ''record_version'', ''client_version'', ''message_type'', ''transaction_id'', ''client_mac'', ''client_ip'',
     ''your_ip'', ''server_ip'', ''requested_ip'', ''dcid'', ''scid'', ''timestamp'', ''packet_number'', ''transport'', ''src_ip'',
     ''src_port'', ''dst_ip'', ''dst_port'', ''icmp_type'', ''icmp_code'', ''packet_length'', ''arp'', ''operation'', ''sender_mac'',
     ''sender_ip'', ''target_mac'', ''target_ip'', ''payload'', ''length'', ''preview_length'', ''truncated'', ''hex'', ''ascii'',
     ''app'', ''app_decode_status'', ''app_source'']"
  by (simp add: plain_name_def json_char_def)

lemmas names = plain_names [simplified]

lemma app_value:
  assumes "\<forall>a. ap = Some a \<longrightarrow> app_info_ok a"
  shows "print_json_app ap = Some (render (app_json ap))"
proof (cases ap)
  case None
  then show ?thesis by (simp add: print_json_app_def app_json_def lit_def)
next
  case (Some a)
  have z: "0 \<in> set (http_method a)" "0 \<in> set (http_host a)" "0 \<in> set (http_path a)" "0 \<in> set (http_version a)"
    "0 \<in> set (dns_query_name a)" "0 \<in> set (tls_sni a)" "0 \<in> set (tls_alpn a)" "0 \<in> set (dhcp_client_mac a)"
    "0 \<in> set (dhcp_client_ip a)" "0 \<in> set (dhcp_your_ip a)" "0 \<in> set (dhcp_server_ip a)" "0 \<in> set (dhcp_requested_ip a)"
    "0 \<in> set (quic_dcid a)" "0 \<in> set (quic_scid a)"
    using assms Some by (simp_all add: app_info_ok_def terminated_def)
  have start: "asc [CHR ''{'', CHR 0x22] @ asc ''protocol'' @ asc [CHR 0x22, CHR '':''] = [123] @ json_string (asc ''protocol'') @ [58]"
    by (simp add: json_string_plain names) (simp add: asc_def)
  have close: "lit ''}'' = Some [125]" by (simp add: lit_def asc_def)
  have dns: "json_dns_fields a = Some (members_text (dns_members a))"
    by (simp add: json_dns_fields_def dns_members_def pieces z names num_member_def)
  have "json_app_fields a = Some (members_text (app_members a))"
    by (cases "app_protocol a")
      (auto simp: json_app_fields_def app_members_def dns pieces z names hex_member_def num_member_def split: option.split)
  then show ?thesis
    using Some by (simp only: print_json_app_def app_json_def option.case cat.simps start close bind.simps)
      (auto simp: pieces lit_def)
qed

lemma transport_value:
  assumes "packet_texts_ok p"
  shows "json_transport p = Some (members_text [(asc ''transport'', transport_json p), num_member ''packet_length'' (pkt_size p)])"
proof -
  have z: "0 \<in> set (src_ip p)" "0 \<in> set (dst_ip p)" using assms by (simp_all add: packet_texts_ok_def)
  obtain s0 d0 where r: "rd (src_ip p) 0 = Some s0" "s0 = 0 \<longleftrightarrow> cstr (src_ip p) = []"
    "rd (dst_ip p) 0 = Some d0" "d0 = 0 \<longleftrightarrow> cstr (dst_ip p) = []"
    using first_byte [OF z(1)] first_byte [OF z(2)] by blast
  have close: "lit ''}'' = Some [125]" by (simp add: lit_def asc_def)
  have "when_out (s0 \<noteq> 0) (cat [json_name ''src_ip'', print_json_buffer (src_ip p)]) = Some (members_text (text_member ''src_ip'' (src_ip p)))"
    "when_out (d0 \<noteq> 0) (cat [json_name ''dst_ip'', print_json_buffer (dst_ip p)]) = Some (members_text (text_member ''dst_ip'' (dst_ip p)))"
    using r z by (auto simp: when_out_def text_member_def pieces names)
  then show ?thesis
    by (simp add: json_transport_def r close transport_json_def pieces names num_member_def)
qed

lemma arp_value:
  assumes "packet_texts_ok p"
  shows "json_arp p = Some (members_text (if has_arp p then [(asc ''arp'', arp_json p)] else []))"
proof -
  have z: "0 \<in> set (src_ip p)" "0 \<in> set (dst_ip p)" "0 \<in> set (arp_sender_mac p)" "0 \<in> set (arp_target_mac p)"
    using assms by (simp_all add: packet_texts_ok_def)
  have close: "lit ''}'' = Some [125]" by (simp add: lit_def asc_def)
  show ?thesis by (simp add: json_arp_def close arp_json_def pieces names z)
qed

lemma payload_value:
  assumes "payload_preview_length p \<le> length (payload_preview p)"
  shows "json_payload p e limit = Some (members_text (if e \<and> has_payload p then [(asc ''payload'', payload_json p limit)] else []))"
proof -
  define l where "l = min limit (payload_preview_length p)"
  define shown where "shown = take l (payload_preview p)"
  have l: "(if payload_preview_length p > limit then limit else payload_preview_length p) = l" "length shown = l"
    "l \<le> length (payload_preview p)" using assms by (auto simp: l_def shown_def)
  then have r: "rd_slice (payload_preview p) 0 l = Some shown" by (simp add: rd_slice_def shown_def)
  have hex: "json_string (hex_pairs shown) = [34] @ hex_pairs shown @ [34]"
    using hex_pairs_chars by (intro json_string_words) blast
  have asci: "[34] @ concat (map ascii_json_char shown) @ [34] = json_string (map dotted shown)"
    by (simp add: json_string_def dotted_char [symmetric] comp_def)
  have close: "lit ''}'' = Some [125]" by (simp add: lit_def asc_def)
  have v: "payload_json p limit = JObject [num_member ''length'' (payload_capture_length p), num_member ''preview_length'' l,
        (asc ''truncated'', JBool (l < payload_capture_length p)),
        (asc ''hex'', JString (hex_pairs shown)), (asc ''ascii'', JString (map dotted shown))]"
    using l(2) by (simp add: payload_json_def shown_def [symmetric] l_def [symmetric] Let_def)
  have "print_json_payload_hex p l = Some (json_string (hex_pairs shown))"
    "print_json_payload_ascii p l = Some (json_string (map dotted shown))"
    using r hex asci by (simp_all add: print_json_payload_hex_def print_json_payload_ascii_def)
  then show ?thesis
    by (simp add: json_payload_def l(1) Let_def close v pieces names num_member_def out_u_def lit_def [of "if _ then _ else _"])
qed

lemma packet_line_text:
  assumes "packet_texts_ok p" "payload_preview_length p \<le> length (payload_preview p)"
    and "\<forall>a. ap = Some a \<longrightarrow> app_info_ok a"
  shows "output_print_packet_json (Some p) ap source e limit = Some (render (packet_json p ap source e limit) @ [10])"
proof -
  have z: "0 \<in> set (timestamp p)" using assms by (simp add: packet_texts_ok_def)
  have "asc ''}'' = [125]" by (simp add: asc_def)
  then show ?thesis
    by (simp add: output_print_packet_json_def packet_json_def z transport_value [OF assms(1)] arp_value [OF assms(1)]
        payload_value [OF assms(2)] app_value [OF assms(3)] pieces names num_member_def)
qed

text \<open>C33. A displayed packet is one line of JSON. For any packet and metadata whose texts end in their arrays,
  the line is defined and contains no line break before its end, and if its texts are UTF-8, a JSON reader gets from
  it exactly the packet's members: no text can close its string, add a member or split the line. If some text is
  not UTF-8, the program copies its bytes as they are, and a JSON reader rejects the line.\<close>

theorem json_line_denotes_packet:
  assumes "packet_texts_ok p" "payload_preview_length p \<le> length (payload_preview p)"
    and "\<forall>a. ap = Some a \<longrightarrow> app_info_ok a"
  shows "\<exists>line. output_print_packet_json (Some p) ap source e limit = Some (line @ [10]) \<and> 10 \<notin> set line \<and>
    json_read line = (let v = packet_json p ap source e limit in if utf8_json v then Some v else None)"
  using packet_line_text [OF assms, of source e limit] json_read_render render_line by (auto simp: Let_def)

lemma json_line_denotes_packet_witness:
  "\<exists>line v. output_print_packet_json (Some (packet_info_zero\<lparr>src_ip := asc [CHR 0x22, CHR 0x0A] @ replicate 44 0\<rparr>)) None None True 16 =
     Some (line @ [10]) \<and> 10 \<notin> set line \<and> json_read line = Some v"
proof -
  let ?p = "packet_info_zero\<lparr>src_ip := asc [CHR 0x22, CHR 0x0A] @ replicate 44 0\<rparr>"
  have "utf8_json (packet_json ?p None None True 16)"
    by (simp add: packet_json_def transport_json_def text_member_def num_member_def app_json_def asc_def cstr_def
        packet_info_zero_def utf8_ok_def protocol_json_name_def normalized_json_app_source_def
        app_decode_status_to_string_def)
  then show ?thesis
    using json_line_denotes_packet [where p = ?p and ap = None and source = None and e = True and limit = 16]
    by (auto simp: packet_texts_ok_def packet_info_zero_def Let_def)
qed

end
