(* ===== verification/Capture_Setup.thy ===== *)
theory Capture_Setup
  imports Text Output "HOL-Library.Sublist"
begin

text \<open>
  The parts of \<open>src/capture.c\<close> that prepare a capture: the choice and the listing of interfaces and the
  BPF pre-filter expression. The interfaces that \<open>pcap_findalldevs\<close> reports are a list of records
  (\<open>None\<close> when the call fails); an address is the family of its \<open>sockaddr\<close>, \<open>None\<close> when that is NULL.
  libpcap's compiler and kernel filter are not modelled: their answers are arguments.
\<close>

record pcap_if =
  if_name :: "bytes option"
  if_description :: "bytes option"
  if_addresses :: "int option list"
  if_loopback :: bool

section \<open>Interfaces\<close>

fun has_address_family :: "int \<Rightarrow> int option list \<Rightarrow> bool" where
  "has_address_family family [] = False"
| "has_address_family family (a # as) =
     (if a \<noteq> None \<and> the a = family then True else has_address_family family as)"

definition has_ipv4_address :: "inet \<Rightarrow> pcap_if \<Rightarrow> bool" where
  "has_ipv4_address N d = has_address_family (af_inet N) (if_addresses d)"

definition has_ipv6_address :: "inet \<Rightarrow> pcap_if \<Rightarrow> bool" where
  "has_ipv6_address N d = has_address_family (af_inet6 N) (if_addresses d)"

definition is_loopback_device :: "pcap_if \<Rightarrow> bool" where
  "is_loopback_device d = if_loopback d"

text \<open>\<open>strncmp (s, p, strlen p) == 0\<close>.\<close>

definition has_prefix :: "string \<Rightarrow> bytes \<Rightarrow> bool" where
  "has_prefix p s \<longleftrightarrow> take (length p) s = asc p"

definition is_apple_internal_device_name :: "bytes option \<Rightarrow> bool" where
  "is_apple_internal_device_name name =
     (case name of None \<Rightarrow> False
      | Some s \<Rightarrow> has_prefix ''ap'' s \<or> has_prefix ''awdl'' s \<or> has_prefix ''llw'' s \<or> has_prefix ''utun'' s)"

definition is_preferred_default_device :: "inet \<Rightarrow> pcap_if \<Rightarrow> bool" where
  "is_preferred_default_device N d =
     (case if_name d of None \<Rightarrow> False
      | Some s \<Rightarrow> has_prefix ''en'' s \<and> \<not> is_loopback_device d \<and> \<not> is_apple_internal_device_name (if_name d) \<and>
          has_ipv4_address N d)"

text \<open>0 and the destination with the name and its terminator, or 1.\<close>

definition copy_device_name :: "bytes \<Rightarrow> bytes option \<Rightarrow> int \<times> bytes" where
  "copy_device_name dst name =
     (case name of None \<Rightarrow> (1, dst)
      | Some s \<Rightarrow> if dst = [] then (1, dst)
        else if length s \<ge> length dst then (1, dst)
        else (0, s @ 0 # drop (Suc (length s)) dst))"

fun first_device :: "(pcap_if \<Rightarrow> bool) \<Rightarrow> pcap_if list \<Rightarrow> pcap_if option" where
  "first_device ok [] = None"
| "first_device ok (d # ds) = (if ok d then Some d else first_device ok ds)"

definition choose_default_device :: "inet \<Rightarrow> bytes \<Rightarrow> pcap_if list option \<Rightarrow> int \<times> bytes" where
  "choose_default_device N dst found =
     (case found of None \<Rightarrow> (1, dst)
      | Some devices \<Rightarrow>
        case first_device (is_preferred_default_device N) devices of
          Some d \<Rightarrow> copy_device_name dst (if_name d)
        | None \<Rightarrow>
        case first_device (\<lambda>d. if_name d \<noteq> None \<and> \<not> is_loopback_device d \<and>
            \<not> is_apple_internal_device_name (if_name d) \<and> has_ipv4_address N d) devices of
          Some d \<Rightarrow> copy_device_name dst (if_name d)
        | None \<Rightarrow>
        case first_device (\<lambda>d. if_name d \<noteq> None \<and> \<not> is_loopback_device d \<and>
            \<not> is_apple_internal_device_name (if_name d)) devices of
          Some d \<Rightarrow> copy_device_name dst (if_name d)
        | None \<Rightarrow>
        case first_device (\<lambda>d. if_name d \<noteq> None \<and> \<not> is_loopback_device d) devices of
          Some d \<Rightarrow> copy_device_name dst (if_name d)
        | None \<Rightarrow> (1, dst))"

text \<open>A NULL name would be passed to \<open>strcmp\<close>: \<open>None\<close>.\<close>

fun interface_listed :: "bytes \<Rightarrow> pcap_if list \<Rightarrow> bool option" where
  "interface_listed device [] = Some False"
| "interface_listed device (d # ds) =
     (case if_name d of None \<Rightarrow> None | Some s \<Rightarrow> if s = device then Some True else interface_listed device ds)"

definition interface_exists :: "bytes \<Rightarrow> pcap_if list option \<Rightarrow> bool option" where
  "interface_exists device found = (case found of None \<Rightarrow> Some False | Some ds \<Rightarrow> interface_listed device ds)"

fun join_hints :: "bool \<Rightarrow> (bool \<times> string) list \<Rightarrow> bytes" where
  "join_hints printed [] = (if printed then [] else asc ''no-addresses'')"
| "join_hints printed ((b, t) # hs) =
     (if b then (if printed then asc '', '' else []) @ asc t @ join_hints True hs else join_hints printed hs)"

definition print_interface_hints :: "inet \<Rightarrow> pcap_if \<Rightarrow> bytes" where
  "print_interface_hints N d =
     asc '' ['' @ join_hints False [
       (is_preferred_default_device N d, ''default-candidate''),
       (is_loopback_device d, ''loopback''),
       (is_apple_internal_device_name (if_name d), ''internal''),
       (has_ipv4_address N d, ''ipv4''),
       (has_ipv6_address N d, ''ipv6'')] @ asc '']''"

definition print_interface_line :: "inet \<Rightarrow> pcap_if \<Rightarrow> bytes" where
  "print_interface_line N d =
     (let marker = (if is_preferred_default_device N d then ''*'' else '' '');
          name = (case if_name d of None \<Rightarrow> asc ''(unnamed)'' | Some s \<Rightarrow> s);
          description = (case if_description d of
              Some t \<Rightarrow> if t \<noteq> [] then t else asc ''(no description)'' | None \<Rightarrow> asc ''(no description)'')
      in asc marker @ asc '' '' @ name @ asc '' - '' @ description @ print_interface_hints N d @ [10])"

definition capture_list_interfaces :: "inet \<Rightarrow> pcap_if list option \<Rightarrow> int \<times> bytes" where
  "capture_list_interfaces N found =
     (case found of None \<Rightarrow> (1, [])
      | Some ds \<Rightarrow> (0, asc ''Capture interfaces:'' @ [10] @ concat (map (print_interface_line N) ds) @
          (if ds = [] then asc ''(none)'' @ [10] else [])))"

section \<open>The BPF pre-filter\<close>

text \<open>The answer is the return value and the buffer.\<close>

definition append_bpf_clause :: "bytes \<Rightarrow> bytes \<Rightarrow> (bool \<times> bytes) option" where
  "append_bpf_clause buf clause = do {
     s \<leftarrow> c_str buf;
     let cur = length s;
     if cur = 0 then Some (length clause < length buf - cur, put_str buf clause)
     else
       let t = asc '' and '' @ clause
       in Some (length t < length buf - cur, take cur buf @ put_str (drop cur buf) t)
   }"

definition protocol_clause :: "Protocol \<Rightarrow> string option" where
  "protocol_clause p =
     (if p = PROTO_TCP then Some ''tcp'' else if p = PROTO_UDP then Some ''udp''
      else if p = PROTO_ICMP then Some ''(icmp or icmp6)'' else if p = PROTO_ARP then Some ''arp'' else None)"

definition port_clause :: "app_config \<Rightarrow> bytes option" where
  "port_clause cfg = do {
     let clause = put_str (replicate 32 0) (asc ''port '' @ dec (unat (filter_port cfg)));
     c_str clause }"

definition host_clause :: "app_config \<Rightarrow> bytes option" where
  "host_clause cfg = do {
     h \<leftarrow> c_str (filter_host cfg);
     c_str (put_str (replicate 54 0) (asc ''host '' @ h)) }"

text \<open>One optional clause: leave with false when it does not fit.\<close>

definition bpf_step :: "bytes option option \<Rightarrow> (bool \<times> bool \<times> bytes) option \<Rightarrow> (bool \<times> bool \<times> bytes) option" where
  "bpf_step clause st = do {
     (going, has_clause, buf) \<leftarrow> st;
     if \<not> going then Some (going, has_clause, buf)
     else case clause of None \<Rightarrow> Some (going, has_clause, buf)
       | Some c \<Rightarrow> do {
           t \<leftarrow> c;
           (fits, buf') \<leftarrow> append_bpf_clause buf t;
           if fits then Some (True, True, buf') else Some (False, False, buf')
         }
   }"

definition build_bpf_filter_expression :: "app_config option \<Rightarrow> bytes \<Rightarrow> (bool \<times> bytes) option" where
  "build_bpf_filter_expression config buf =
     (case config of None \<Rightarrow> Some (False, buf)
      | Some cfg \<Rightarrow>
        if buf = [] then Some (False, buf)
        else do {
          (going, has_clause, buf') \<leftarrow>
            bpf_step (if filter_host_enabled cfg then Some (host_clause cfg) else None) (
            bpf_step (if filter_port_enabled cfg then Some (port_clause cfg) else None) (
            bpf_step (if filter_protocol_enabled cfg then map_option (\<lambda>t. Some (asc t)) (protocol_clause (filter_protocol cfg))
                      else None) (
              Some (True, False, buf[0 := 0]))));
          Some (has_clause, buf')
        })"

text \<open>The expression that gets installed, if any, and what is printed about it.\<close>

definition install_bpf_filter :: "bool \<Rightarrow> bool \<Rightarrow> app_config \<Rightarrow> (bytes option \<times> bytes) option" where
  "install_bpf_filter compile_ok set_ok cfg =
     (if no_bpf cfg then Some (None, [])
      else do {
        (built, buf) \<leftarrow> build_bpf_filter_expression (Some cfg) (replicate 256 0);
        if \<not> built then Some (None, [])
        else if \<not> compile_ok then Some (None, [])
        else if \<not> set_ok then Some (None, [])
        else do {
          e \<leftarrow> c_str buf;
          Some (Some e, if verbose cfg \<and> \<not> quiet cfg \<and> \<not> json_output cfg
            then asc ''BPF filter installed: '' @ e @ [10] else [])
        }
      })"



section \<open>The default interface\<close>

lemma first_device_exact:
  "first_device ok ds = Some d \<longleftrightarrow> (\<exists>pre post. ds = pre @ d # post \<and> ok d \<and> (\<forall>x \<in> set pre. \<not> ok x))"
  "first_device ok ds = None \<longleftrightarrow> (\<forall>x \<in> set ds. \<not> ok x)"
proof -
  show "first_device ok ds = None \<longleftrightarrow> (\<forall>x \<in> set ds. \<not> ok x)" by (induction ds) auto
  show "first_device ok ds = Some d \<longleftrightarrow> (\<exists>pre post. ds = pre @ d # post \<and> ok d \<and> (\<forall>x \<in> set pre. \<not> ok x))"
  proof (induction ds)
    case (Cons e ds)
    show ?case
    proof (cases "ok e")
      case True
      then show ?thesis by (auto simp: Cons_eq_append_conv)
    next
      case False
      then have "first_device ok (e # ds) = first_device ok ds" by simp
      also have "\<dots> = Some d \<longleftrightarrow> (\<exists>pre post. ds = pre @ d # post \<and> ok d \<and> (\<forall>x \<in> set pre. \<not> ok x))" by (rule Cons.IH)
      also have "\<dots> \<longleftrightarrow> (\<exists>pre post. e # ds = pre @ d # post \<and> ok d \<and> (\<forall>x \<in> set pre. \<not> ok x))"
        using False by (auto simp: Cons_eq_append_conv) (metis set_ConsD)
      finally show ?thesis .
    qed
  qed simp
qed

text \<open>How good a default an interface is: 0 is best, 4 is unusable.\<close>

definition device_rank :: "inet \<Rightarrow> pcap_if \<Rightarrow> nat" where
  "device_rank N d =
     (if if_name d = None \<or> if_loopback d then 4
      else if is_apple_internal_device_name (if_name d) then 3
      else if \<not> has_ipv4_address N d then 2
      else if has_prefix ''en'' (the (if_name d)) then 0 else 1)"

lemma tiers:
  "is_preferred_default_device N d \<longleftrightarrow> device_rank N d \<le> 0"
  "(if_name d \<noteq> None \<and> \<not> is_loopback_device d \<and> \<not> is_apple_internal_device_name (if_name d) \<and> has_ipv4_address N d)
     \<longleftrightarrow> device_rank N d \<le> 1"
  "(if_name d \<noteq> None \<and> \<not> is_loopback_device d \<and> \<not> is_apple_internal_device_name (if_name d)) \<longleftrightarrow> device_rank N d \<le> 2"
  "(if_name d \<noteq> None \<and> \<not> is_loopback_device d) \<longleftrightarrow> device_rank N d \<le> 3"
  by (auto simp: is_preferred_default_device_def device_rank_def is_loopback_device_def split: option.splits)

definition best_device :: "inet \<Rightarrow> pcap_if list \<Rightarrow> pcap_if \<Rightarrow> bool" where
  "best_device N ds d \<longleftrightarrow> device_rank N d < 4 \<and> (\<exists>pre post. ds = pre @ d # post \<and>
     (\<forall>x \<in> set pre. device_rank N d < device_rank N x) \<and> (\<forall>x \<in> set post. device_rank N d \<le> device_rank N x))"

lemma best_device_first:
  assumes "best_device N ds d"
  shows "first_device (\<lambda>x. device_rank N x \<le> device_rank N d) ds = Some d" "x \<in> set ds \<Longrightarrow> device_rank N d \<le> device_rank N x"
proof -
  obtain pre post where p: "ds = pre @ d # post" "\<forall>x \<in> set pre. device_rank N d < device_rank N x"
    "\<forall>x \<in> set post. device_rank N d \<le> device_rank N x"
    using assms by (auto simp: best_device_def)
  then show "first_device (\<lambda>x. device_rank N x \<le> device_rank N d) ds = Some d"
    by (auto simp: first_device_exact not_le)
  show "x \<in> set ds \<Longrightarrow> device_rank N d \<le> device_rank N x" using p by (auto simp: less_imp_le)
qed

lemma best_device_in: "best_device N ds d \<Longrightarrow> d \<in> set ds"
  by (auto simp: best_device_def)

lemma best_device_unique: "best_device N ds d \<Longrightarrow> best_device N ds x \<Longrightarrow> x = d"
proof -
  assume d: "best_device N ds d" and x: "best_device N ds x"
  have "device_rank N d \<le> device_rank N x" by (rule best_device_first(2) [OF d best_device_in [OF x]])
  moreover have "device_rank N x \<le> device_rank N d" by (rule best_device_first(2) [OF x best_device_in [OF d]])
  ultimately have eq: "device_rank N d = device_rank N x" by (rule le_antisym)
  show "x = d" using best_device_first(1) [OF d, unfolded eq] best_device_first(1) [OF x] by simp
qed

lemma tier_best:
  assumes "first_device (\<lambda>d. device_rank N d \<le> k) ds = Some d" "\<forall>x \<in> set ds. k \<le> device_rank N x" "k < 4"
  shows "best_device N ds d"
proof -
  obtain pre post where p: "ds = pre @ d # post" "device_rank N d \<le> k" "\<forall>x \<in> set pre. \<not> device_rank N x \<le> k"
    using assms(1) by (auto simp: first_device_exact)
  then have "device_rank N d = k" using assms(2) by (auto simp: le_antisym)
  then show ?thesis unfolding best_device_def
    using p assms(2,3) by (intro conjI exI [of _ pre] exI [of _ post]) (auto simp: not_le)
qed

lemma choose_tiers:
  "choose_default_device N dst (Some ds) =
     (case first_device (\<lambda>d. device_rank N d \<le> 0) ds of Some d \<Rightarrow> copy_device_name dst (if_name d) | None \<Rightarrow>
      case first_device (\<lambda>d. device_rank N d \<le> 1) ds of Some d \<Rightarrow> copy_device_name dst (if_name d) | None \<Rightarrow>
      case first_device (\<lambda>d. device_rank N d \<le> 2) ds of Some d \<Rightarrow> copy_device_name dst (if_name d) | None \<Rightarrow>
      case first_device (\<lambda>d. device_rank N d \<le> 3) ds of Some d \<Rightarrow> copy_device_name dst (if_name d) | None \<Rightarrow> (1, dst))"
  by (simp only: choose_default_device_def option.case tiers [symmetric])

lemma choose_best:
  "(\<exists>d. best_device N ds d \<and> choose_default_device N dst (Some ds) = copy_device_name dst (if_name d)) \<or>
   (\<forall>d \<in> set ds. device_rank N d = 4) \<and> choose_default_device N dst (Some ds) = (1, dst)"
proof -
  have none: "\<forall>x \<in> set ds. Suc k \<le> device_rank N x" if "first_device (\<lambda>d. device_rank N d \<le> k) ds = None" for k
    using that by (auto simp: first_device_exact)
  have le4: "device_rank N x \<le> 4" for x by (simp add: device_rank_def)
  show ?thesis
    using none [of 0] none [of 1] none [of 2] none [of 3] le4
      tier_best [of N 0 ds] tier_best [of N 1 ds] tier_best [of N 2 ds] tier_best [of N 3 ds]
    by (auto simp: choose_tiers le_antisym numeral_eq_Suc split: option.splits)
qed

text \<open>Why no default interface is chosen: libpcap listed none, only loopbacks have a name, or the best name does not fit the buffer.\<close>

definition no_default :: "inet \<Rightarrow> nat \<Rightarrow> pcap_if list option \<Rightarrow> bool" where
  "no_default N room found \<longleftrightarrow> (case found of None \<Rightarrow> True
     | Some ds \<Rightarrow> (\<forall>d \<in> set ds. if_name d = None \<or> if_loopback d) \<or>
         (\<exists>d s. best_device N ds d \<and> if_name d = Some s \<and> room \<le> length s))"

lemma copy_name_cases:
  assumes "0 \<notin> set s"
  shows "if length s < length dst then \<exists>out. copy_device_name dst (Some s) = (0, out) \<and> length out = length dst \<and> 0 \<in> set out \<and> cstr out = s
    else copy_device_name dst (Some s) = (1, dst)"
  using assms by (auto simp: copy_device_name_def cstr_append)

text \<open>C35. The default interface is the first one of the best rank: a named interface that is no loopback;
  before any other one with an IPv4 address that is not internal to macOS, and among these the first
  whose name starts with \<open>en\<close>. Its name is written, with its terminator, inside the buffer. The choice fails, and
  leaves the buffer alone, exactly when libpcap cannot list the interfaces, when there is no named interface but
  loopbacks, or when the name of the best one does not fit the buffer.\<close>

theorem default_device_best:
  assumes "\<forall>ds d s. found = Some ds \<and> d \<in> set ds \<and> if_name d = Some s \<longrightarrow> 0 \<notin> set s"
  shows "if no_default N (length dst) found then choose_default_device N dst found = (1, dst)
    else \<exists>ds d out. found = Some ds \<and> best_device N ds d \<and> \<not> if_loopback d \<and>
      choose_default_device N dst found = (0, out) \<and> length out = length dst \<and> 0 \<in> set out \<and> Some (cstr out) = if_name d"
proof (cases found)
  case None
  then show ?thesis by (simp add: no_default_def choose_default_device_def)
next
  case (Some ds)
  have bad: "device_rank N d = 4 \<longleftrightarrow> if_name d = None \<or> if_loopback d" for d by (simp add: device_rank_def)
  from choose_best [of N ds dst] show ?thesis
  proof
    assume "\<exists>d. best_device N ds d \<and> choose_default_device N dst (Some ds) = copy_device_name dst (if_name d)"
    then obtain d where d: "best_device N ds d" "choose_default_device N dst (Some ds) = copy_device_name dst (if_name d)" by blast
    then have m: "d \<in> set ds" "device_rank N d < 4" by (auto simp: best_device_def)
    then obtain s where s: "if_name d = Some s" "\<not> if_loopback d" by (auto simp: device_rank_def split: if_splits)
    then have "0 \<notin> set s" using assms m(1) Some by blast
    note copied = copy_name_cases [OF this, of dst]
    have "(\<exists>e t. best_device N ds e \<and> if_name e = Some t \<and> length dst \<le> length t) \<longleftrightarrow> length dst \<le> length s"
      using best_device_unique [OF d(1)] d(1) s(1) by (metis option.inject)
    moreover have "\<not> (\<forall>d \<in> set ds. if_name d = None \<or> if_loopback d)" using m(1) s by auto
    ultimately have n: "no_default N (length dst) found \<longleftrightarrow> length dst \<le> length s"
      unfolding no_default_def Some option.case by blast
    show ?thesis
    proof (cases "length s < length dst")
      case True
      then obtain out where "choose_default_device N dst found = (0, out)" "length out = length dst" "0 \<in> set out" "cstr out = s"
        using copied d(2) s(1) Some by auto
      then show ?thesis using n True d(1) s Some by (auto simp: not_le)
    next
      case False
      then show ?thesis using n copied d(2) s(1) Some by simp
    qed
  qed (simp add: bad no_default_def Some)
qed

lemma default_device_best_witness:
  "\<exists>out. choose_default_device ex_inet (replicate 128 0) (Some [
      \<lparr>if_name = Some (asc ''lo0''), if_description = None, if_addresses = [Some (af_inet ex_inet)], if_loopback = True\<rparr>,
      \<lparr>if_name = Some (asc ''wlan0''), if_description = None, if_addresses = [], if_loopback = False\<rparr>]) = (0, out)"
proof -
  let ?ds = "[\<lparr>if_name = Some (asc ''lo0''), if_description = None, if_addresses = [Some (af_inet ex_inet)], if_loopback = True\<rparr>,
      \<lparr>if_name = Some (asc ''wlan0''), if_description = None, if_addresses = [], if_loopback = False\<rparr>]"
  have n: "\<forall>ds d s. Some ?ds = Some ds \<and> d \<in> set ds \<and> if_name d = Some s \<longrightarrow> 0 \<notin> set s \<and> length s < 128"
    by (auto simp: asc_def)
  have "length s < 128" if "best_device ex_inet ?ds d" "if_name d = Some s" for d s
    using best_device_in [OF that(1)] that(2) n by blast
  then have "\<not> no_default ex_inet 128 (Some ?ds)"
    by (auto simp: no_default_def not_le)
  then show ?thesis using default_device_best [of "Some ?ds" ex_inet "replicate 128 0"] n by auto
qed



section \<open>The expression\<close>

fun joined :: "bytes list \<Rightarrow> bytes" where
  "joined [] = []"
| "joined [t] = t"
| "joined (t # ts) = t @ asc '' and '' @ joined ts"

lemma joined_snoc: "ts \<noteq> [] \<Longrightarrow> joined (ts @ [t]) = joined ts @ asc '' and '' @ t"
  by (induction ts rule: joined.induct) auto

lemma joined_no_nul: "\<forall>t \<in> set ts. 0 \<notin> set t \<Longrightarrow> 0 \<notin> set (joined ts)"
  by (induction ts rule: joined.induct) (auto simp: asc_def)

text \<open>The clauses that a configuration asks for.\<close>

definition bpf_clauses :: "app_config \<Rightarrow> bytes list" where
  "bpf_clauses cfg =
     (if filter_protocol_enabled cfg then (case protocol_clause (filter_protocol cfg) of None \<Rightarrow> [] | Some t \<Rightarrow> [asc t]) else []) @
     (if filter_port_enabled cfg then [asc ''port '' @ dec (unat (filter_port cfg))] else []) @
     (if filter_host_enabled cfg then [asc ''host '' @ cstr (filter_host cfg)] else [])"

text \<open>The state after some clauses were appended.\<close>

definition bpf_holds :: "nat \<Rightarrow> bytes list \<Rightarrow> (bool \<times> bool \<times> bytes) option \<Rightarrow> bool" where
  "bpf_holds n ts st \<longleftrightarrow> (\<exists>buf. st = Some (True, ts \<noteq> [], buf) \<and> length buf = n \<and> 0 \<in> set buf \<and> cstr buf = joined ts) \<and>
     [] \<notin> set ts"

lemma cstr_prefix: "0 \<in> set buf \<Longrightarrow> take (length (cstr buf)) buf = cstr buf"
  by (simp add: cstr_def takeWhile_eq_take [symmetric])

lemma append_clause:
  assumes "bpf_holds n ts (Some st)" "length (joined (ts @ [t])) < n" "0 \<notin> set t" "t \<noteq> []"
  shows "bpf_holds n (ts @ [t]) (bpf_step (Some (Some t)) (Some st))"
proof -
  obtain buf where b: "st = (True, ts \<noteq> [], buf)" "length buf = n" "0 \<in> set buf" "cstr buf = joined ts" "[] \<notin> set ts"
    using assms(1) by (auto simp: bpf_holds_def)
  have empty: "joined ts = [] \<longleftrightarrow> ts = []" using b(5) by (cases ts rule: joined.cases) (auto simp: asc_def)
  define c where "c = (if ts = [] then t else asc '' and '' @ t)"
  have c: "joined (ts @ [t]) = joined ts @ c" "0 \<notin> set c" "c \<noteq> []"
    using assms(3,4) joined_snoc by (auto simp: c_def asc_def)
  have room: "length c < n - length (joined ts)" using assms(2) c(1) by simp
  define buf' where "buf' = take (length (joined ts)) buf @ put_str (drop (length (joined ts)) buf) c"
  have app: "append_bpf_clause buf t = Some (True, buf')"
    using b room empty by (cases "ts = []") (auto simp: append_bpf_clause_def c_str_def c_def buf'_def Let_def)
  have "take (length (joined ts)) buf = joined ts" using cstr_prefix [OF b(3)] b(4) by simp
  moreover have "0 \<notin> set (joined ts)" using b(4) cstr_no_nul by metis
  moreover have "cstr (put_str (drop (length (joined ts)) buf) c) = c" using room b(2) c(2) by (intro cstr_put_fits) auto
  ultimately have "cstr buf' = joined (ts @ [t])" by (simp add: buf'_def cstr_append c(1))
  moreover have "length buf' = n" using b(2) room by (simp add: buf'_def)
  moreover have "0 \<in> set buf'"
    using put_str_terminated [of "drop (length (joined ts)) buf" _ c] room b(2) by (auto simp: buf'_def terminated_def)
  ultimately show ?thesis using b app assms(4) by (auto simp: bpf_holds_def bpf_step_def)
qed

lemma optional_clause:
  assumes "bpf_holds n ts st" "b \<Longrightarrow> length (joined (ts @ [t])) < n" "b \<Longrightarrow> 0 \<notin> set t \<and> t \<noteq> [] \<and> x = Some t"
  shows "bpf_holds n (ts @ (if b then [t] else [])) (bpf_step (if b then Some x else None) st)"
  using assms append_clause [of n ts "the st" t]
  by (auto simp: bpf_holds_def bpf_step_def [of None])

lemma length_dec_le: "n < 10 ^ k \<Longrightarrow> 0 < k \<Longrightarrow> length (dec n) \<le> k"
proof (induction k arbitrary: n)
  case (Suc k)
  show ?case
  proof (cases "n < 10")
    case True then show ?thesis by (subst dec.simps) simp
  next
    case False
    then have "0 < k" using Suc.prems(1) by (cases k) auto
    moreover have "n div 10 < 10 ^ k" using Suc.prems(1) by (simp add: less_mult_imp_div_less mult.commute)
    ultimately show ?thesis using Suc.IH [of "n div 10"] False by (subst dec.simps) simp
  qed
qed simp

lemma clause_texts:
  "port_clause cfg = Some (asc ''port '' @ dec (unat (filter_port cfg)))"
  "terminated 46 (filter_host cfg) \<Longrightarrow> host_clause cfg = Some (asc ''host '' @ cstr (filter_host cfg))"
proof -
  have len: "length (dec (unat (filter_port cfg))) \<le> 5"
    by (rule length_dec_le, rule order_less_trans [OF unat_u16_less]) simp_all
  have c: "c_str (put_str b s) = Some s" if "length s < length b" "0 \<notin> set s" for b s
    using that put_str_terminated [of b "length b" s] by (cases "b = []") (auto simp: c_str_def cstr_put_fits terminated_def)
  show "port_clause cfg = Some (asc ''port '' @ dec (unat (filter_port cfg)))"
    using len by (simp add: port_clause_def Let_def c asc_def)
  show "host_clause cfg = Some (asc ''host '' @ cstr (filter_host cfg))" if t: "terminated 46 (filter_host cfg)"
    using cstr_length_terminated [OF t] t by (simp add: host_clause_def c_str_terminated terminated_def c asc_def)
qed

lemma clause_lengths:
  assumes "terminated 46 (filter_host cfg)" "protocol_clause p = Some t"
  shows "length (asc t) \<le> 15" "length (asc ''port '' @ dec (unat (filter_port cfg))) \<le> 10"
    "length (asc ''host '' @ cstr (filter_host cfg)) \<le> 50" "0 \<notin> set (asc t)" "asc t \<noteq> []"
proof -
  have "length (dec (unat (filter_port cfg))) \<le> 5"
    by (rule length_dec_le, rule order_less_trans [OF unat_u16_less]) simp_all
  then show "length (asc ''port '' @ dec (unat (filter_port cfg))) \<le> 10" by (simp add: asc_def)
  show "length (asc t) \<le> 15" "0 \<notin> set (asc t)" "asc t \<noteq> []"
    using assms(2) by (auto simp: protocol_clause_def asc_def split: if_splits)
  show "length (asc ''host '' @ cstr (filter_host cfg)) \<le> 50"
    using cstr_length_terminated [OF assms(1)] by (simp add: asc_def)
qed

lemma length_joined: "length (joined ts) \<le> sum_list (map (\<lambda>t. length t + 5) ts)"
  by (induction ts rule: joined.induct) (auto simp: asc_def)

lemma bpf_built:
  assumes "terminated 46 (filter_host cfg)" "length buf = 256"
  shows "\<exists>buf'. build_bpf_filter_expression (Some cfg) buf = Some (bpf_clauses cfg \<noteq> [], buf') \<and>
    bpf_holds 256 (bpf_clauses cfg) (Some (True, bpf_clauses cfg \<noteq> [], buf'))"
proof -
  define p where "p = (filter_protocol_enabled cfg \<and> protocol_clause (filter_protocol cfg) \<noteq> None)"
  define t1 where "t1 = asc (the (protocol_clause (filter_protocol cfg)))"
  define t2 where "t2 = asc ''port '' @ dec (unat (filter_port cfg))"
  define t3 where "t3 = asc ''host '' @ cstr (filter_host cfg)"
  let ?l1 = "if p then [t1] else []" and ?l2 = "if filter_port_enabled cfg then [t2] else []"
    and ?l3 = "if filter_host_enabled cfg then [t3] else []"
  have t1: "length t1 \<le> 15 \<and> 0 \<notin> set t1 \<and> t1 \<noteq> []" if p
    using clause_lengths [OF assms(1)] that by (auto simp: p_def t1_def)
  have "protocol_clause PROTO_TCP = Some ''tcp''" by (simp add: protocol_clause_def)
  from clause_lengths(2,3) [OF assms(1) this] have len: "length t2 \<le> 10" "length t3 \<le> 50" by (simp_all add: t2_def t3_def)
  have t: "0 \<notin> set t2" "t2 \<noteq> []" "0 \<notin> set t3" "t3 \<noteq> []" by (simp_all add: t2_def t3_def asc_def)
  have fits: "length (joined (?l1 @ ?l2 @ ?l3)) < 256" "length (joined (?l1 @ ?l2)) < 256" "length (joined ?l1) < 256"
    using length_joined [of "?l1 @ ?l2 @ ?l3"] length_joined [of "?l1 @ ?l2"] length_joined [of ?l1] t1 len by (auto split: if_splits)
  have c2: "port_clause cfg = Some t2" and c3: "host_clause cfg = Some t3"
    using clause_texts [of cfg] assms(1) by (simp_all add: t2_def t3_def)
  have start: "bpf_holds 256 [] (Some (True, False, buf[0 := 0]))"
    using assms(2) by (cases buf) (auto simp: bpf_holds_def)
  have s1: "bpf_holds 256 ([] @ ?l1) (bpf_step (if p then Some (Some t1) else None) (Some (True, False, buf[0 := 0])))"
    by (rule optional_clause [OF start]) (use fits(3) t1 in simp_all)
  have s2: "bpf_holds 256 (([] @ ?l1) @ ?l2) (bpf_step (if filter_port_enabled cfg then Some (port_clause cfg) else None)
      (bpf_step (if p then Some (Some t1) else None) (Some (True, False, buf[0 := 0]))))"
    by (rule optional_clause [OF s1]) (use fits(2) t c2 in simp_all)
  have s3: "bpf_holds 256 ((([] @ ?l1) @ ?l2) @ ?l3) (bpf_step (if filter_host_enabled cfg then Some (host_clause cfg) else None)
      (bpf_step (if filter_port_enabled cfg then Some (port_clause cfg) else None)
      (bpf_step (if p then Some (Some t1) else None) (Some (True, False, buf[0 := 0])))))"
    by (rule optional_clause [OF s2]) (use fits(1) t c3 in simp_all)
  have clauses: "bpf_clauses cfg = (([] @ ?l1) @ ?l2) @ ?l3"
    by (auto simp: bpf_clauses_def p_def t1_def t2_def t3_def split: option.splits)
  have arg: "(if filter_protocol_enabled cfg then map_option (\<lambda>t. Some (asc t)) (protocol_clause (filter_protocol cfg)) else None)
      = (if p then Some (Some t1) else None)"
    by (auto simp: p_def t1_def split: option.splits)
  show ?thesis
    using s3 assms(2) unfolding clauses [symmetric] by (auto simp: build_bpf_filter_expression_def arg bpf_holds_def)
qed

text \<open>C34. The expression handed to libpcap is exactly the conjunction of the clauses of the enabled
  protocol, port and host filters: it is built for every configuration with at least one clause, never
  truncated and never partial, and nothing is written outside the buffer.\<close>

theorem bpf_expression_exact:
  assumes "terminated 46 (filter_host cfg)" "length buf = 256"
  shows "\<exists>buf'. build_bpf_filter_expression (Some cfg) buf = Some (bpf_clauses cfg \<noteq> [], buf') \<and>
    length buf' = 256 \<and> 0 \<in> set buf' \<and> cstr buf' = joined (bpf_clauses cfg)"
  using bpf_built [OF assms] by (auto simp: bpf_holds_def)

lemma bpf_expression_exact_witness:
  "\<exists>buf'. build_bpf_filter_expression (Some (config_init_defaults\<lparr>filter_protocol_enabled := True, filter_protocol := PROTO_TCP,
       filter_port_enabled := True, filter_port := 443\<rparr>)) (replicate 256 0) = Some (True, buf') \<and>
     cstr buf' = asc ''tcp and port 443''"
proof -
  let ?cfg = "config_init_defaults\<lparr>filter_protocol_enabled := True, filter_protocol := PROTO_TCP,
       filter_port_enabled := True, filter_port := 443\<rparr>"
  have "terminated 46 (filter_host ?cfg)" by (simp add: config_init_defaults_def)
  from bpf_expression_exact [OF this, of "replicate 256 0"] obtain buf' where b:
    "build_bpf_filter_expression (Some ?cfg) (replicate 256 0) = Some (bpf_clauses ?cfg \<noteq> [], buf')"
    "cstr buf' = joined (bpf_clauses ?cfg)" by auto
  have "dec 443 = asc ''443''" by (simp add: dec.simps dec_digit_def asc_def)
  then have "bpf_clauses ?cfg = [asc ''tcp'', asc ''port 443'']"
    by (simp add: bpf_clauses_def config_init_defaults_def protocol_clause_def asc_def)
  then show ?thesis using b by (simp add: asc_def)
qed

end
