(* ===== verification/Capture.thy ===== *)
theory Capture
  imports Capture_Setup App_Decoder Filters Stats Csv_Logger Output
begin

text \<open>
  The packet loop of \<open>src/capture.c\<close>: \<open>capture_start\<close> and the functions it is made of.

  What the loop sees of the outside world is a list of events: each return of \<open>pcap_next_ex\<close> with its result,
  and each SIGINT that arrives while a call of \<open>pcap_next_ex\<close> is waiting. Its handler only sets \<open>should_stop\<close>: the
  wait goes on, and the flag is read when the loop condition is next evaluated, after whatever that call returns
  has been handled. (A SIGINT during the handling of a packet has the same effect as one just before it; one between
  the installation of the handler and the loop is the answer \<open>an_early_signal\<close>.) A packet carries the answers that
  the log file gives while it is handled. The state is what the loop keeps: the two tables, the
  counters, the log, and what has been written to standard output and to the output savefile;
  \<open>cs_shown\<close> is a ghost that records each displayed packet with its metadata, its source and the context
  its filters saw. Messages to
  standard error are left out.

  A flow pointer is an index into the table; nothing between taking and using it adds or removes a
  flow. \<open>&flow->app\<close> is the value at the point where the pointer is taken: a classified flow's metadata
  never changes again (\<open>stream_app_classified\<close>).
\<close>

section \<open>The state\<close>

record frame =
  fr_bytes :: bytes
  fr_caplen :: nat
  fr_sec :: int
  fr_usec :: int
  fr_log_error :: bool
  fr_log_flushed :: bool

text \<open>The four kinds of result of \<open>pcap_next_ex\<close>: 0, -1, -2 and 1.\<close>

datatype next_result = NEXT_TIMEOUT | NEXT_ERROR | NEXT_EOF | NEXT_PACKET frame

datatype capture_event = EV_SIGNAL | EV_RETURN next_result

abbreviation EV_TIMEOUT :: capture_event where "EV_TIMEOUT \<equiv> EV_RETURN NEXT_TIMEOUT"
abbreviation EV_ERROR :: capture_event where "EV_ERROR \<equiv> EV_RETURN NEXT_ERROR"
abbreviation EV_EOF :: capture_event where "EV_EOF \<equiv> EV_RETURN NEXT_EOF"
abbreviation EV_PACKET :: "frame \<Rightarrow> capture_event" where "EV_PACKET fr \<equiv> EV_RETURN (NEXT_PACKET fr)"

record capture_env =
  ce_config :: app_config
  ce_platform :: platform
  ce_alloc :: allocator
  ce_idna :: idna
  ce_datalink :: int
  ce_writing :: bool
  ce_fclose_ok :: bool

record shown_packet =
  sh_packet :: packet_info
  sh_app :: "app_info option"
  sh_source :: string
  sh_context :: filter_context

record capture_state =
  cs_stop :: bool
  cs_frags :: frag_table
  cs_flows :: flow_table
  cs_stats :: packet_stats
  cs_log :: csv_logger
  cs_captured :: u32
  cs_stdout :: bytes
  cs_dumped :: "frame list"
  cs_shown :: "shown_packet list"

datatype step_outcome = STEP_NEXT | STEP_BREAK | STEP_FAIL

section \<open>One packet\<close>

text \<open>\<open>%ld\<close> and \<open>%06ld\<close>; the flag and the width count the sign.\<close>

definition out_ld :: "int \<Rightarrow> bytes" where
  "out_ld i = (if i < 0 then 45 # dec (nat (- i)) else dec (nat i))"

definition out_06ld :: "int \<Rightarrow> bytes" where
  "out_06ld i = (if i < 0 then 45 # zero_padded 5 (nat (- i)) else zero_padded 6 (nat i))"

definition set_packet_timestamp :: "packet_info \<Rightarrow> frame \<Rightarrow> packet_info" where
  "set_packet_timestamp p fr =
     p\<lparr>timestamp := put_str (timestamp p) (out_ld (fr_sec fr) @ [46] @ out_06ld (fr_usec fr))\<rparr>"

text \<open>The result, the status that is written, and the flow.\<close>

definition flow_decode_stream_app ::
    "allocator \<Rightarrow> flow_info \<Rightarrow> flow_direction \<Rightarrow> packet_info \<Rightarrow> (bool \<times> AppDecodeStatus \<times> flow_info) option" where
  "flow_decode_stream_app al f d p =
     (if protocol p \<noteq> PROTO_TCP \<or> \<not> has_tcp_sequence p then Some (False, STATUS_NO_MATCH, f)
      else if fi_app_classified f \<or> \<not> has_payload p \<or> payload_capture_length p = 0 then
        let x = direction_of f d in
        Some (False, STATUS_NO_MATCH,
          set_direction f d (x\<lparr>fds_tcp := tcp_reassembly_track_flags (fds_tcp x) (tcp_flags p)\<rparr>))
      else
        let (prepared, f1) = flow_prepare_reassembly_direction al f d in
        if \<not> prepared then Some (False, STATUS_MALFORMED, f1)
        else do {
          let x = direction_of f1 d;
          (reassembly_result, tcp) \<leftarrow>
            tcp_reassembly_process_segment al (fds_tcp x) (tcp_sequence p) (tcp_flags p)
              (payload p) (payload_capture_length p);
          let f2 = set_direction f1 d (x\<lparr>fds_tcp := tcp\<rparr>);
          if reassembly_result = TCP_DROPPED then Some (False, STATUS_TRUNCATED, f2)
          else do {
            (decode_result, decoded) \<leftarrow>
              app_decode_stream p (stream_buffer_data (stream tcp)) (stream_buffer_length (stream tcp));
            let status = app_decode_status_from_result decode_result p decoded;
            if decode_result \<noteq> DECODE_OK \<or> app_protocol decoded = APP_PROTO_UNKNOWN then Some (False, status, f2)
            else Some (True, status, flow_release_reassembly_buffers
              (f2\<lparr>fi_app := decoded, fi_app_decode_status := STATUS_DECODED, fi_app_classified := True\<rparr>))
          }
        })"

text \<open>The view of the packet that is filtered and displayed: the wire packet, or a rebuilt datagram.\<close>

datatype packet_view = VIEW_WIRE | VIEW_DATAGRAM packet_info | VIEW_UNREADABLE

abbreviation decode_limit :: "capture_env \<Rightarrow> nat" where
  "decode_limit E \<equiv> parser_set_payload_decode_limit (payload_decode_bytes (ce_config E))"

definition packet_time :: "frame \<Rightarrow> u64" where
  "packet_time fr = of_int (fr_sec fr)"

definition capture_fragment ::
    "capture_env \<Rightarrow> frame \<Rightarrow> packet_info \<Rightarrow> capture_state \<Rightarrow> (packet_view \<times> capture_state) option" where
  "capture_fragment E fr info s =
     (if \<not> is_ipv4_fragment info then Some (VIEW_WIRE, s)
      else do {
        (ans, t, st) \<leftarrow> ipv4_fragment_table_process (ce_alloc E) (cs_frags s) info (packet_time fr) (cs_stats s);
        let s1 = s\<lparr>cs_frags := t, cs_stats := st\<rparr>;
        if fp_result ans \<noteq> FRAG_REASSEMBLED then Some (VIEW_WIRE, s1)
        else do {
          (result, assembled) \<leftarrow> parser_parse_packet_with_datalink (ce_platform E) (decode_limit E)
             (fp_packet ans) (fp_packet_length ans) (dlt_raw (ce_platform E));
          if result \<noteq> 0 then
            Some (VIEW_UNREADABLE, s1\<lparr>cs_stats := stats_record_parse_failure (cs_stats s1)\<rparr>)
          else Some (VIEW_DATAGRAM (set_packet_timestamp assembled fr), s1)
        }
      })"

text \<open>The local variables that the flow block sets.\<close>

record flow_view =
  fv_flow :: "nat option"
  fv_app :: "app_info option"
  fv_filter_app :: "app_info option"
  fv_was_classified :: bool
  fv_status :: AppDecodeStatus
  fv_source :: string

definition no_flow :: flow_view where
  "no_flow = \<lparr>fv_flow = None, fv_app = None, fv_filter_app = None, fv_was_classified = False,
     fv_status = STATUS_NOT_RUN, fv_source = ''none''\<rparr>"

definition put_flow :: "nat \<Rightarrow> flow_info \<Rightarrow> flow_table \<Rightarrow> flow_table option" where
  "put_flow i f t = do { fs \<leftarrow> wr (fl_flows t) i f; Some (t\<lparr>fl_flows := fs\<rparr>) }"

definition flow_step :: "capture_env \<Rightarrow> packet_info \<Rightarrow> nat \<Rightarrow> flow_direction \<Rightarrow> flow_info \<Rightarrow>
    (flow_view \<times> flow_info) option" where
  "flow_step E p i d f =
     (let decode = decode_app (ce_config E); v = no_flow\<lparr>fv_flow := Some i\<rparr> in
      if fi_app_classified f then do {
        (_, _, f1) \<leftarrow> (if decode then flow_decode_stream_app (ce_alloc E) f d p
                     else Some (False, STATUS_NO_MATCH, f));
        Some (v\<lparr>fv_app := Some (fi_app f), fv_filter_app := Some (fi_app f), fv_was_classified := True,
                fv_status := fi_app_decode_status f, fv_source := ''flow''\<rparr>, f1)
      }
      else if \<not> decode then Some (v, f)
      else do {
        (found, status, f1) \<leftarrow> flow_decode_stream_app (ce_alloc E) f d p;
        if found then Some (v\<lparr>fv_app := Some (fi_app f1), fv_status := status, fv_source := ''flow''\<rparr>, f1)
        else Some (v\<lparr>fv_status := status\<rparr>, f1)
      })"

definition capture_flow :: "capture_env \<Rightarrow> packet_info \<Rightarrow> u64 \<Rightarrow> flow_table \<Rightarrow> (flow_view \<times> flow_table) option" where
  "capture_flow E p now t =
     (if \<not> reassemble (ce_config E) then Some (no_flow, t)
      else do {
        (found, t1) \<leftarrow> flow_table_get_or_create (net (ce_platform E)) t p now;
        case found of
          None \<Rightarrow> Some (no_flow, t1)
        | Some (i, d) \<Rightarrow> do {
            f \<leftarrow> rd (fl_flows t1) i;
            (v, f1) \<leftarrow> flow_step E p i d (flow_update_packet f p now d);
            t2 \<leftarrow> put_flow i f1 t1;
            Some (v, t2)
          }
      })"



text \<open>The decoding block: the packet, the metadata pointer of the packet, the flow variables and the table.\<close>

definition classify_flow :: "app_info \<Rightarrow> flow_view \<Rightarrow> flow_table \<Rightarrow> (flow_view \<times> flow_table) option" where
  "classify_flow a v t =
     (case fv_flow v of None \<Rightarrow> Some (v, t)
      | Some i \<Rightarrow> do {
          f \<leftarrow> rd (fl_flows t) i;
          if fi_app_classified f then Some (v, t)
          else do {
            t1 \<leftarrow> put_flow i (flow_release_reassembly_buffers (f\<lparr>fi_app := a,
                    fi_app_decode_status := STATUS_DECODED, fi_app_classified := True\<rparr>)) t;
            Some (v\<lparr>fv_app := Some a\<rparr>, t1)
          }
        })"

definition adopt_flow_status :: "flow_view \<Rightarrow> packet_info \<Rightarrow> packet_info" where
  "adopt_flow_status v p =
     (if app_decode_status p = STATUS_NOT_RUN \<and> fv_status v \<noteq> STATUS_NOT_RUN
      then p\<lparr>app_decode_status := fv_status v\<rparr> else p)"

definition capture_decode :: "capture_env \<Rightarrow> packet_info \<Rightarrow> flow_view \<Rightarrow> flow_table \<Rightarrow>
    (packet_info \<times> app_info option \<times> flow_view \<times> flow_table) option" where
  "capture_decode E p v t =
     (if decode_app (ce_config E) then do {
        (decode_result, a) \<leftarrow> app_decode_packet p;
        let p1 = p\<lparr>app := a\<rparr>;
        let p2 = p1\<lparr>app_decode_status := app_decode_status_from_result decode_result p1 (app p1)\<rparr>;
        if decode_result = DECODE_OK \<and> app_protocol a \<noteq> APP_PROTO_UNKNOWN then do {
          (v1, t1) \<leftarrow> classify_flow a (v\<lparr>fv_source := ''packet''\<rparr>) t;
          Some (adopt_flow_status v1 p2, Some a, v1, t1)
        }
        else Some (adopt_flow_status v p2, None, v, t)
      }
      else Some (adopt_flow_status v (p\<lparr>app_decode_status := STATUS_NOT_RUN\<rparr>), None, v, t))"

text \<open>A newly classified flow is announced once, unless the output is JSON.\<close>

definition announce_flow :: "capture_env \<Rightarrow> flow_view \<Rightarrow> flow_table \<Rightarrow> (bytes \<times> flow_table) option" where
  "announce_flow E v t =
     (case fv_flow v of None \<Rightarrow> Some ([], t)
      | Some i \<Rightarrow> do {
          f \<leftarrow> rd (fl_flows t) i;
          if json_output (ce_config E) \<or> \<not> fi_app_classified f \<or> fi_app_event_printed f then Some ([], t)
          else do {
            out \<leftarrow> output_print_flow_app_event (ce_platform E) (Some f);
            t1 \<leftarrow> put_flow i (f\<lparr>fi_app_event_printed := True\<rparr>) t;
            Some (out, t1)
          }
        })"

definition print_packet :: "app_config \<Rightarrow> packet_info \<Rightarrow> app_info option \<Rightarrow> app_info option \<Rightarrow> string \<Rightarrow> bytes option" where
  "print_packet cfg p packet_app ap source =
     (if json_output cfg then
        output_print_packet_json (Some p) ap (Some source) (payload_display_enabled cfg) (payload_preview_bytes cfg)
      else cat [packet_info_print (Some p),
        when_out (decode_app cfg) (output_print_packet_app_status (app_decode_status p) packet_app),
        when_out (payload_display_enabled cfg) (packet_info_print_payload (Some p) (payload_preview_bytes cfg))])"

text \<open>What every early exit of the loop does: close the log and drop the tables.\<close>

definition capture_abort :: "capture_env \<Rightarrow> capture_state \<Rightarrow> capture_state" where
  "capture_abort E s = s\<lparr>cs_log := snd (csv_logger_close (ce_fclose_ok E) (cs_log s)),
     cs_frags := ipv4_fragment_table_cleanup (cs_frags s), cs_flows := flow_table_cleanup (cs_flows s)\<rparr>"

definition display_packet :: "capture_env \<Rightarrow> frame \<Rightarrow> packet_info \<Rightarrow> packet_info \<Rightarrow> app_info option \<Rightarrow>
    flow_view \<Rightarrow> capture_state \<Rightarrow> (step_outcome \<times> capture_state) option" where
  "display_packet E fr info p packet_app v s = do {
     (event, t1) \<leftarrow> announce_flow E v (cs_flows s);
     let number = cs_captured s + 1;
     let p1 = p\<lparr>packet_number := number\<rparr>;
     let ap = (case packet_app of Some a \<Rightarrow> Some a | None \<Rightarrow> fv_app v);
     out \<leftarrow> print_packet (ce_config E) p1 packet_app ap (fv_source v);
     let s1 = s\<lparr>cs_flows := t1, cs_captured := number, cs_stdout := cs_stdout s @ event @ out,
                cs_shown := cs_shown s @ [\<lparr>sh_packet = p1, sh_app = ap, sh_source = fv_source v, sh_context =
                  \<lparr>fc_packet = Some p1, fc_packet_app = packet_app, fc_flow_app = fv_filter_app v,
                   fc_flow_is_classified = fv_was_classified v\<rparr>\<rparr>]\<rparr>;
     (written, l) \<leftarrow> csv_logger_write_packet (fr_log_error fr) (fr_log_flushed fr) (cs_log s1) (Some p1) ap
                      (Some (fv_source v));
     let s2 = s1\<lparr>cs_log := l\<rparr>;
     if written \<noteq> 0 then Some (STEP_FAIL, capture_abort E s2)
     else Some (STEP_NEXT, s2\<lparr>cs_dumped := (if ce_writing E then cs_dumped s2 @ [fr] else cs_dumped s2),
            cs_stats := stats_update (cs_stats s2) info\<rparr>)
   }"

text \<open>
  The body of the loop after the parser: \<open>effective\<close> is \<open>*effective_info\<close>. The counters describe the
  wire packet, which takes over the decode status of a rebuilt datagram.
\<close>

definition capture_effective :: "capture_env \<Rightarrow> frame \<Rightarrow> packet_info \<Rightarrow> packet_view \<Rightarrow> capture_state \<Rightarrow>
    (step_outcome \<times> capture_state) option" where
  "capture_effective E fr info view s = do {
     let effective = (case view of VIEW_DATAGRAM p \<Rightarrow> p | _ \<Rightarrow> info);
     (v0, t0) \<leftarrow> capture_flow E effective (packet_time fr) (cs_flows s);
     (p, packet_app, v, t) \<leftarrow> capture_decode E effective v0 t0;
     let info1 = (case view of VIEW_DATAGRAM _ \<Rightarrow> info\<lparr>app_decode_status := app_decode_status p\<rparr> | _ \<Rightarrow> p);
     let s1 = s\<lparr>cs_flows := t\<rparr>;
     matches \<leftarrow> filters_match (ce_idna E) (Some (ce_config E))
       (Some \<lparr>fc_packet = Some p, fc_packet_app = packet_app, fc_flow_app = fv_filter_app v,
              fc_flow_is_classified = fv_was_classified v\<rparr>);
     if \<not> matches then Some (STEP_NEXT, s1\<lparr>cs_stats := stats_record_filtered_out (cs_stats s1)\<rparr>)
     else display_packet E fr info1 p packet_app v s1
   }"

definition capture_packet :: "capture_env \<Rightarrow> frame \<Rightarrow> capture_state \<Rightarrow> (step_outcome \<times> capture_state) option" where
  "capture_packet E fr s = do {
     let s0 = s\<lparr>cs_stats := stats_record_raw_packet (cs_stats s)\<rparr>;
     (result, parsed) \<leftarrow> parser_parse_packet_with_datalink (ce_platform E) (decode_limit E)
        (Some (fr_bytes fr)) (fr_caplen fr) (ce_datalink E);
     if result \<noteq> 0 then Some (STEP_NEXT, s0\<lparr>cs_stats := stats_record_parse_failure (cs_stats s0)\<rparr>)
     else do {
       let info = set_packet_timestamp parsed fr;
       (view, s1) \<leftarrow> capture_fragment E fr info s0;
       if view = VIEW_UNREADABLE then Some (STEP_NEXT, s1) else capture_effective E fr info view s1
     }
   }"

section \<open>The loop\<close>

definition capture_step :: "capture_env \<Rightarrow> next_result \<Rightarrow> capture_state \<Rightarrow> (step_outcome \<times> capture_state) option" where
  "capture_step E ev s =
     (case ev of
        NEXT_TIMEOUT \<Rightarrow> Some (STEP_NEXT, s)
      | NEXT_ERROR \<Rightarrow> Some (STEP_FAIL, capture_abort E s)
      | NEXT_EOF \<Rightarrow> Some (STEP_BREAK, s)
      | NEXT_PACKET fr \<Rightarrow> capture_packet E fr s)"

definition keep_going :: "capture_env \<Rightarrow> capture_state \<Rightarrow> bool" where
  "keep_going E s \<longleftrightarrow> \<not> cs_stop s \<and>
     (max_packets (ce_config E) = 0 \<or> cs_captured s < of_int (max_packets (ce_config E)))"

text \<open>The loop has left, failed, or waits in \<open>pcap_next_ex\<close>.\<close>

datatype loop_outcome = LOOP_LEFT | LOOP_FAILED | LOOP_WAITING

text \<open>The loop from a call of \<open>pcap_next_ex\<close> on: the signals while it waits, its return, the rest of the body and the
  condition of the next round.\<close>

fun capture_wait :: "capture_env \<Rightarrow> capture_state \<Rightarrow> capture_event list \<Rightarrow> (loop_outcome \<times> capture_state) option" where
  "capture_wait E s [] = Some (LOOP_WAITING, s)"
| "capture_wait E s (EV_SIGNAL # evs) = capture_wait E (s\<lparr>cs_stop := True\<rparr>) evs"
| "capture_wait E s (EV_RETURN result # evs) = do {
     (outcome, s1) \<leftarrow> capture_step E result s;
     case outcome of
       STEP_NEXT \<Rightarrow> if keep_going E s1 then capture_wait E s1 evs else Some (LOOP_LEFT, s1)
     | STEP_BREAK \<Rightarrow> Some (LOOP_LEFT, s1)
     | STEP_FAIL \<Rightarrow> Some (LOOP_FAILED, s1)
   }"

definition capture_loop :: "capture_env \<Rightarrow> capture_state \<Rightarrow> capture_event list \<Rightarrow> (loop_outcome \<times> capture_state) option" where
  "capture_loop E s evs = (if keep_going E s then capture_wait E s evs else Some (LOOP_LEFT, s))"

section \<open>Start and end\<close>

text \<open>The answers of the operating system and of libpcap to the calls around the loop.\<close>

record capture_answers =
  an_sigaction_ok :: bool
  an_early_signal :: bool
  an_devices :: "pcap_if list option"
  an_offline_opened :: bool
  an_live_opened :: bool
  an_datalink :: int
  an_compile_ok :: bool
  an_setfilter_ok :: bool
  an_create_ok :: bool
  an_fdopen_ok :: bool
  an_dump_ok :: bool
  an_frag_calloc :: bool
  an_flow_calloc :: bool
  an_log_open :: open_answers
  an_pcap_stats :: "(u32 \<times> u32 \<times> u32) option"

definition open_pcap_writer :: "capture_answers \<Rightarrow> bytes option \<Rightarrow> (int \<times> bool) option" where
  "open_pcap_writer A path =
     (case path of None \<Rightarrow> Some (1, False)
      | Some buf \<Rightarrow> do {
          c \<leftarrow> rd buf 0;
          Some (if c = 0 then (1, False)
            else if \<not> an_create_ok A then (1, False)
            else if \<not> an_fdopen_ok A then (1, False)
            else if \<not> an_dump_ok A then (1, False)
            else (0, True))
        })"

text \<open>The device or file with what is printed about it, and whether it was opened.\<close>

definition capture_source :: "capture_env \<Rightarrow> capture_answers \<Rightarrow> (bytes option \<times> bytes) option" where
  "capture_source E A =
     (let cfg = ce_config E; N = net (ce_platform E) in
      if read_path_enabled cfg then do {
        path \<leftarrow> c_str (read_path cfg);
        Some (if an_offline_opened A then Some path else None, [])
      }
      else do {
        c \<leftarrow> rd (interface_name cfg) 0;
        device \<leftarrow> (if c = 0 then
            let (r, name) = choose_default_device N (replicate 128 0) (an_devices A) in
            if r \<noteq> 0 then Some None else map_option Some (c_str name)
          else do {
            name \<leftarrow> c_str (interface_name cfg);
            found \<leftarrow> interface_exists name (an_devices A);
            Some (if found then Some name else None)
          });
        case device of None \<Rightarrow> Some (None, [])
        | Some name \<Rightarrow> Some (if an_live_opened A then Some name else None,
            if \<not> quiet cfg \<and> \<not> json_output cfg
            then asc ''Starting capture on interface: '' @ name @ [10] else [])
      })"

text \<open>
  Everything before the loop. The answer is the environment of the loop, or \<open>None\<close> when the function
  returns 1 here; the tables that a later failure cleans up are then no longer reachable.
\<close>

definition prepare_tables :: "capture_env \<Rightarrow> capture_answers \<Rightarrow> capture_state \<Rightarrow> bool \<times> capture_state" where
  "prepare_tables E A s =
     (let cfg = ce_config E;
          (frags_ok, frags) = ipv4_fragment_table_init (an_frag_calloc A) (cs_frags s)
            (ipv4_fragment_max_datagrams cfg) (ipv4_fragment_max_bytes cfg) (ipv4_fragment_timeout_seconds cfg);
          s1 = s\<lparr>cs_frags := frags\<rparr>
      in if \<not> frags_ok then (False, s1)
         else
           let (flows_ok, flows) = (if reassemble cfg then flow_table_init (an_flow_calloc A) (cs_flows s1)
                  (cfg_max_flows cfg) (stream_buffer_bytes cfg) (flow_timeout_seconds cfg) else (True, cs_flows s1));
               s2 = s1\<lparr>cs_flows := flows\<rparr>
           in if \<not> flows_ok then (False, s2\<lparr>cs_frags := ipv4_fragment_table_cleanup (cs_frags s2)\<rparr>)
              else (True, s2))"

definition prepare_log :: "capture_env \<Rightarrow> capture_answers \<Rightarrow> capture_state \<Rightarrow> (bool \<times> capture_state) option" where
  "prepare_log E A s =
     (let cfg = ce_config E in
      if \<not> logging_enabled cfg then Some (True, s)
      else do {
        path \<leftarrow> c_str (log_path cfg);
        let (r, l) = csv_logger_open (an_log_open A) (cs_log s) (Some path) (decode_app cfg)
              (payload_display_enabled cfg) (payload_preview_bytes cfg) (log_flush_mode cfg);
        let s1 = s\<lparr>cs_log := l\<rparr>;
        Some (if r \<noteq> 0 then (False, s1\<lparr>cs_frags := ipv4_fragment_table_cleanup (cs_frags s1),
                 cs_flows := flow_table_cleanup (cs_flows s1)\<rparr>) else (True, s1))
      })"

definition capture_prepare :: "capture_env \<Rightarrow> capture_answers \<Rightarrow> capture_state \<Rightarrow>
    (capture_env option \<times> capture_state) option" where
  "capture_prepare E A s =
     (let cfg = ce_config E;
          s0 = s\<lparr>cs_stop := False, cs_frags := frag_table_zero, cs_flows := flow_table_zero, cs_captured := 0\<rparr>
      in if \<not> an_sigaction_ok A then Some (None, s0)
      else do {
        (source, printed) \<leftarrow> capture_source E A;
        let s1 = s0\<lparr>cs_stdout := cs_stdout s0 @ printed\<rparr>;
        case source of None \<Rightarrow> Some (None, s1)
        | Some device \<Rightarrow>
          let s2 = s1\<lparr>cs_stdout := cs_stdout s1 @
                (if read_path_enabled cfg \<and> \<not> quiet cfg \<and> \<not> json_output cfg
                 then asc ''Reading packets from pcap file: '' @ device @ [10] else [])\<rparr> in
          if \<not> parser_supports_datalink (ce_platform E) (an_datalink A) then Some (None, s2)
          else do {
            (installed, report) \<leftarrow> install_bpf_filter (an_compile_ok A) (an_setfilter_ok A) cfg;
            let s3 = s2\<lparr>cs_stdout := cs_stdout s2 @ report\<rparr>;
            (failed, writing) \<leftarrow> (if write_path_enabled cfg then open_pcap_writer A (Some (write_path cfg))
                                 else Some (0, False));
            if failed \<noteq> 0 then Some (None, s3)
            else
              let (tables_ok, s4) = prepare_tables E A s3 in
              if \<not> tables_ok then Some (None, s4)
              else do {
                (log_ok, s5) \<leftarrow> prepare_log E A s4;
                Some (if log_ok then Some (E\<lparr>ce_datalink := an_datalink A, ce_writing := writing\<rparr>) else None, s5)
              }
          }
      })"

text \<open>Everything after the loop.\<close>

definition capture_finish :: "capture_env \<Rightarrow> capture_answers \<Rightarrow> capture_state \<Rightarrow> int \<times> capture_state" where
  "capture_finish E A s =
     (let cfg = ce_config E;
          s1 = s\<lparr>cs_stdout := cs_stdout s @ (if cs_stop s \<and> \<not> quiet cfg \<and> \<not> json_output cfg
                 then [10] @ asc ''Capture stopped.'' @ [10] else []),
                cs_flows := flow_table_evict_closed (cs_flows s)\<rparr>;
          st1 = stats_apply_ipv4_fragment_table (stats_apply_flow_table (cs_stats s1) (cs_flows s1)) (cs_frags s1);
          st2 = (if read_path_enabled cfg then st1
                 else case an_pcap_stats A of
                   Some (received, dropped, if_dropped) \<Rightarrow> stats_apply_pcap_drops st1 True received dropped if_dropped
                 | None \<Rightarrow> stats_apply_pcap_drops st1 False 0 0 0);
          (r, l) = csv_logger_close (ce_fclose_ok E) (cs_log s1)
      in (r, s1\<lparr>cs_stats := st2, cs_frags := ipv4_fragment_table_cleanup (cs_frags s1),
                cs_flows := flow_table_cleanup (cs_flows s1), cs_log := l\<rparr>))"

text \<open>The return value; \<open>None\<close> while the loop waits for the next event.\<close>

definition capture_start :: "capture_env \<Rightarrow> capture_answers \<Rightarrow> capture_state \<Rightarrow> capture_event list \<Rightarrow>
    (int option \<times> capture_state) option" where
  "capture_start E A s evs = do {
     (ready, s1) \<leftarrow> capture_prepare E A s;
     case ready of None \<Rightarrow> Some (Some 1, s1)
     | Some E1 \<Rightarrow> do {
         (outcome, s2) \<leftarrow> capture_loop E1 (s1\<lparr>cs_stop := an_early_signal A\<rparr>) evs;
         case outcome of
           LOOP_WAITING \<Rightarrow> Some (None, s2)
         | LOOP_FAILED \<Rightarrow> Some (Some 1, s2)
         | LOOP_LEFT \<Rightarrow> let (r, s3) = capture_finish E1 A s2 in Some (Some r, s3)
       }
   }"

definition capture_initial :: capture_state where
  "capture_initial = \<lparr>cs_stop = False, cs_frags = frag_table_zero, cs_flows = flow_table_zero,
     cs_stats = packet_stats_zero, cs_log = csv_logger_initial, cs_captured = 0, cs_stdout = [],
     cs_dumped = [], cs_shown = []\<rparr>"

end
