(* ===== verification/Printing.thy ===== *)
theory Printing
  imports Json_Output
begin

text \<open>
  Everything that the program prints or logs about a packet is written: on packets and metadata whose
  texts end in their arrays no printing function of \<open>src/output.c\<close>, \<open>src/common.c\<close> or
  \<open>src/csv_logger.c\<close> reads past an array.
\<close>

declare cat.simps(2) [simp del]

definition written :: "bytes option \<Rightarrow> bool" where
  "written x \<longleftrightarrow> (\<exists>b. x = Some b)"

named_theorems writes \<open>calls that are written\<close>

lemma writtenD: "written x \<Longrightarrow> \<exists>b. x = Some b"
  by (simp add: written_def)

lemma written_basic [writes]:
  "written (Some b)" "written (lit s)" "written (out_u n)" "written (cat [])"
  "written (cat (x # xs)) \<longleftrightarrow> written x \<and> written (cat xs)"
  "written (when_out c x) \<longleftrightarrow> (c \<longrightarrow> written x)"
  "0 \<in> set b \<Longrightarrow> written (c_str b)" "0 \<in> set b \<Longrightarrow> written (print_escaped_text b)"
  by (cases x; cases "cat xs"; auto simp: written_def lit_def out_u_def when_out_def c_str_def print_escaped_text_def cat.simps)+

lemma written_names [writes]: "written (print_dns_type t)" "written (print_dhcp_message_type m)"
  by (simp_all add: print_dns_type_def print_dhcp_message_type_def writes split: option.split)

lemma written_field [writes]: "0 \<in> set b \<Longrightarrow> written (print_text_field n b)"
  using first_byte [of b] by (auto simp: print_text_field_def writes)

lemma written_app_fields [writes]:
  assumes "app_info_ok a"
  shows "written (print_dns_fields a)" "written (print_tls_fields a)" "written (print_http_fields s a)"
    "written (print_dhcp_fields a)" "written (print_quic_fields a)"
  using assms
  by (simp_all add: app_info_ok_def terminated_def print_dns_fields_def print_tls_fields_def print_http_fields_def
      print_dhcp_fields_def print_quic_fields_def writes)

lemma written_app_status [writes]:
  "\<forall>a. ap = Some a \<longrightarrow> app_info_ok a \<Longrightarrow> written (output_print_packet_app_status st ap)"
  by (auto simp: output_print_packet_app_status_def writes split: option.split AppProtocol.split)

lemma written_flow_event [writes]:
  assumes "key_ok (fi_key f)" "app_info_ok (fi_app f)"
  shows "written (output_print_flow_app_event P (Some f))"
  using assms
  by (auto simp: output_print_flow_app_event_def print_flow_app_fields_def print_flow_endpoint_def key_ok_def ip_ok_def
      rd_slice_def writes)

lemma written_packet_line [writes]:
  assumes "packet_texts_ok p"
  shows "written (packet_info_print (Some p))"
proof -
  have z: "0 \<in> set (src_ip p)" "0 \<in> set (dst_ip p)" "0 \<in> set (arp_sender_mac p)" "0 \<in> set (arp_target_mac p)"
    using assms by (simp_all add: packet_texts_ok_def)
  have e: "written (print_endpoint_with_port b q)" if "0 \<in> set b" for b q
    using that by (simp add: print_endpoint_with_port_def c_str_def writes)
  obtain s d where "rd (src_ip p) 0 = Some s" "rd (dst_ip p) 0 = Some d"
    using first_byte [OF z(1)] first_byte [OF z(2)] by blast
  then show ?thesis using z e by (simp add: packet_info_print_def Let_def writes)
qed

lemma written_payload [writes]:
  "payload_preview_length p \<le> length (payload_preview p) \<Longrightarrow> written (packet_info_print_payload (Some p) limit)"
  by (simp add: packet_info_print_payload_def Let_def rd_slice_def writes)

lemma written_json [writes]:
  assumes "packet_texts_ok p" "payload_preview_length p \<le> length (payload_preview p)" "\<forall>a. ap = Some a \<longrightarrow> app_info_ok a"
  shows "written (output_print_packet_json (Some p) ap source e limit)"
  using packet_line_text [OF assms, of source e limit] by (simp add: written_def)

lemma written_row [writes]:
  assumes "packet_texts_ok p" "payload_preview_length p \<le> length (payload_preview p)" "\<forall>a. ap = Some a \<longrightarrow> app_info_ok a"
  shows "written (write_app_packet p ap source)" "written (write_legacy_packet l p)"
proof -
  let ?fs = "app_values p (case ap of None \<Rightarrow> app_info_zero | Some a \<Rightarrow> a) (normalized_app_source ap source)"
  have len: "length (app_cells p ap source) = length ?fs" "app_cells p ap source \<noteq> []"
    by (simp_all add: app_cells_def app_values_def Let_def)
  show "written (write_app_packet p ap source)"
    using good_row [OF len app_cells_good [OF assms(1,3)]] by (auto simp: write_app_packet_def writes)
  have "written (write_payload_hex l p)" "written (write_payload_ascii l p)"
    using assms(2) by (auto simp: write_payload_hex_def write_payload_ascii_def payload_limit_def rd_slice_def writes)
  then show "written (write_legacy_packet l p)"
    using assms(1) by (simp add: write_legacy_packet_def packet_texts_ok_def writes)
qed

lemma log_written:
  assumes "packet_texts_ok p" "payload_preview_length p \<le> length (payload_preview p)" "\<forall>a. ap = Some a \<longrightarrow> app_info_ok a"
  shows "\<exists>r l'. csv_logger_write_packet e fl l (Some p) ap source = Some (r, l')"
  using written_row(1) [OF assms, of source] written_row(2) [OF assms, of l] by (auto simp: csv_logger_write_packet_def Let_def dest!: writtenD)

end
