(* ===== verification/Capture_Run.thy ===== *)
theory Capture_Run
  imports Capture Printing Json_Output
begin

text \<open>
  What holds of the packet loop, whatever arrives: the invariant of its state, the accounts of its
  counters, and the end of a run.
\<close>

section \<open>A flow through one packet\<close>

text \<open>What no step changes of a flow, and what a step that does not classify it keeps.\<close>

definition flow_kept :: "flow_info \<Rightarrow> flow_info \<Rightarrow> bool" where
  "flow_kept f g \<longleftrightarrow> fi_key g = fi_key f \<and> fi_app_event_printed g = fi_app_event_printed f \<and>
     (fi_app_classified f \<longrightarrow> fi_app_classified g) \<and>
     (fi_app_classified g = fi_app_classified f \<longrightarrow> fi_app g = fi_app f \<and> fi_app_decode_status g = fi_app_decode_status f)"

lemma flow_kept_refl [simp]: "flow_kept f f"
  by (simp add: flow_kept_def)

lemma set_direction_kept [simp]: "flow_kept f (set_direction g d x) = flow_kept f g"
  "fi_app (set_direction g d x) = fi_app g" "fi_app_classified (set_direction g d x) = fi_app_classified g"
  "fi_stream_buffer_bytes (set_direction g d x) = fi_stream_buffer_bytes g" "fi_key (set_direction g d x) = fi_key g"
  "fi_app_event_printed (set_direction g d x) = fi_app_event_printed g"
  "fi_app_decode_status (set_direction g d x) = fi_app_decode_status g"
  by (cases d; simp add: flow_kept_def set_direction_def)+

lemma set_direction_ok: "flow_ok cap f \<Longrightarrow> flow_dir_ok cap (fds_tcp x) \<Longrightarrow> flow_ok cap (set_direction f d x)"
  by (cases d) (simp_all add: flow_ok_def set_direction_def)

lemma direction_of_ok: "flow_ok cap f \<Longrightarrow> flow_dir_ok cap (fds_tcp (direction_of f d))"
  by (cases d) (simp_all add: flow_ok_def direction_of_def)

lemma update_packet_flow:
  "flow_ok cap f \<Longrightarrow> flow_ok cap (flow_update_packet f p now d)" "flow_kept f (flow_update_packet f p now d)"
  "fi_app (flow_update_packet f p now d) = fi_app f"
  "fi_app_classified (flow_update_packet f p now d) = fi_app_classified f"
  by (cases d; simp add: flow_update_packet_def Let_def set_direction_def direction_of_def flow_ok_def flow_kept_def)+

lemma release_flow:
  "flow_ok cap f \<Longrightarrow> flow_ok cap (flow_release_reassembly_buffers f)"
  "flow_kept g (flow_release_reassembly_buffers f) = flow_kept g f"
  "fi_key (flow_release_reassembly_buffers f) = fi_key f"
  "fi_app_event_printed (flow_release_reassembly_buffers f) = fi_app_event_printed f"
  "fi_app (flow_release_reassembly_buffers f) = fi_app f"
  "fi_app_classified (flow_release_reassembly_buffers f) = fi_app_classified f"
  using release_buffers_ok
  by (simp_all add: flow_release_reassembly_buffers_def flow_ok_def flow_dir_ok_def flow_kept_def
      tcp_reassembly_direction_release_buffers_def)

lemma flow_ok_app [simp]:
  "flow_ok cap (f\<lparr>fi_app := a\<rparr>) = flow_ok cap f" "flow_ok cap (f\<lparr>fi_app_decode_status := s\<rparr>) = flow_ok cap f"
  "flow_ok cap (f\<lparr>fi_app_classified := b\<rparr>) = flow_ok cap f" "flow_ok cap (f\<lparr>fi_app_event_printed := b\<rparr>) = flow_ok cap f"
  by (simp_all add: flow_ok_def)

lemma prepare_direction:
  assumes "allocator_ok al" "flow_ok cap f" "cap \<le> 1048576"
    "flow_prepare_reassembly_direction al f d = (r, f1)"
  shows "flow_ok cap f1" "flow_kept f f1" "fi_app_classified f1 = fi_app_classified f"
proof -
  let ?x = "direction_of f d"
  have x: "tcp_ok (fds_tcp ?x)" "pending_byte_cap (fds_tcp ?x) \<le> cap"
    using direction_of_ok [OF assms(2), of d] by (simp_all add: flow_dir_ok_def)
  have fb: "fi_stream_buffer_bytes f = cap" using assms(2) by (simp add: flow_ok_def)
  have "f1 = f \<or> (\<exists>tcp. f1 = set_direction f d (?x\<lparr>fds_tcp := tcp\<rparr>) \<and>
      tcp_reassembly_direction_init al (fds_tcp ?x) cap = (r, tcp))"
    using assms(4) fb by (auto simp: flow_prepare_reassembly_direction_def Let_def split: if_splits prod.splits)
  then have "flow_ok cap f1 \<and> flow_kept f f1 \<and> fi_app_classified f1 = fi_app_classified f"
  proof
    assume "\<exists>tcp. f1 = set_direction f d (?x\<lparr>fds_tcp := tcp\<rparr>) \<and>
      tcp_reassembly_direction_init al (fds_tcp ?x) cap = (r, tcp)"
    then obtain tcp where t: "f1 = set_direction f d (?x\<lparr>fds_tcp := tcp\<rparr>)"
      "tcp_reassembly_direction_init al (fds_tcp ?x) cap = (r, tcp)" by blast
    have "tcp_ok tcp" using direction_init_any [OF assms(1) _ t(2) x(1)] assms(3) by simp
    moreover have "pending_byte_cap tcp \<le> cap"
      using t(2) x(2) by (auto simp: tcp_reassembly_direction_init_def tcp_direction_zero_def split: if_splits prod.splits)
    ultimately show ?thesis using t(1) assms(2) by (simp add: set_direction_ok flow_dir_ok_def)
  qed (use assms(2) in simp)
  then show "flow_ok cap f1" "flow_kept f f1" "fi_app_classified f1 = fi_app_classified f" by auto
qed

text \<open>The bytes a packet points to are there.\<close>

definition packet_window :: "packet_info \<Rightarrow> bool" where
  "packet_window p \<longleftrightarrow> (\<forall>q. payload p = Some q \<longrightarrow> payload_capture_length p \<le> length q \<and>
     payload_decode_length p \<le> length q) \<and> (payload p = None \<longrightarrow> \<not> has_payload p)"

definition stream_step_ok :: "nat \<Rightarrow> flow_info \<Rightarrow> bool \<Rightarrow> flow_info \<Rightarrow> bool" where
  "stream_step_ok cap f found g \<longleftrightarrow> flow_ok cap g \<and> flow_kept f g \<and> app_info_ok (fi_app g) \<and>
     fi_app_classified g = (fi_app_classified f \<or> found) \<and> (found \<longrightarrow> \<not> fi_app_classified f)"

lemma stream_view_decoded:
  assumes "tcp_ok tcp"
  shows "\<exists>r a. app_decode_stream p (stream_buffer_data (stream tcp)) (stream_buffer_length (stream tcp)) = Some (r, a) \<and>
    app_info_ok a"
proof (cases "stream_buffer_data (stream tcp)")
  case None
  then show ?thesis by (simp add: app_decode_stream_def)
next
  case (Some d)
  then have "stream_buffer_length (stream tcp) \<le> length d"
    using stream_buffer_data_view [of "stream tcp"] assms by (simp add: tcp_ok_def)
  from decodedD [OF app_decode_stream_decoded [OF this, of p]] show ?thesis unfolding Some by blast
qed

lemma stream_app_step:
  assumes al: "allocator_ok al" and f: "flow_ok cap f" "cap \<le> 1048576" "app_info_ok (fi_app f)"
    and p: "packet_window p"
  shows "\<exists>found st g. flow_decode_stream_app al f d p = Some (found, st, g) \<and> stream_step_ok cap f found g"
proof (cases "protocol p \<noteq> PROTO_TCP \<or> \<not> has_tcp_sequence p")
  case True
  moreover have "stream_step_ok cap f False f" using f by (simp add: stream_step_ok_def)
  ultimately show ?thesis by (auto simp: flow_decode_stream_app_def)
next
  case tcp: False
  show ?thesis
  proof (cases "fi_app_classified f \<or> \<not> has_payload p \<or> payload_capture_length p = 0")
    case True
    let ?x = "direction_of f d"
    let ?g = "set_direction f d (?x\<lparr>fds_tcp := tcp_reassembly_track_flags (fds_tcp ?x) (tcp_flags p)\<rparr>)"
    have "flow_decode_stream_app al f d p = Some (False, STATUS_NO_MATCH, ?g)"
      using True tcp by (simp add: flow_decode_stream_app_def Let_def)
    moreover have "flow_ok cap ?g"
      using direction_of_ok [OF f(1), of d] by (intro set_direction_ok f(1)) (simp add: flow_dir_ok_def)
    moreover from this have "stream_step_ok cap f False ?g" using f(3) by (simp add: stream_step_ok_def)
    ultimately show ?thesis by blast
  next
    case data: False
    obtain r f1 where pre: "flow_prepare_reassembly_direction al f d = (r, f1)" by fastforce
    note f1 = prepare_direction [OF al f(1,2) pre]
    have app1: "fi_app f1 = fi_app f" using f1(2,3) by (simp add: flow_kept_def)
    show ?thesis
    proof (cases r)
      case False
      then have "flow_decode_stream_app al f d p = Some (False, STATUS_MALFORMED, f1)"
        using tcp data pre by (simp add: flow_decode_stream_app_def)
      moreover have "stream_step_ok cap f False f1" using f1 app1 f(3) by (simp add: stream_step_ok_def)
      ultimately show ?thesis by blast
    next
      case True
      let ?x = "direction_of f1 d"
      have x: "tcp_ok (fds_tcp ?x)" "pending_byte_cap (fds_tcp ?x) \<le> cap"
        using direction_of_ok [OF f1(1), of d] by (simp_all add: flow_dir_ok_def)
      obtain res tcp where seg: "tcp_reassembly_process_segment al (fds_tcp ?x) (tcp_sequence p) (tcp_flags p)
          (payload p) (payload_capture_length p) = Some (res, tcp)" "tcp_ok tcp" "pending_byte_cap tcp \<le> cap"
        using process_segment_ok [OF x(1) al, of "payload p" "payload_capture_length p" "tcp_sequence p" "tcp_flags p"] p x(2)
        by (auto simp: packet_window_def)
      obtain dr a where dec: "app_decode_stream p (stream_buffer_data (stream tcp)) (stream_buffer_length (stream tcp)) = Some (dr, a)"
        "app_info_ok a" using stream_view_decoded [OF seg(2)] by blast
      have g: "flow_ok cap (set_direction f1 d (?x\<lparr>fds_tcp := tcp\<rparr>))"
        using f1(1) seg by (simp add: set_direction_ok flow_dir_ok_def)
      let ?f2 = "set_direction f1 d (?x\<lparr>fds_tcp := tcp\<rparr>)"
      let ?g = "flow_release_reassembly_buffers (?f2\<lparr>fi_app := a, fi_app_decode_status := STATUS_DECODED,
        fi_app_classified := True\<rparr>)"
      have keep: "stream_step_ok cap f False ?f2" "\<not> fi_app_classified f \<Longrightarrow> stream_step_ok cap f True ?g"
        using g f1 app1 f(3) dec(2) by (auto simp: stream_step_ok_def release_flow flow_kept_def)
      have "flow_decode_stream_app al f d p =
        (if res = TCP_DROPPED then Some (False, STATUS_TRUNCATED, ?f2)
         else if dr \<noteq> DECODE_OK \<or> app_protocol a = APP_PROTO_UNKNOWN
           then Some (False, app_decode_status_from_result dr p a, ?f2)
         else Some (True, app_decode_status_from_result dr p a, ?g))"
        using tcp data pre True seg(1) dec(1) by (simp add: flow_decode_stream_app_def Let_def)
      then show ?thesis using keep data by (auto split: if_splits)
    qed
  qed
qed



section \<open>The flow table through one packet\<close>

definition flows_ok :: "capture_env \<Rightarrow> flow_table \<Rightarrow> bool" where
  "flows_ok E t \<longleftrightarrow> (\<forall>f \<in> set (fl_flows t). app_info_ok (fi_app f)) \<and>
     (if reassemble (ce_config E) then flow_table_ok t \<and> fl_live t else t = flow_table_zero)"

definition view_ok :: "flow_table \<Rightarrow> flow_view \<Rightarrow> bool" where
  "view_ok t v \<longleftrightarrow> (\<forall>i. fv_flow v = Some i \<longrightarrow> i < length (fl_flows t)) \<and>
     (\<forall>a. fv_app v = Some a \<longrightarrow> app_info_ok a) \<and> (\<forall>a. fv_filter_app v = Some a \<longrightarrow> app_info_ok a)"

definition env_ok :: "capture_env \<Rightarrow> bool" where
  "env_ok E \<longleftrightarrow> platform_ok (ce_platform E) \<and> allocator_ok (ce_alloc E) \<and> filter_config_ok (ce_config E)"

lemma put_flow_ok:
  assumes "flow_table_ok t" "i < length (fl_flows t)" "flow_ok (fl_stream_buffer_bytes t) g"
    "fi_key g = fi_key (fl_flows t ! i)"
  shows "\<exists>t'. put_flow i g t = Some t' \<and> fl_flows t' = (fl_flows t)[i := g] \<and> flow_table_ok t' \<and> flow_same t t'"
proof -
  have "map fi_key ((fl_flows t)[i := g]) = map fi_key (fl_flows t)"
    using assms(2,4) by (simp add: map_update list_update_same_conv)
  then show ?thesis
    using assms set_update_subset_insert [of "fl_flows t" i g]
    by (auto simp: put_flow_def mem_simps flow_table_ok_def flow_same_def)
qed

lemma put_flow_flows:
  assumes "flows_ok E t" "reassemble (ce_config E)" "i < length (fl_flows t)" "flow_ok (fl_stream_buffer_bytes t) g"
    "fi_key g = fi_key (fl_flows t ! i)" "app_info_ok (fi_app g)"
  shows "\<exists>t'. put_flow i g t = Some t' \<and> fl_flows t' = (fl_flows t)[i := g] \<and> flows_ok E t' \<and> flow_same t t'"
  using put_flow_ok [of t i g] assms set_update_subset_insert [of "fl_flows t" i g]
  by (fastforce simp: flows_ok_def flow_same_def)

lemma flow_at: "flows_ok E t \<Longrightarrow> reassemble (ce_config E) \<Longrightarrow> i < length (fl_flows t) \<Longrightarrow>
    flow_ok (fl_stream_buffer_bytes t) (fl_flows t ! i) \<and> app_info_ok (fi_app (fl_flows t ! i)) \<and>
    fl_stream_buffer_bytes t \<le> 1048576"
  by (auto simp: flows_ok_def flow_table_ok_def)

lemma lookup_apps:
  assumes "looked_up t k now i t'" "i < length (fl_flows t')" "\<forall>f \<in> set (fl_flows t). app_info_ok (fi_app f)"
  shows "\<forall>f \<in> set (fl_flows t'). app_info_ok (fi_app f)"
proof -
  have s: "set (flow_survivors t now) \<subseteq> set (fl_flows t)" by (auto simp: flow_survivors_def)
  have n: "app_info_ok (fi_app (new_flow t k now))"
    using app_info_zero_ok by (simp add: new_flow_def app_info_ok_def)
  have "set (fl_flows t') \<subseteq> insert (new_flow t k now) (set (flow_survivors t now))"
    using assms(1) set_remove_nth [of _ "flow_survivors t now"]
    by (fastforce simp: looked_up_def Let_def split: if_splits)
  then show ?thesis using s n assms(3) by blast
qed

lemma lookup_ok:
  assumes N: "inet_ok N" and t: "flows_ok E t" "reassemble (ce_config E)"
    and p: "terminated 46 (src_ip p)" "terminated 46 (dst_ip p)"
  shows "\<exists>r t'. flow_table_get_or_create N t p now = Some (r, t') \<and> flows_ok E t' \<and> flow_same t t' \<and>
    (\<forall>i d. r = Some (i, d) \<longrightarrow> i < length (fl_flows t'))"
proof (cases "protocol p = PROTO_TCP")
  case True
  have ok: "flow_table_ok t" "fl_live t" using t by (simp_all add: flows_ok_def)
  obtain x where x: "flow_key_from_packet N p = Some x" using flow_key_defined [OF N, of p] p by (auto simp: terminated_def)
  show ?thesis
  proof (cases x)
    case None
    then show ?thesis using x True t ok by (simp add: flow_table_get_or_create_def flow_same_def)
  next
    case (Some kd)
    obtain k d where kd: "kd = (k, d)" by fastforce
    from get_or_create_ok [OF N ok True x [unfolded Some kd], of now]
    obtain i t' where g: "flow_table_get_or_create N t p now = Some (Some (i, d), t')" "flow_table_ok t'"
      "flow_same t t'" "i < length (fl_flows t')" "looked_up t k now i t'" by blast
    have "flows_ok E t'" using g t lookup_apps [OF g(5,4)] by (simp add: flows_ok_def flow_same_def)
    then show ?thesis using g by auto
  qed
qed (use t in \<open>simp add: flow_table_get_or_create_def flow_same_def\<close>)

lemma flow_step_ok:
  assumes E: "env_ok E" and f: "flow_ok cap f" "cap \<le> 1048576" "app_info_ok (fi_app f)" and p: "packet_window p"
  shows "\<exists>v g. flow_step E p i d f = Some (v, g) \<and> flow_ok cap g \<and> flow_kept f g \<and> app_info_ok (fi_app g) \<and>
    fv_flow v = Some i \<and> (\<forall>a. fv_app v = Some a \<longrightarrow> app_info_ok a) \<and> (\<forall>a. fv_filter_app v = Some a \<longrightarrow> app_info_ok a)"
proof -
  obtain b st g where s: "flow_decode_stream_app (ce_alloc E) f d p = Some (b, st, g)" "stream_step_ok cap f b g"
    using stream_app_step [OF _ f p] E unfolding env_ok_def by blast
  then show ?thesis
    using f by (auto simp: flow_step_def Let_def no_flow_def stream_step_ok_def)
qed

lemma capture_flow_ok:
  assumes E: "env_ok E" and t: "flows_ok E t" and p: "packet_window p" "terminated 46 (src_ip p)" "terminated 46 (dst_ip p)"
  shows "\<exists>v t'. capture_flow E p now t = Some (v, t') \<and> flows_ok E t' \<and> flow_same t t' \<and> view_ok t' v \<and>
    (fv_flow v \<noteq> None \<longrightarrow> reassemble (ce_config E))"
proof (cases "reassemble (ce_config E)")
  case True
  have N: "inet_ok (net (ce_platform E))" using E by (simp add: env_ok_def platform_ok_def)
  obtain r t1 where l: "flow_table_get_or_create (net (ce_platform E)) t p now = Some (r, t1)" "flows_ok E t1"
    "flow_same t t1" "\<forall>i d. r = Some (i, d) \<longrightarrow> i < length (fl_flows t1)"
    using lookup_ok [OF N t True p(2,3)] by blast
  show ?thesis
  proof (cases r)
    case None
    then show ?thesis using l True by (simp add: capture_flow_def view_ok_def no_flow_def)
  next
    case (Some id)
    obtain i d where id: "id = (i, d)" by fastforce
    then have i: "i < length (fl_flows t1)" using l(4) Some by simp
    note fl = flow_at [OF l(2) True i]
    let ?f = "flow_update_packet (fl_flows t1 ! i) p now d"
    obtain v g where s: "flow_step E p i d ?f = Some (v, g)" "flow_ok (fl_stream_buffer_bytes t1) g" "flow_kept ?f g"
      "app_info_ok (fi_app g)" "fv_flow v = Some i" "\<forall>a. fv_app v = Some a \<longrightarrow> app_info_ok a"
      "\<forall>a. fv_filter_app v = Some a \<longrightarrow> app_info_ok a"
      using flow_step_ok [OF E _ _ _ p(1), of "fl_stream_buffer_bytes t1" ?f i d] fl by (auto simp: update_packet_flow)
    have "fi_key g = fi_key (fl_flows t1 ! i)"
      using s(3) update_packet_flow(2) [of "fl_flows t1 ! i" p now d] by (simp add: flow_kept_def)
    from put_flow_flows [OF l(2) True i s(2) this s(4)]
    obtain t2 where t2: "put_flow i g t1 = Some t2" "fl_flows t2 = (fl_flows t1)[i := g]" "flows_ok E t2" "flow_same t1 t2"
      by blast
    show ?thesis
      using l t2 s Some id True i by (auto simp: capture_flow_def mem_simps view_ok_def flow_same_def)
  qed
qed (use t in \<open>simp add: capture_flow_def view_ok_def no_flow_def flow_same_def\<close>)



section \<open>Counters\<close>

text \<open>The counters of the loop, which fragment reassembly leaves alone.\<close>

definition core_counters :: "packet_stats \<Rightarrow> u32 list" where
  "core_counters s = [raw_packets_seen s, packets_filtered_out s, parse_failures s, total_packets s,
     tcp_packets s, udp_packets s, icmp_packets s, arp_packets s, other_packets s]"

lemma core_counters_frag [simp]:
  "core_counters (s\<lparr>ipv4_fragments_seen := n\<rparr>) = core_counters s"
  "core_counters (s\<lparr>ipv4_fragments_reassembled := n\<rparr>) = core_counters s"
  "core_counters (s\<lparr>ipv4_fragments_expired := n\<rparr>) = core_counters s"
  "core_counters (s\<lparr>ipv4_fragments_malformed := n\<rparr>) = core_counters s"
  "core_counters (s\<lparr>ipv4_fragments_dropped := n\<rparr>) = core_counters s"
  by (simp_all add: core_counters_def)

lemma expire_core: "core_counters (snd (ipv4_fragment_table_expire t now s)) = core_counters s"
  using frag_sweep.sweep_invariant [of "\<lambda>ts. core_counters (snd ts) = core_counters s" "(t, s)" now 0]
  by (simp add: ipv4_fragment_table_expire_def frag_expire_one_def)

lemma frag_finish_core: "frag_finish al t i d s = Some (ans, t', s') \<Longrightarrow> core_counters s' = core_counters s"
  by (auto simp: frag_finish_def Let_def split: if_splits option.splits Option.bind_splits)

lemma frag_fill_core: "frag_fill al t i d f s = Some (ans, t', s') \<Longrightarrow> core_counters s' = core_counters s"
  using frag_finish_core
  by (fastforce simp: frag_fill_def Let_def split: if_splits option.splits Option.bind_splits prod.splits)

lemma frag_store_core: "frag_store al t i f now s = Some (ans, t', s') \<Longrightarrow> core_counters s' = core_counters s"
  using frag_fill_core
  by (fastforce simp: frag_store_def Let_def split: if_splits option.splits Option.bind_splits prod.splits)

lemma frag_process_core:
  assumes "ipv4_fragment_table_process al t f now s = Some (ans, t', s')"
  shows "core_counters s' = core_counters s"
proof -
  obtain t1 s2 where e: "ipv4_fragment_table_expire t now (s\<lparr>ipv4_fragments_seen := ipv4_fragments_seen s + 1\<rparr>) = (t1, s2)"
    by fastforce
  have s2: "core_counters s2 = core_counters s"
    using expire_core [of t now "s\<lparr>ipv4_fragments_seen := ipv4_fragments_seen s + 1\<rparr>"] e by simp
  show ?thesis
    using assms s2 frag_store_core
    by (fastforce simp: ipv4_fragment_table_process_def e Let_def split: if_splits option.splits Option.bind_splits prod.splits)
qed



section \<open>One packet through the loop\<close>

definition packet_ok :: "packet_info \<Rightarrow> bool" where
  "packet_ok p \<longleftrightarrow> packet_window p \<and> packet_texts_ok p \<and> payload_preview_length p \<le> length (payload_preview p) \<and>
     terminated 46 (src_ip p) \<and> terminated 46 (dst_ip p)"

lemma packet_ok_update [simp]:
  "packet_ok (p\<lparr>app := a\<rparr>) = packet_ok p" "packet_ok (p\<lparr>app_decode_status := st\<rparr>) = packet_ok p"
  "packet_ok (p\<lparr>packet_number := n\<rparr>) = packet_ok p"
  by (simp_all add: packet_ok_def packet_window_def packet_texts_ok_def)

lemma parsed_packet_ok:
  assumes "parsed_ok d limit p" shows "packet_ok (set_packet_timestamp p fr)"
proof -
  have "terminated 32 (timestamp (set_packet_timestamp p fr))"
    using assms by (simp add: set_packet_timestamp_def parsed_ok_def put_str_terminated)
  then show ?thesis
    using assms
    by (auto simp: packet_ok_def packet_window_def packet_texts_ok_def parsed_ok_def window_ok_def terminated_def
        set_packet_timestamp_def split: option.splits)
qed

lemma timestamp_frag_input [simp]: "frag_input (set_packet_timestamp p fr) = frag_input p"
  by (simp add: frag_input_def set_packet_timestamp_def)

definition frame_ok :: "frame \<Rightarrow> bool" where
  "frame_ok fr \<longleftrightarrow> fr_caplen fr \<le> length (fr_bytes fr) \<and> length (fr_bytes fr) < 2 ^ 63"

text \<open>The parser always gives a result; the guard against its failure is never taken.\<close>

lemma parse_frame:
  assumes "env_ok E" "n \<le> length d"
  shows "\<exists>p. parser_parse_packet_with_datalink (ce_platform E) limit (Some d) n dl = Some (0, p) \<and>
    packet_ok (set_packet_timestamp p fr) \<and> (length d < 2 ^ 63 \<longrightarrow> frag_input p)"
proof -
  have "platform_ok (ce_platform E)" using assms(1) by (simp add: env_ok_def)
  from parser_ok [OF this assms(2), of limit dl] obtain p where
    p: "parser_parse_packet_with_datalink (ce_platform E) limit (Some d) n dl = Some (0, p)" "parsed_ok d limit p"
    by (auto simp: network_ok_def)
  then show ?thesis using parsed_packet_ok [OF p(2), of fr] by (auto simp: frag_input_def parsed_ok_def terminated_def)
qed

text \<open>
  The invariant of the fragment table, in the form that its step lemma takes: it follows one key, here
  one that no fragment has.
\<close>

definition frags_ok :: "frag_table \<Rightarrow> bool" where
  "frags_ok t \<longleftrightarrow> frag_table_ok t \<and> frag_tracked [] [] long_key t"

definition fragment_step :: "capture_state \<Rightarrow> packet_view \<Rightarrow> capture_state \<Rightarrow> bool" where
  "fragment_step s view s1 \<longleftrightarrow> view \<noteq> VIEW_UNREADABLE \<and> (\<forall>q. view = VIEW_DATAGRAM q \<longrightarrow> packet_ok q) \<and>
     frags_ok (cs_frags s1) \<and> frag_same (cs_frags s) (cs_frags s1) \<and>
     core_counters (cs_stats s1) = core_counters (cs_stats s) \<and>
     (\<exists>t st. s1 = s\<lparr>cs_frags := t, cs_stats := st\<rparr>)"

lemma fragment_ok:
  assumes E: "env_ok E" and t: "frags_ok (cs_frags s)" and p: "frag_input p"
  shows "\<exists>view s1. capture_fragment E fr p s = Some (view, s1) \<and> fragment_step s view s1"
proof (cases "is_ipv4_fragment p")
  case True
  have al: "allocator_ok (ce_alloc E)" using E by (simp add: env_ok_def)
  obtain ans t1 st where pr: "ipv4_fragment_table_process (ce_alloc E) (cs_frags s) p (packet_time fr) (cs_stats s) =
      Some (ans, t1, st)" "frags_ok t1" "frag_same (cs_frags s) t1" "frag_whole ans"
    using frag_process_step [OF al _ p, of "cs_frags s" "[]" "[]" long_key "packet_time fr" "cs_stats s"] t never_long_key
    unfolding frags_ok_def by blast
  let ?s1 = "s\<lparr>cs_frags := t1, cs_stats := st\<rparr>"
  have step: "fragment_step s view ?s1" if "view \<noteq> VIEW_UNREADABLE" "\<forall>q. view = VIEW_DATAGRAM q \<longrightarrow> packet_ok q" for view
    using that pr frag_process_core [OF pr(1)] by (auto simp: fragment_step_def)
  show ?thesis
  proof (cases "fp_result ans = FRAG_REASSEMBLED")
    case False
    then show ?thesis using True pr(1) step [of VIEW_WIRE] by (auto simp: capture_fragment_def)
  next
    case re: True
    then obtain d where d: "fp_packet ans = Some d" "fp_packet_length ans = length d"
      using pr(4) by (auto simp: frag_whole_def)
    obtain q where "parser_parse_packet_with_datalink (ce_platform E) (decode_limit E) (Some d) (length d) (dlt_raw (ce_platform E))
        = Some (0, q)" "packet_ok (set_packet_timestamp q fr)"
      using parse_frame [OF E order.refl] by blast
    then show ?thesis
      using True pr(1) re d step [of "VIEW_DATAGRAM (set_packet_timestamp q fr)"] by (auto simp: capture_fragment_def Let_def)
  qed
next
  case False
  have "fragment_step s VIEW_WIRE s"
    using t by (auto simp: fragment_step_def frag_same_def intro!: exI [of _ "cs_frags s"] exI [of _ "cs_stats s"])
  then show ?thesis using False by (auto simp: capture_fragment_def)
qed

section \<open>Decoding, filtering, displaying\<close>

lemma classify_flow_ok:
  assumes t: "flows_ok E t" "view_ok t v" "fv_flow v \<noteq> None \<longrightarrow> reassemble (ce_config E)" and a: "app_info_ok a"
  shows "\<exists>v1 t1. classify_flow a v t = Some (v1, t1) \<and> flows_ok E t1 \<and> flow_same t t1 \<and> view_ok t1 v1 \<and>
    fv_flow v1 = fv_flow v \<and> fv_filter_app v1 = fv_filter_app v"
proof (cases "fv_flow v")
  case None
  then show ?thesis using t by (simp add: classify_flow_def flow_same_def)
next
  case (Some i)
  then have i: "i < length (fl_flows t)" "reassemble (ce_config E)" using t by (auto simp: view_ok_def)
  note f = flow_at [OF t(1) i(2,1)]
  let ?g = "flow_release_reassembly_buffers ((fl_flows t ! i)\<lparr>fi_app := a, fi_app_decode_status := STATUS_DECODED,
      fi_app_classified := True\<rparr>)"
  have "flow_ok (fl_stream_buffer_bytes t) ?g" "fi_key ?g = fi_key (fl_flows t ! i)" "app_info_ok (fi_app ?g)"
    using f a by (simp_all add: release_flow)
  from put_flow_flows [OF t(1) i(2,1) this] obtain t1 where
    "put_flow i ?g t = Some t1" "fl_flows t1 = (fl_flows t)[i := ?g]" "flows_ok E t1" "flow_same t t1" by blast
  then show ?thesis using Some i t a
    by (auto simp: classify_flow_def mem_simps view_ok_def flow_same_def)
qed

lemma packet_app_decoded: "packet_window p \<Longrightarrow> decoded (app_decode_packet p)"
  using app_decode_packet_decoded [of p] app_info_zero_ok
  by (cases "payload p") (auto simp: packet_window_def app_decode_packet_def)

lemma adopt_status: "\<exists>st. adopt_flow_status v p = p\<lparr>app_decode_status := st\<rparr>"
  by (auto simp: adopt_flow_status_def intro: exI [of _ "app_decode_status p"])

lemma capture_decode_ok:
  assumes t: "flows_ok E t" "view_ok t v" "fv_flow v \<noteq> None \<longrightarrow> reassemble (ce_config E)" and p: "packet_ok p"
  shows "\<exists>q pa v1 t1. capture_decode E p v t = Some (q, pa, v1, t1) \<and> packet_ok q \<and> (\<forall>a. pa = Some a \<longrightarrow> app_info_ok a) \<and>
    flows_ok E t1 \<and> flow_same t t1 \<and> view_ok t1 v1 \<and> fv_flow v1 = fv_flow v"
proof (cases "decode_app (ce_config E)")
  case True
  obtain r a where d: "app_decode_packet p = Some (r, a)" "app_info_ok a"
    using decodedD [OF packet_app_decoded [of p]] p unfolding packet_ok_def by blast
  let ?v = "v\<lparr>fv_source := ''packet''\<rparr>"
  have v: "view_ok t ?v" "fv_flow ?v \<noteq> None \<longrightarrow> reassemble (ce_config E)" using t by (simp_all add: view_ok_def)
  obtain v1 t1 where c: "classify_flow a ?v t = Some (v1, t1)" "flows_ok E t1" "flow_same t t1" "view_ok t1 v1"
    "fv_flow v1 = fv_flow v"
    using classify_flow_ok [OF t(1) v d(2)] by auto
  have q: "packet_ok (adopt_flow_status w (p\<lparr>app := a, app_decode_status := st\<rparr>))" for w st
    using adopt_status [of w "p\<lparr>app := a, app_decode_status := st\<rparr>"] p by auto
  show ?thesis using True d c t q by (auto simp: capture_decode_def Let_def flow_same_def)
next
  case False
  have "packet_ok (adopt_flow_status v (p\<lparr>app_decode_status := STATUS_NOT_RUN\<rparr>))"
    using adopt_status [of v "p\<lparr>app_decode_status := STATUS_NOT_RUN\<rparr>"] p by auto
  then show ?thesis using False t by (simp add: capture_decode_def flow_same_def)
qed

lemma announce_ok:
  assumes t: "flows_ok E t" "view_ok t v" "fv_flow v \<noteq> None \<longrightarrow> reassemble (ce_config E)"
  shows "\<exists>out t1. announce_flow E v t = Some (out, t1) \<and> flows_ok E t1 \<and> flow_same t t1 \<and>
    (json_output (ce_config E) \<longrightarrow> out = [])"
proof (cases "fv_flow v")
  case None
  then show ?thesis using t by (simp add: announce_flow_def flow_same_def)
next
  case (Some i)
  then have i: "i < length (fl_flows t)" "reassemble (ce_config E)" using t by (auto simp: view_ok_def)
  note f = flow_at [OF t(1) i(2,1)]
  let ?f = "fl_flows t ! i"
  obtain out where out: "output_print_flow_app_event (ce_platform E) (Some ?f) = Some out"
    using written_flow_event [of ?f] f by (auto simp: flow_ok_def dest: writtenD)
  from put_flow_flows [OF t(1) i(2,1), of "?f\<lparr>fi_app_event_printed := True\<rparr>"] f obtain t1 where
    "put_flow i (?f\<lparr>fi_app_event_printed := True\<rparr>) t = Some t1" "flows_ok E t1" "flow_same t t1" by auto
  then show ?thesis using Some i t out by (auto simp: announce_flow_def mem_simps flow_same_def)
qed



text \<open>What is known of a displayed packet: its number, that the filters accept it, and what JSON output says.\<close>

definition shown_ok :: "capture_env \<Rightarrow> u32 \<Rightarrow> shown_packet \<Rightarrow> bool" where
  "shown_ok E n x \<longleftrightarrow> packet_ok (sh_packet x) \<and> (\<forall>a. sh_app x = Some a \<longrightarrow> app_info_ok a) \<and>
     packet_number (sh_packet x) = n \<and> accepted (ce_idna E) (ce_config E) (sh_context x) (sh_packet x)"

definition shown_json :: "app_config \<Rightarrow> shown_packet \<Rightarrow> json" where
  "shown_json cfg x = packet_json (sh_packet x) (sh_app x) (Some (sh_source x))
     (payload_display_enabled cfg) (payload_preview_bytes cfg)"

definition json_text :: "app_config \<Rightarrow> shown_packet \<Rightarrow> bytes" where
  "json_text cfg x = render (shown_json cfg x) @ [10]"

definition state_ok :: "capture_env \<Rightarrow> capture_state \<Rightarrow> bool" where
  "state_ok E s \<longleftrightarrow> frags_ok (cs_frags s) \<and> flows_ok E (cs_flows s)"

text \<open>Nothing is left allocated and no log is open.\<close>

definition released :: "capture_state \<Rightarrow> bool" where
  "released s \<longleftrightarrow> cs_frags s = frag_table_zero \<and> cs_flows s = flow_table_zero \<and> \<not> log_file (cs_log s)"

lemma log_close: "\<not> log_file (snd (csv_logger_close b l))"
  by (simp add: csv_logger_close_def)

lemma abort_frame [simp]:
  "cs_captured (capture_abort E s) = cs_captured s" "cs_shown (capture_abort E s) = cs_shown s"
  "cs_stdout (capture_abort E s) = cs_stdout s"
  by (simp_all add: capture_abort_def)

lemma abort_released: "released (capture_abort E s)"
  using log_close by (simp add: released_def capture_abort_def ipv4_fragment_table_cleanup_def flow_table_cleanup_def)

text \<open>The outcome of a packet that is displayed, and of one that is not.\<close>

definition displayed :: "capture_env \<Rightarrow> capture_state \<Rightarrow> step_outcome \<Rightarrow> capture_state \<Rightarrow> bool" where
  "displayed E s outcome s' \<longleftrightarrow> cs_captured s' = cs_captured s + 1 \<and>
     (\<exists>x. cs_shown s' = cs_shown s @ [x] \<and> shown_ok E (cs_captured s + 1) x \<and>
       (json_output (ce_config E) \<longrightarrow> cs_stdout s' = cs_stdout s @ json_text (ce_config E) x)) \<and>
     (outcome = STEP_NEXT \<and> state_ok E s' \<and> (\<exists>info. cs_stats s' = stats_update (cs_stats s) info) \<or>
      outcome = STEP_FAIL \<and> released s')"

definition tables_same :: "capture_state \<Rightarrow> capture_state \<Rightarrow> bool" where
  "tables_same s s' \<longleftrightarrow> cs_stop s' = cs_stop s \<and> frag_same (cs_frags s) (cs_frags s') \<and> flow_same (cs_flows s) (cs_flows s')"

definition skipped :: "capture_env \<Rightarrow> capture_state \<Rightarrow> step_outcome \<Rightarrow> capture_state \<Rightarrow> bool" where
  "skipped E s outcome s' \<longleftrightarrow> cs_captured s' = cs_captured s \<and> cs_shown s' = cs_shown s \<and> cs_stdout s' = cs_stdout s \<and>
     outcome = STEP_NEXT \<and> state_ok E s' \<and> cs_stats s' = stats_record_filtered_out (cs_stats s)"

lemma printed_packet:
  assumes "packet_ok p" "\<forall>a. pa = Some a \<longrightarrow> app_info_ok a" "\<forall>a. ap = Some a \<longrightarrow> app_info_ok a"
  shows "\<exists>out. print_packet cfg p pa ap source = Some out \<and>
    (json_output cfg \<longrightarrow> out = render (packet_json p ap (Some source) (payload_display_enabled cfg) (payload_preview_bytes cfg)) @ [10])"
proof (cases "json_output cfg")
  case True
  then show ?thesis using assms packet_line_text by (simp add: print_packet_def packet_ok_def)
next
  case False
  have "written (print_packet cfg p pa ap source)"
    using False assms by (simp add: print_packet_def writes packet_ok_def del: cat.simps)
  then show ?thesis using False by (auto dest: writtenD)
qed

lemma accepted_number:
  "accepted idn cfg \<lparr>fc_packet = x, fc_packet_app = pa, fc_flow_app = fa, fc_flow_is_classified = b\<rparr> (p\<lparr>packet_number := n\<rparr>) =
   accepted idn cfg \<lparr>fc_packet = y, fc_packet_app = pa, fc_flow_app = fa, fc_flow_is_classified = b\<rparr> p"
  by (simp add: accepted_def contains_def)

lemma display_packet_ok:
  assumes E: "env_ok E" and s: "state_ok E s"
    and v: "view_ok (cs_flows s) v" "fv_flow v \<noteq> None \<longrightarrow> reassemble (ce_config E)"
    and p: "packet_ok p" and pa: "\<forall>a. pa = Some a \<longrightarrow> app_info_ok a"
    and acc: "\<And>c. c = \<lparr>fc_packet = Some p, fc_packet_app = pa, fc_flow_app = fv_filter_app v,
       fc_flow_is_classified = fv_was_classified v\<rparr> \<Longrightarrow> accepted (ce_idna E) (ce_config E) c p"
  shows "\<exists>outcome s'. display_packet E fr info p pa v s = Some (outcome, s') \<and> displayed E s outcome s' \<and>
    (outcome = STEP_NEXT \<longrightarrow> tables_same s s')"
proof -
  define p1 where "p1 = p\<lparr>packet_number := cs_captured s + 1\<rparr>"
  define ap where "ap = (case pa of Some a \<Rightarrow> Some a | None \<Rightarrow> fv_app v)"
  define x where "x = \<lparr>sh_packet = p1, sh_app = ap, sh_source = fv_source v, sh_context =
      \<lparr>fc_packet = Some p1, fc_packet_app = pa, fc_flow_app = fv_filter_app v, fc_flow_is_classified = fv_was_classified v\<rparr>\<rparr>"
  have ap: "\<forall>a. ap = Some a \<longrightarrow> app_info_ok a" using pa v(1) by (auto simp: ap_def view_ok_def split: option.splits)
  have p1: "packet_ok p1" using p by (simp add: p1_def)
  obtain event t1 where ev: "announce_flow E v (cs_flows s) = Some (event, t1)" "flows_ok E t1" "flow_same (cs_flows s) t1"
    "json_output (ce_config E) \<longrightarrow> event = []"
    using announce_ok [OF _ v] s unfolding state_ok_def by blast
  obtain out where out: "print_packet (ce_config E) p1 pa ap (fv_source v) = Some out"
    "json_output (ce_config E) \<longrightarrow> out = json_text (ce_config E) x"
    using printed_packet [OF p1 pa ap, of "ce_config E" "fv_source v"] by (auto simp: json_text_def shown_json_def x_def)
  obtain r l where wr: "csv_logger_write_packet (fr_log_error fr) (fr_log_flushed fr) (cs_log s) (Some p1) ap
      (Some (fv_source v)) = Some (r, l)"
    using log_written [OF _ _ ap] p1 unfolding packet_ok_def by blast
  have x: "shown_ok E (cs_captured s + 1) x"
    using p1 ap acc [OF refl] accepted_number [where y = "Some p"] by (simp add: shown_ok_def x_def p1_def)
  show ?thesis
    using s ev out wr x
    by (auto simp: display_packet_def Let_def p1_def [symmetric] ap_def [symmetric] x_def [symmetric] displayed_def tables_same_def
        state_ok_def abort_released abort_frame frag_same_def)
qed

lemma capture_effective_ok:
  assumes E: "env_ok E" and s: "state_ok E s" and info: "packet_ok info"
    and view: "\<forall>q. view = VIEW_DATAGRAM q \<longrightarrow> packet_ok q"
  shows "\<exists>outcome s'. capture_effective E fr info view s = Some (outcome, s') \<and>
    (displayed E s outcome s' \<or> skipped E s outcome s') \<and> (outcome = STEP_NEXT \<longrightarrow> tables_same s s')"
proof -
  define p where "p = (case view of VIEW_DATAGRAM p \<Rightarrow> p | _ \<Rightarrow> info)"
  have p: "packet_ok p" using info view by (simp add: p_def split: packet_view.split)
  obtain v0 t0 where fl: "capture_flow E p (packet_time fr) (cs_flows s) = Some (v0, t0)" "flows_ok E t0"
    "flow_same (cs_flows s) t0" "view_ok t0 v0" "fv_flow v0 \<noteq> None \<longrightarrow> reassemble (ce_config E)"
    using capture_flow_ok [OF E, of "cs_flows s" p "packet_time fr"] s p unfolding state_ok_def packet_ok_def by blast
  obtain q pa v t where de: "capture_decode E p v0 t0 = Some (q, pa, v, t)" "packet_ok q" "\<forall>a. pa = Some a \<longrightarrow> app_info_ok a"
    "flows_ok E t" "flow_same t0 t" "view_ok t v" "fv_flow v = fv_flow v0"
    using capture_decode_ok [OF fl(2,4,5) p] by blast
  define s1 where "s1 = s\<lparr>cs_flows := t\<rparr>"
  define c where "c = \<lparr>fc_packet = Some q, fc_packet_app = pa, fc_flow_app = fv_filter_app v, fc_flow_is_classified = fv_was_classified v\<rparr>"
  have s1: "state_ok E s1" "tables_same s s1"
    using s de(4,5) fl(3) by (auto simp: s1_def state_ok_def tables_same_def frag_same_def flow_same_def)
  have st: "cs_stats s1 = cs_stats s" by (simp add: s1_def)
  have "filter_context_ok c"
    using de(2,3,6) by (auto simp: filter_context_ok_def c_def packet_ok_def packet_window_def view_ok_def)
  then have m: "filters_match (ce_idna E) (Some (ce_config E)) (Some c) = Some (accepted (ce_idna E) (ce_config E) c q)"
    using E by (intro filters_decide) (simp_all add: env_ok_def c_def)
  note def = capture_effective_def p_def [symmetric] fl(1) de(1) s1_def [symmetric] c_def [symmetric] Let_def m
  show ?thesis
  proof (cases "accepted (ce_idna E) (ce_config E) c q")
    case False
    let ?s' = "s1\<lparr>cs_stats := stats_record_filtered_out (cs_stats s1)\<rparr>"
    have "capture_effective E fr info view s = Some (STEP_NEXT, ?s')" using False st by (simp add: def)
    moreover have "skipped E s STEP_NEXT ?s'" "tables_same s ?s'"
      using s1 by (simp_all add: skipped_def state_ok_def tables_same_def s1_def)
    ultimately show ?thesis by blast
  next
    case True
    have vw: "view_ok (cs_flows s1) v" "fv_flow v \<noteq> None \<longrightarrow> reassemble (ce_config E)"
      using de(6,7) fl(5) by (simp_all add: s1_def)
    from display_packet_ok [OF E s1(1) vw de(2,3), of fr] True obtain outcome s' where
      "display_packet E fr (case view of VIEW_DATAGRAM _ \<Rightarrow> info\<lparr>app_decode_status := app_decode_status q\<rparr> | _ \<Rightarrow> q) q pa v s1 =
         Some (outcome, s')" "displayed E s1 outcome s'" "outcome = STEP_NEXT \<longrightarrow> tables_same s1 s'"
      unfolding c_def by blast
    moreover from this have "displayed E s outcome s'" "outcome = STEP_NEXT \<longrightarrow> tables_same s s'"
      using s1(2) by (auto simp: displayed_def s1_def tables_same_def frag_same_def flow_same_def)
    ultimately show ?thesis using True by (simp add: def)
  qed
qed



section \<open>The run\<close>

text \<open>What a run keeps: of the displayed packets (\<open>out0\<close> is what was printed before), of the counters, of the tables.\<close>

definition shown_inv :: "capture_env \<Rightarrow> bytes \<Rightarrow> capture_state \<Rightarrow> bool" where
  "shown_inv E out0 s \<longleftrightarrow> cs_captured s = of_nat (length (cs_shown s)) \<and>
     (\<forall>i < length (cs_shown s). shown_ok E (of_nat (Suc i)) (cs_shown s ! i)) \<and>
     (0 < max_packets (ce_config E) \<longrightarrow> int (length (cs_shown s)) \<le> max_packets (ce_config E)) \<and>
     (json_output (ce_config E) \<longrightarrow> cs_stdout s = out0 @ concat (map (json_text (ce_config E)) (cs_shown s)))"

definition count_inv :: "capture_state \<Rightarrow> bool" where
  "count_inv s \<longleftrightarrow> total_packets (cs_stats s) = of_nat (length (cs_shown s)) \<and>
     raw_packets_seen (cs_stats s) = total_packets (cs_stats s) + packets_filtered_out (cs_stats s) \<and>
     parse_failures (cs_stats s) = 0 \<and> protocols_balanced (cs_stats s)"

definition table_inv :: "capture_env \<Rightarrow> capture_state \<Rightarrow> bool" where
  "table_inv E s \<longleftrightarrow> state_ok E s \<and> ft_max_bytes (cs_frags s) = ipv4_fragment_max_bytes (ce_config E) \<and>
     ft_max_datagrams (cs_frags s) = ipv4_fragment_max_datagrams (ce_config E) \<and>
     (reassemble (ce_config E) \<longrightarrow> fl_max_flows (cs_flows s) = cfg_max_flows (ce_config E))"

definition run_ok :: "capture_env \<Rightarrow> bytes \<Rightarrow> capture_state \<Rightarrow> bool" where
  "run_ok E out0 s \<longleftrightarrow> shown_inv E out0 s \<and> count_inv s \<and> table_inv E s"

definition run_failed :: "capture_env \<Rightarrow> bytes \<Rightarrow> capture_state \<Rightarrow> bool" where
  "run_failed E out0 s \<longleftrightarrow> shown_inv E out0 s \<and> released s"

definition count_ok :: "app_config \<Rightarrow> bool" where
  "count_ok cfg \<longleftrightarrow> 0 \<le> max_packets cfg \<and> max_packets cfg < 2 ^ 31"

text \<open>The half of the loop condition that stays true while \<open>pcap_next_ex\<close> waits; SIGINT can take away the other.\<close>

definition has_room :: "capture_env \<Rightarrow> capture_state \<Rightarrow> bool" where
  "has_room E s \<longleftrightarrow> max_packets (ce_config E) = 0 \<or> cs_captured s < of_int (max_packets (ce_config E))"

lemma keep_going_room: "keep_going E s \<longleftrightarrow> \<not> cs_stop s \<and> has_room E s"
  by (simp add: keep_going_def has_room_def)

lemma count_room:
  assumes "count_ok (ce_config E)" "shown_inv E out0 s" "has_room E s" "0 < max_packets (ce_config E)"
  shows "int (length (cs_shown s)) < max_packets (ce_config E)"
proof -
  let ?n = "length (cs_shown s)" and ?m = "max_packets (ce_config E)"
  have n: "int ?n \<le> ?m" "?m < 2 ^ 31" "cs_captured s = of_nat ?n" "cs_captured s < of_int ?m"
    using assms by (auto simp: count_ok_def shown_inv_def has_room_def)
  have "of_int ?m = (of_nat (nat ?m) :: u32)" using assms(4) by simp
  then have "(of_nat ?n :: u32) < of_nat (nat ?m)" using n(3,4) by simp
  moreover have "?n < 2 ^ 32" "nat ?m < 2 ^ 32" using n assms(4) by simp_all
  ultimately have "?n < nat ?m" by (simp add: word_less_nat_alt unat_of_nat)
  then show ?thesis by simp
qed

lemma displayed_inv:
  assumes "count_ok (ce_config E)" "has_room E s" "shown_inv E out0 s" "displayed E s outcome s'"
  shows "shown_inv E out0 s'"
proof -
  obtain x where x: "cs_shown s' = cs_shown s @ [x]" "shown_ok E (cs_captured s + 1) x"
    "json_output (ce_config E) \<longrightarrow> cs_stdout s' = cs_stdout s @ json_text (ce_config E) x"
    "cs_captured s' = cs_captured s + 1"
    using assms(4) by (auto simp: displayed_def)
  have n: "int (length (cs_shown s)) < max_packets (ce_config E)" if "0 < max_packets (ce_config E)"
    using count_room [OF assms(1,3,2) that] .
  show ?thesis
    using assms(3) x n by (auto simp: shown_inv_def nth_append less_Suc_eq add.commute)
qed

text \<open>The counters of one packet.\<close>

lemma core_fields:
  "core_counters a = core_counters b \<Longrightarrow> raw_packets_seen a = raw_packets_seen b \<and>
     packets_filtered_out a = packets_filtered_out b \<and> parse_failures a = parse_failures b \<and>
     total_packets a = total_packets b \<and> protocols_balanced a = protocols_balanced b"
  by (simp add: core_counters_def protocols_balanced_def)

lemma capture_packet_ok:
  assumes E: "env_ok E" "count_ok (ce_config E)" and fr: "frame_ok fr" and s: "run_ok E out0 s" "has_room E s"
  shows "\<exists>outcome s'. capture_packet E fr s = Some (outcome, s') \<and>
    (outcome = STEP_NEXT \<and> run_ok E out0 s' \<and> cs_stop s' = cs_stop s \<or> outcome = STEP_FAIL \<and> run_failed E out0 s')"
proof -
  define s0 where "s0 = s\<lparr>cs_stats := stats_record_raw_packet (cs_stats s)\<rparr>"
  obtain p where p: "parser_parse_packet_with_datalink (ce_platform E) (decode_limit E) (Some (fr_bytes fr)) (fr_caplen fr)
      (ce_datalink E) = Some (0, p)" "packet_ok (set_packet_timestamp p fr)" "frag_input (set_packet_timestamp p fr)"
    using parse_frame [OF E(1), of "fr_caplen fr" "fr_bytes fr" "decode_limit E" "ce_datalink E" fr] fr
    unfolding frame_ok_def timestamp_frag_input by blast
  have ok: "state_ok E s" using s by (simp add: run_ok_def table_inv_def)
  then have "frags_ok (cs_frags s0)" by (simp add: s0_def state_ok_def)
  from fragment_ok [OF E(1) this p(3)] obtain view s1 where f: "capture_fragment E fr (set_packet_timestamp p fr) s0 = Some (view, s1)"
    "fragment_step s0 view s1" by blast
  have s1: "state_ok E s1" "tables_same s s1" "cs_captured s1 = cs_captured s" "cs_shown s1 = cs_shown s"
    "cs_stdout s1 = cs_stdout s" "core_counters (cs_stats s1) = core_counters (cs_stats s0)" "view \<noteq> VIEW_UNREADABLE"
    "\<forall>q. view = VIEW_DATAGRAM q \<longrightarrow> packet_ok q"
    using f(2) ok by (auto simp: fragment_step_def s0_def state_ok_def tables_same_def flow_same_def)
  obtain outcome s' where e: "capture_effective E fr (set_packet_timestamp p fr) view s1 = Some (outcome, s')"
    "displayed E s1 outcome s' \<or> skipped E s1 outcome s'" "outcome = STEP_NEXT \<longrightarrow> tables_same s1 s'"
    using capture_effective_ok [OF E(1) s1(1) p(2) s1(8)] by blast
  have run: "capture_packet E fr s = Some (outcome, s')"
    using p(1) f(1) e(1) s1(7) by (simp add: capture_packet_def Let_def s0_def [symmetric])
  have inv1: "shown_inv E out0 s1" "has_room E s1"
    using s s1 by (simp_all add: run_ok_def shown_inv_def has_room_def tables_same_def)
  have inv: "shown_inv E out0 s'"
    using e(2) displayed_inv [OF E(2) inv1(2,1)] inv1(1) by (auto simp: skipped_def shown_inv_def)
  have tab: "table_inv E s'" if "outcome = STEP_NEXT" "state_ok E s'"
    using that e(3) s1(2) s by (auto simp: table_inv_def tables_same_def frag_same_def flow_same_def run_ok_def)
  have cnt: "raw_packets_seen (cs_stats s1) = total_packets (cs_stats s1) + packets_filtered_out (cs_stats s1) + 1"
    "total_packets (cs_stats s1) = of_nat (length (cs_shown s1))" "parse_failures (cs_stats s1) = 0" "protocols_balanced (cs_stats s1)"
    using s(1) core_fields [OF s1(6)] s1(4)
    by (auto simp: run_ok_def count_inv_def s0_def stats_record_raw_packet_def protocols_balanced_def)
  have stop: "cs_stop s' = cs_stop s" if "outcome = STEP_NEXT"
    using that e(3) s1(2) by (simp add: tables_same_def)
  from e(2) show ?thesis
  proof
    assume d: "displayed E s1 outcome s'"
    show ?thesis
    proof (cases "outcome = STEP_NEXT")
      case True
      then have n: "state_ok E s'" "\<exists>info. cs_stats s' = stats_update (cs_stats s1) info"
        "length (cs_shown s') = Suc (length (cs_shown s1))" using d by (auto simp: displayed_def)
      then have "count_inv s'" using cnt by (auto simp: count_inv_def stats_update_balanced)
      then show ?thesis using run inv tab [OF True n(1)] True stop by (simp add: run_ok_def)
    next
      case False
      then show ?thesis using d run inv by (auto simp: displayed_def run_failed_def)
    qed
  next
    assume k: "skipped E s1 outcome s'"
    then have "outcome = STEP_NEXT" "state_ok E s'" "count_inv s'"
      using cnt by (auto simp: skipped_def count_inv_def stats_record_filtered_out_def protocols_balanced_def)
    then show ?thesis using run inv tab stop by (simp add: run_ok_def)
  qed
qed

definition event_ok :: "capture_event \<Rightarrow> bool" where
  "event_ok ev \<longleftrightarrow> (\<forall>fr. ev = EV_PACKET fr \<longrightarrow> frame_ok fr)"

definition step_ended :: "capture_env \<Rightarrow> bytes \<Rightarrow> step_outcome \<Rightarrow> capture_state \<Rightarrow> bool" where
  "step_ended E out0 outcome s \<longleftrightarrow> (if outcome = STEP_FAIL then run_failed E out0 s else run_ok E out0 s)"

lemma capture_step_ok:
  assumes E: "env_ok E" "count_ok (ce_config E)" and ev: "event_ok (EV_RETURN x)" and s: "run_ok E out0 s" "has_room E s"
  shows "\<exists>outcome s'. capture_step E x s = Some (outcome, s') \<and> step_ended E out0 outcome s' \<and>
    (outcome = STEP_NEXT \<longrightarrow> cs_stop s' = cs_stop s \<and> x \<notin> {NEXT_EOF, NEXT_ERROR})"
proof (cases x)
  case (NEXT_PACKET fr)
  then have "frame_ok fr" using ev by (simp add: event_ok_def)
  from capture_packet_ok [OF E this s] NEXT_PACKET show ?thesis by (auto simp: capture_step_def step_ended_def)
next
  case NEXT_ERROR
  then show ?thesis using s
    by (simp add: capture_step_def step_ended_def run_failed_def run_ok_def shown_inv_def abort_released)
qed (use s in \<open>simp_all add: capture_step_def step_ended_def\<close>)

definition loop_ended :: "capture_env \<Rightarrow> bytes \<Rightarrow> loop_outcome \<Rightarrow> capture_state \<Rightarrow> bool" where
  "loop_ended E out0 outcome s \<longleftrightarrow> (if outcome = LOOP_FAILED then run_failed E out0 s else run_ok E out0 s)"

text \<open>What ends a run: the end of a savefile, an error, or a return of \<open>pcap_next_ex\<close> after a SIGINT.\<close>

definition run_over :: "capture_event list \<Rightarrow> bool" where
  "run_over evs \<longleftrightarrow> EV_EOF \<in> set evs \<or> EV_ERROR \<in> set evs \<or>
     (\<exists>before x after. evs = before @ EV_SIGNAL # after \<and> EV_RETURN x \<in> set after)"

lemma run_over_simps [simp]:
  "\<not> run_over []"
  "run_over (EV_SIGNAL # evs) \<longleftrightarrow> (\<exists>x. EV_RETURN x \<in> set evs)"
  "run_over (EV_RETURN x # evs) \<longleftrightarrow> x = NEXT_EOF \<or> x = NEXT_ERROR \<or> run_over evs"
  by (auto simp: run_over_def Cons_eq_append_conv)

lemma stopped_state [simp]:
  "run_ok E out0 (s\<lparr>cs_stop := b\<rparr>) = run_ok E out0 s" "has_room E (s\<lparr>cs_stop := b\<rparr>) = has_room E s"
  by (simp_all add: run_ok_def shown_inv_def count_inv_def table_inv_def state_ok_def has_room_def)

lemma capture_wait_ok:
  assumes E: "env_ok E" "count_ok (ce_config E)"
  shows "\<forall>ev \<in> set evs. event_ok ev \<Longrightarrow> run_ok E out0 s \<Longrightarrow> has_room E s \<Longrightarrow>
    \<exists>outcome s'. capture_wait E s evs = Some (outcome, s') \<and> loop_ended E out0 outcome s' \<and>
      (outcome = LOOP_WAITING \<longrightarrow> has_room E s' \<and> \<not> run_over evs \<and> (cs_stop s \<longrightarrow> (\<forall>x. EV_RETURN x \<notin> set evs)))"
proof (induction evs arbitrary: s)
  case Nil
  then show ?case by (simp add: loop_ended_def)
next
  case (Cons ev evs)
  have evs: "\<forall>ev \<in> set evs. event_ok ev" using Cons.prems(1) by simp
  show ?case
  proof (cases ev)
    case EV_SIGNAL
    from Cons.IH [OF evs, of "s\<lparr>cs_stop := True\<rparr>"] show ?thesis using Cons.prems EV_SIGNAL by auto
  next
    case (EV_RETURN x)
    have "event_ok (EV_RETURN x)" using Cons.prems(1) EV_RETURN by simp
    from capture_step_ok [OF E this Cons.prems(2,3)] obtain outcome s1 where
      st: "capture_step E x s = Some (outcome, s1)" "step_ended E out0 outcome s1"
      "outcome = STEP_NEXT \<longrightarrow> cs_stop s1 = cs_stop s \<and> x \<notin> {NEXT_EOF, NEXT_ERROR}" by blast
    show ?thesis
    proof (cases "outcome = STEP_NEXT \<and> keep_going E s1")
      case True
      then have "run_ok E out0 s1" "has_room E s1" "\<not> cs_stop s" using st by (simp_all add: step_ended_def keep_going_room)
      with Cons.IH [OF evs, of s1] show ?thesis using st True EV_RETURN by auto
    next
      case False
      then show ?thesis using st EV_RETURN by (cases outcome) (simp_all add: loop_ended_def step_ended_def)
    qed
  qed
qed

lemma capture_loop_ok:
  assumes E: "env_ok E" "count_ok (ce_config E)" and s: "\<forall>ev \<in> set evs. event_ok ev" "run_ok E out0 s"
  shows "\<exists>outcome s'. capture_loop E s evs = Some (outcome, s') \<and> loop_ended E out0 outcome s' \<and>
      (outcome = LOOP_WAITING \<longrightarrow> has_room E s' \<and> \<not> run_over evs \<and> \<not> cs_stop s)"
proof (cases "keep_going E s")
  case True
  then show ?thesis using capture_wait_ok [OF E s] by (auto simp: capture_loop_def keep_going_room)
qed (use s in \<open>simp add: capture_loop_def loop_ended_def\<close>)

text \<open>A SIGINT alone does not end the wait.\<close>

lemma wait_signal:
  "capture_wait E s evs = Some (LOOP_WAITING, s') \<Longrightarrow>
     capture_wait E s (evs @ [EV_SIGNAL]) = Some (LOOP_WAITING, s'\<lparr>cs_stop := True\<rparr>)"
  by (induction E s evs rule: capture_wait.induct)
    (auto split: Option.bind_splits step_outcome.splits if_splits)

end
