(* ===== verification/Capture_Start.thy ===== *)
theory Capture_Start
  imports Capture_Run
begin

section \<open>Before and after the loop\<close>

text \<open>What \<open>capture_start\<close> relies on: strings of the configuration end in their arrays, and every interface that libpcap lists has a name.\<close>

definition config_texts_ok :: "app_config \<Rightarrow> bool" where
  "config_texts_ok cfg \<longleftrightarrow> 0 \<in> set (interface_name cfg) \<and> 0 \<in> set (read_path cfg) \<and> 0 \<in> set (write_path cfg) \<and>
     0 \<in> set (log_path cfg)"

definition answers_ok :: "capture_answers \<Rightarrow> bool" where
  "answers_ok A \<longleftrightarrow> (\<forall>ds. an_devices A = Some ds \<longrightarrow> (\<forall>d \<in> set ds. if_name d \<noteq> None))"

lemma interface_listed_defined: "\<forall>d \<in> set ds. if_name d \<noteq> None \<Longrightarrow> \<exists>b. interface_listed n ds = Some b"
  by (induction ds) auto

lemma default_device_string: "dst \<noteq> [] \<Longrightarrow> choose_default_device N dst found = (0, name) \<Longrightarrow> 0 \<in> set name"
  by (auto simp: choose_default_device_def copy_device_name_def split: option.splits if_splits)

lemma choose_code: "choose_default_device N dst found = (r, name) \<Longrightarrow> r = 0 \<or> r = 1"
  by (auto simp: choose_default_device_def copy_device_name_def split: option.splits if_splits)

lemma capture_source_ok:
  assumes "config_texts_ok (ce_config E)" "answers_ok A"
  shows "\<exists>src out. capture_source E A = Some (src, out) \<and> (json_output (ce_config E) \<longrightarrow> out = [])"
proof (cases "read_path_enabled (ce_config E)")
  case True
  then show ?thesis using assms(1) by (simp add: capture_source_def config_texts_ok_def c_str_terminated Let_def)
next
  case False
  let ?cfg = "ce_config E"
  obtain c where c: "rd (interface_name ?cfg) 0 = Some c" using assms(1) first_byte unfolding config_texts_ok_def by blast
  obtain r name where ch: "choose_default_device (net (ce_platform E)) (replicate 128 0) (an_devices A) = (r, name)" by fastforce
  have nm: "r = 0 \<Longrightarrow> c_str name = Some (cstr name)"
    using default_device_string [of "replicate 128 0"] ch by (auto simp: c_str_terminated)
  obtain b where b: "interface_exists (cstr (interface_name ?cfg)) (an_devices A) = Some b"
  proof (cases "an_devices A")
    case (Some ds)
    then show ?thesis
      using that interface_listed_defined [of ds "cstr (interface_name ?cfg)"] assms(2)
      by (auto simp: interface_exists_def answers_ok_def)
  qed (use that [of False] in \<open>simp add: interface_exists_def\<close>)
  have i: "c_str (interface_name ?cfg) = Some (cstr (interface_name ?cfg))"
    using assms(1) by (simp add: config_texts_ok_def c_str_terminated)
  show ?thesis
    using False c ch nm b i by (auto simp: capture_source_def Let_def)
qed

lemma install_bpf_ok:
  assumes "filter_config_ok cfg"
  shows "\<exists>e out. install_bpf_filter a b cfg = Some (e, out) \<and> (json_output cfg \<longrightarrow> out = [])"
proof -
  obtain buf where "build_bpf_filter_expression (Some cfg) (replicate 256 0) = Some (bpf_clauses cfg \<noteq> [], buf)" "0 \<in> set buf"
    using bpf_built [of cfg "replicate 256 0"] assms by (auto simp: filter_config_ok_def bpf_holds_def)
  then show ?thesis by (auto simp: install_bpf_filter_def c_str_terminated)
qed

lemma open_writer_ok: "0 \<in> set path \<Longrightarrow> \<exists>r w. open_pcap_writer A (Some path) = Some (r, w)"
  using first_byte [of path] by (auto simp: open_pcap_writer_def)

text \<open>A preparation step touches neither the counters nor what has been displayed.\<close>

definition untouched :: "capture_state \<Rightarrow> capture_state \<Rightarrow> bool" where
  "untouched s s' \<longleftrightarrow> cs_stop s' = cs_stop s \<and> cs_stats s' = cs_stats s \<and> cs_captured s' = cs_captured s \<and>
     cs_shown s' = cs_shown s \<and> cs_stdout s' = cs_stdout s"

lemma zero_tables_ok: "frags_ok frag_table_zero"
  by (simp add: frags_ok_def frag_table_ok_def frag_tracked_def frag_table_zero_def)

lemma failed_inits:
  "ipv4_fragment_table_init c frag_table_zero n m t = (False, t') \<Longrightarrow> t' = frag_table_zero"
  "flow_table_init c flow_table_zero k sb t = (False, u) \<Longrightarrow> u = flow_table_zero"
  by (auto simp: ipv4_fragment_table_init_def flow_table_init_def split: if_splits)

lemma prepare_tables_ok:
  assumes "cs_frags s = frag_table_zero" "cs_flows s = flow_table_zero" "prepare_tables E A s = (ok, s')"
  shows "untouched s s' \<and> cs_log s' = cs_log s" "ok \<Longrightarrow> table_inv E s'"
    "\<not> ok \<Longrightarrow> cs_frags s' = frag_table_zero \<and> cs_flows s' = flow_table_zero"
proof -
  let ?cfg = "ce_config E"
  obtain b t where fr: "ipv4_fragment_table_init (an_frag_calloc A) frag_table_zero (ipv4_fragment_max_datagrams ?cfg)
      (ipv4_fragment_max_bytes ?cfg) (ipv4_fragment_timeout_seconds ?cfg) = (b, t)" by fastforce
  obtain d u where fl: "(if reassemble ?cfg then flow_table_init (an_flow_calloc A) flow_table_zero (cfg_max_flows ?cfg)
      (stream_buffer_bytes ?cfg) (flow_timeout_seconds ?cfg) else (True, flow_table_zero)) = (d, u)" by fastforce
  have pt: "prepare_tables E A s = (if \<not> b then (False, s\<lparr>cs_frags := t\<rparr>)
     else if \<not> d then (False, s\<lparr>cs_flows := u, cs_frags := frag_table_zero\<rparr>)
     else (True, s\<lparr>cs_frags := t, cs_flows := u\<rparr>))"
    using assms(1,2) fr fl by (auto simp: prepare_tables_def Let_def ipv4_fragment_table_cleanup_def)
  show "untouched s s' \<and> cs_log s' = cs_log s"
    using assms(3) unfolding pt by (auto simp: untouched_def split: if_splits)
  have t: "b \<Longrightarrow> frags_ok t \<and> ft_max_bytes t = ipv4_fragment_max_bytes ?cfg \<and> ft_max_datagrams t = ipv4_fragment_max_datagrams ?cfg"
    using fr frag_init_ok by (auto simp: frags_ok_def)
  have "d \<Longrightarrow> flows_ok E u \<and> (reassemble ?cfg \<longrightarrow> fl_max_flows u = cfg_max_flows ?cfg)"
    using fl flow_init_ok [of "an_flow_calloc A" flow_table_zero "cfg_max_flows ?cfg" "stream_buffer_bytes ?cfg"
        "flow_timeout_seconds ?cfg" u]
    by (auto simp: flows_ok_def flow_table_zero_def split: if_splits)
  then show "ok \<Longrightarrow> table_inv E s'"
    using assms(3) t unfolding pt by (auto simp: table_inv_def state_ok_def split: if_splits)
  show "\<not> ok \<Longrightarrow> cs_frags s' = frag_table_zero \<and> cs_flows s' = flow_table_zero"
    using assms fr fl failed_inits unfolding pt by (auto split: if_splits)
qed

lemma log_open_failed: "csv_logger_open os l (Some path) ea ep lim m = (r, l') \<Longrightarrow> r \<noteq> 0 \<Longrightarrow> \<not> log_file l \<Longrightarrow> \<not> log_file l'"
  using log_close by (auto simp: csv_logger_open_def Let_def split: if_splits)

lemma prepare_log_ok:
  assumes "config_texts_ok (ce_config E)" "\<not> log_file (cs_log s)"
  shows "\<exists>ok s'. prepare_log E A s = Some (ok, s') \<and> untouched s s' \<and>
    (ok \<longrightarrow> cs_frags s' = cs_frags s \<and> cs_flows s' = cs_flows s) \<and> (\<not> ok \<longrightarrow> released s')"
proof (cases "logging_enabled (ce_config E)")
  case False
  then show ?thesis by (intro exI [of _ True]) (simp add: prepare_log_def untouched_def)
next
  case True
  let ?cfg = "ce_config E"
  obtain r l where o: "csv_logger_open (an_log_open A) (cs_log s) (Some (cstr (log_path ?cfg))) (decode_app ?cfg)
      (payload_display_enabled ?cfg) (payload_preview_bytes ?cfg) (log_flush_mode ?cfg) = (r, l)" by fastforce
  have p: "c_str (log_path ?cfg) = Some (cstr (log_path ?cfg))" using assms(1) by (simp add: config_texts_ok_def c_str_terminated)
  show ?thesis
  proof (cases "r = 0")
    case ok: True
    then show ?thesis using True o p by (intro exI [of _ True]) (simp add: prepare_log_def Let_def untouched_def)
  next
    case False
    then have "\<not> log_file l" using log_open_failed [OF o] assms(2) by simp
    then show ?thesis using True False o p
      by (intro exI [of _ False]) (simp add: prepare_log_def Let_def released_def untouched_def ipv4_fragment_table_cleanup_def flow_table_cleanup_def)
  qed
qed


text \<open>The state before a run: nothing is counted or displayed yet and no log is open.\<close>

definition fresh_state :: "capture_state \<Rightarrow> bool" where
  "fresh_state s \<longleftrightarrow> cs_stats s = packet_stats_zero \<and> cs_shown s = [] \<and> \<not> log_file (cs_log s)"

lemma count_zero: "cs_stats s = packet_stats_zero \<Longrightarrow> cs_shown s = [] \<Longrightarrow> count_inv s"
  by (simp add: count_inv_def packet_stats_zero_def protocols_balanced_def)

lemma shown_zero: "cs_shown s = [] \<Longrightarrow> cs_captured s = 0 \<Longrightarrow> json_output (ce_config E) \<longrightarrow> cs_stdout s = out0 \<Longrightarrow> shown_inv E out0 s"
  by (simp add: shown_inv_def)

definition prepared :: "capture_env \<Rightarrow> bytes \<Rightarrow> capture_env option \<Rightarrow> capture_state \<Rightarrow> bool" where
  "prepared E out0 ready s \<longleftrightarrow> shown_inv E out0 s \<and> count_inv s \<and>
     (case ready of None \<Rightarrow> released s
      | Some E1 \<Rightarrow> (\<exists>dl w. E1 = E\<lparr>ce_datalink := dl, ce_writing := w\<rparr>) \<and> table_inv E s)"

lemma capture_prepare_ok:
  assumes E: "env_ok E" "config_texts_ok (ce_config E)" and A: "answers_ok A" and s: "fresh_state s"
  shows "\<exists>ready s'. capture_prepare E A s = Some (ready, s') \<and> prepared E (cs_stdout s) ready s'"
proof -
  let ?cfg = "ce_config E"
  define s0 where "s0 = s\<lparr>cs_stop := False, cs_frags := frag_table_zero, cs_flows := flow_table_zero, cs_captured := 0\<rparr>"
  obtain src out where src: "capture_source E A = Some (src, out)" "json_output ?cfg \<longrightarrow> out = []"
    using capture_source_ok [OF E(2) A] by blast
  obtain e rep where bpf: "install_bpf_filter (an_compile_ok A) (an_setfilter_ok A) ?cfg = Some (e, rep)" "json_output ?cfg \<longrightarrow> rep = []"
    using install_bpf_ok [of ?cfg] E(1) unfolding env_ok_def by blast
  obtain f w where wr: "(if write_path_enabled ?cfg then open_pcap_writer A (Some (write_path ?cfg)) else Some (0, False)) = Some (f, w)"
    using open_writer_ok [of "write_path ?cfg" A] E(2) by (cases "write_path_enabled ?cfg") (auto simp: config_texts_ok_def)
  define s1 where "s1 = s0\<lparr>cs_stdout := cs_stdout s0 @ out\<rparr>"
  define hello where "hello = (\<lambda>d. if read_path_enabled ?cfg \<and> \<not> quiet ?cfg \<and> \<not> json_output ?cfg
     then asc ''Reading packets from pcap file: '' @ d @ [10] else [])"
  define s2 where "s2 = (\<lambda>d. s1\<lparr>cs_stdout := cs_stdout s1 @ hello d\<rparr>)"
  define s3 where "s3 = (\<lambda>d. (s2 d)\<lparr>cs_stdout := cs_stdout (s2 d) @ rep\<rparr>)"
  have early: "prepared E (cs_stdout s) None t" if "t \<in> {s0, s1, s2 d, s3 d}" for t d
    using that s src(2) bpf(2)
    by (auto simp: prepared_def shown_inv_def fresh_state_def released_def s0_def s1_def s2_def s3_def hello_def intro: count_zero)
  have after: "shown_inv E (cs_stdout s) t \<and> count_inv t" if "untouched (s3 d) t" for t d
    using that s src(2) bpf(2)
    by (auto simp: untouched_def shown_inv_def fresh_state_def s0_def s1_def s2_def s3_def hello_def intro: count_zero)
  have call: "capture_prepare E A s =
    (if \<not> an_sigaction_ok A then Some (None, s0)
     else case src of None \<Rightarrow> Some (None, s1)
     | Some device \<Rightarrow>
       if \<not> parser_supports_datalink (ce_platform E) (an_datalink A) then Some (None, s2 device)
       else if f \<noteq> 0 then Some (None, s3 device)
       else let (tables_ok, s4) = prepare_tables E A (s3 device) in
         if \<not> tables_ok then Some (None, s4)
         else do { (log_ok, s5) \<leftarrow> prepare_log E A s4;
           Some (if log_ok then Some (E\<lparr>ce_datalink := an_datalink A, ce_writing := w\<rparr>) else None, s5) })"
    unfolding capture_prepare_def Let_def s0_def [symmetric] src(1) bpf(1) wr bind.bind_lunit prod.case
      s1_def [symmetric] hello_def [symmetric] s2_def [symmetric] s3_def [symmetric]
    by (cases src) (simp_all add: s2_def s3_def hello_def s1_def)
  show ?thesis
  proof (cases "an_sigaction_ok A \<and> src \<noteq> None \<and> parser_supports_datalink (ce_platform E) (an_datalink A) \<and> f = 0")
    case False
    then show ?thesis using call early by (cases src) (auto split: if_splits)
  next
    case True
    then obtain d where d: "src = Some d" by auto
    obtain ok s4 where t: "prepare_tables E A (s3 d) = (ok, s4)" by fastforce
    have z: "cs_frags (s3 d) = frag_table_zero" "cs_flows (s3 d) = flow_table_zero" "\<not> log_file (cs_log (s3 d))"
      using s by (simp_all add: s3_def s2_def s1_def s0_def fresh_state_def)
    note tab = prepare_tables_ok [OF z(1,2) t]
    show ?thesis
    proof (cases ok)
      case False
      then show ?thesis using True d t call tab z(3) after [of d s4]
        by (simp add: prepared_def released_def)
    next
      case ok: True
      obtain lok s5 where l: "prepare_log E A s4 = Some (lok, s5)" "untouched s4 s5"
        "lok \<longrightarrow> cs_frags s5 = cs_frags s4 \<and> cs_flows s5 = cs_flows s4" "\<not> lok \<longrightarrow> released s5"
        using prepare_log_ok [OF E(2), of s4 A] tab(1) z(3) by auto
      have "untouched (s3 d) s5" using tab(1) l(2) by (simp add: untouched_def)
      then show ?thesis using True d t call ok l tab(2) after
        by (auto simp: prepared_def table_inv_def state_ok_def)
    qed
  qed
qed



section \<open>A whole run\<close>

lemma apply_core [simp]:
  "core_counters (stats_apply_flow_table st t) = core_counters st"
  "core_counters (stats_apply_ipv4_fragment_table st u) = core_counters st"
  "core_counters (stats_apply_pcap_drops st b x y z) = core_counters st"
  by (simp_all add: core_counters_def stats_apply_flow_table_def stats_apply_ipv4_fragment_table_def
      stats_apply_pcap_drops_def Let_def)

lemma count_inv_core: "count_inv s \<Longrightarrow> core_counters (cs_stats s') = core_counters (cs_stats s) \<Longrightarrow> cs_shown s' = cs_shown s \<Longrightarrow> count_inv s'"
  using core_fields [of "cs_stats s'" "cs_stats s"] by (simp add: count_inv_def)

lemma finish_frame:
  assumes "capture_finish E A s = (r, s')"
  shows "cs_captured s' = cs_captured s" "cs_shown s' = cs_shown s" "core_counters (cs_stats s') = core_counters (cs_stats s)"
    "json_output (ce_config E) \<longrightarrow> cs_stdout s' = cs_stdout s" "released s'" "r = 0 \<or> r = 1"
proof -
  obtain c l where c: "csv_logger_close (ce_fclose_ok E) (cs_log s) = (c, l)" by fastforce
  then have l: "\<not> log_file l" "c = 0 \<or> c = 1" using log_close [of "ce_fclose_ok E" "cs_log s"]
    by (auto simp: csv_logger_close_def split: if_splits)
  note d = assms [unfolded capture_finish_def Let_def c capture_state.simps prod.case] 
  show "cs_captured s' = cs_captured s" "cs_shown s' = cs_shown s" "json_output (ce_config E) \<longrightarrow> cs_stdout s' = cs_stdout s"
    using d by (auto simp: c)
  show "core_counters (cs_stats s') = core_counters (cs_stats s)" using d by (auto simp: c split: option.split prod.split)
  show "released s'" "r = 0 \<or> r = 1"
    using d l by (auto simp: c released_def flow_table_cleanup_def ipv4_fragment_table_cleanup_def)
qed

text \<open>The answer of a call: what holds while the loop waits, and when it has returned.\<close>

definition run_answer :: "capture_env \<Rightarrow> capture_answers \<Rightarrow> bytes \<Rightarrow> capture_event list \<Rightarrow> int option \<Rightarrow> capture_state \<Rightarrow> bool" where
  "run_answer E A out0 evs r s \<longleftrightarrow> shown_inv E out0 s \<and> (r \<noteq> Some 1 \<longrightarrow> count_inv s) \<and>
     (case r of None \<Rightarrow> table_inv E s \<and> \<not> run_over evs \<and> \<not> an_early_signal A \<and> has_room E s
      | Some code \<Rightarrow> (code = 0 \<or> code = 1) \<and> released s)"

text \<open>The fields of the environment that the preparation sets play no part in the invariants.\<close>

lemma env_fields [simp]:
  "shown_inv (E\<lparr>ce_datalink := dl, ce_writing := w\<rparr>) = shown_inv E"
  "table_inv (E\<lparr>ce_datalink := dl, ce_writing := w\<rparr>) = table_inv E"
  "has_room (E\<lparr>ce_datalink := dl, ce_writing := w\<rparr>) = has_room E"
  "env_ok (E\<lparr>ce_datalink := dl, ce_writing := w\<rparr>) = env_ok E"
  by (simp_all add: fun_eq_iff shown_inv_def shown_ok_def table_inv_def state_ok_def flows_ok_def has_room_def env_ok_def)

definition capture_inputs_ok :: "capture_env \<Rightarrow> capture_answers \<Rightarrow> capture_state \<Rightarrow> capture_event list \<Rightarrow> bool" where
  "capture_inputs_ok E A s evs \<longleftrightarrow> env_ok E \<and> config_texts_ok (ce_config E) \<and> count_ok (ce_config E) \<and> answers_ok A \<and>
     fresh_state s \<and> (\<forall>ev \<in> set evs. event_ok ev)"

lemma capture_start_ok:
  assumes "capture_inputs_ok E A s evs"
  shows "\<exists>r s'. capture_start E A s evs = Some (r, s') \<and> run_answer E A (cs_stdout s) evs r s'"
proof -
  have i: "env_ok E" "config_texts_ok (ce_config E)" "count_ok (ce_config E)" "answers_ok A" "fresh_state s"
    "\<forall>ev \<in> set evs. event_ok ev" using assms by (simp_all add: capture_inputs_ok_def)
  obtain ready s1 where p: "capture_prepare E A s = Some (ready, s1)" "prepared E (cs_stdout s) ready s1"
    using capture_prepare_ok [OF i(1,2,4,5)] by blast
  show ?thesis
  proof (cases ready)
    case None
    then show ?thesis using p by (simp add: capture_start_def prepared_def run_answer_def)
  next
    case (Some E1)
    obtain dl w where E1: "E1 = E\<lparr>ce_datalink := dl, ce_writing := w\<rparr>" and t: "table_inv E s1" "shown_inv E (cs_stdout s) s1" "count_inv s1"
      using p(2) Some by (auto simp: prepared_def)
    have e1: "env_ok E1" "count_ok (ce_config E1)" "run_ok E1 (cs_stdout s) s1"
      using i(1,3) t by (simp_all add: E1 run_ok_def)
    obtain outcome s2 where l: "capture_loop E1 (s1\<lparr>cs_stop := an_early_signal A\<rparr>) evs = Some (outcome, s2)"
      "loop_ended E1 (cs_stdout s) outcome s2"
      "outcome = LOOP_WAITING \<longrightarrow> has_room E1 s2 \<and> \<not> run_over evs \<and> \<not> an_early_signal A"
      using capture_loop_ok [OF e1(1,2) i(6), of "cs_stdout s" "s1\<lparr>cs_stop := an_early_signal A\<rparr>"] e1(3) by auto
    have same: "shown_inv E1 = shown_inv E" "table_inv E1 = table_inv E" "has_room E1 = has_room E"
      "ce_config E1 = ce_config E" by (simp_all add: E1)
    note call = capture_start_def p(1) Some l(1)
    show ?thesis
    proof (cases outcome)
      case LOOP_LEFT
      obtain r s3 where f: "capture_finish E1 A s2 = (r, s3)" by fastforce
      have "run_ok E1 (cs_stdout s) s2" using l(2) LOOP_LEFT by (simp add: loop_ended_def)
      then have "shown_inv E (cs_stdout s) s3" "count_inv s3"
        using finish_frame [OF f] count_inv_core by (auto simp: same run_ok_def shown_inv_def)
      then show ?thesis using finish_frame(5,6) [OF f] LOOP_LEFT f by (auto simp: call run_answer_def)
    next
      case LOOP_FAILED
      then show ?thesis using l(2) by (simp add: call loop_ended_def run_failed_def run_answer_def same)
    next
      case LOOP_WAITING
      then have "capture_start E A s evs = Some (None, s2)" by (simp add: call)
      then show ?thesis using l(2,3) LOOP_WAITING by (simp add: loop_ended_def run_ok_def run_answer_def same)
    qed
  qed
qed



text \<open>A SIGINT leaves a waiting call waiting.\<close>

lemma start_signal:
  assumes "capture_start E A s evs = Some (None, s')"
  shows "capture_start E A s (evs @ [EV_SIGNAL]) = Some (None, s'\<lparr>cs_stop := True\<rparr>)"
proof -
  obtain ready s1 where p: "capture_prepare E A s = Some (ready, s1)"
    using assms by (auto simp: capture_start_def bind_eq_Some_conv)
  then obtain E1 where r: "ready = Some E1" using assms by (cases ready) (auto simp: capture_start_def)
  obtain outcome s2 where l: "capture_loop E1 (s1\<lparr>cs_stop := an_early_signal A\<rparr>) evs = Some (outcome, s2)"
    using assms p r by (auto simp: capture_start_def bind_eq_Some_conv)
  then have "outcome = LOOP_WAITING" "s2 = s'"
    using assms p r by (cases outcome; simp add: capture_start_def split: prod.splits)+
  moreover from this have "capture_loop E1 (s1\<lparr>cs_stop := an_early_signal A\<rparr>) (evs @ [EV_SIGNAL]) = Some (LOOP_WAITING, s'\<lparr>cs_stop := True\<rparr>)"
    using l wait_signal by (auto simp: capture_loop_def split: if_splits)
  ultimately show ?thesis using p r by (simp add: capture_start_def)
qed

section \<open>Properties of a run\<close>

text \<open>A run for the examples: reading a savefile with one short frame and one signal, JSON output, at most one packet.\<close>

definition ex_env :: capture_env where
  "ex_env = \<lparr>ce_config = config_init_defaults\<lparr>read_path_enabled := True, json_output := True, max_packets := 1,
       decode_app := True, reassemble := True\<rparr>,
     ce_platform = ex_platform, ce_alloc = ex_malloc, ce_idna = None, ce_datalink = 1, ce_writing = False, ce_fclose_ok = True\<rparr>"

definition ex_answers :: capture_answers where
  "ex_answers = \<lparr>an_sigaction_ok = True, an_early_signal = False, an_devices = None, an_offline_opened = True, an_live_opened = True, an_datalink = 1,
     an_compile_ok = True, an_setfilter_ok = True, an_create_ok = True, an_fdopen_ok = True, an_dump_ok = True,
     an_frag_calloc = True, an_flow_calloc = True,
     an_log_open = \<lparr>open_ok = True, fdopen_ok = True, header_ok = True, flush_ok = True, close_before_ok = True, close_after_ok = True\<rparr>,
     an_pcap_stats = None\<rparr>"

definition ex_short :: frame where
  "ex_short = \<lparr>fr_bytes = [1, 2, 3], fr_caplen = 3, fr_sec = 7, fr_usec = 8, fr_log_error = False, fr_log_flushed = True\<rparr>"

lemma ex_inputs: "\<forall>ev \<in> set evs. event_ok ev \<Longrightarrow> capture_inputs_ok ex_env ex_answers capture_initial evs"
  by (simp add: capture_inputs_ok_def env_ok_def ex_env_def ex_platform_ok filter_config_ok_def config_texts_ok_def
      config_init_defaults_def count_ok_def answers_ok_def ex_answers_def fresh_state_def capture_initial_def csv_logger_initial_def)

lemma ex_events: "event_ok (EV_PACKET ex_short)" "event_ok EV_SIGNAL" "event_ok EV_EOF" "event_ok EV_TIMEOUT"
  by (simp_all add: event_ok_def frame_ok_def ex_short_def)

definition ex_plain :: capture_env where
  "ex_plain = ex_env\<lparr>ce_config := config_init_defaults\<lparr>read_path_enabled := True, max_packets := 2, no_bpf := True,
     filter_protocol_enabled := True, filter_protocol := PROTO_OTHER\<rparr>\<rparr>"

lemma ex_plain_inputs: "\<forall>ev \<in> set evs. event_ok ev \<Longrightarrow> capture_inputs_ok ex_plain ex_answers capture_initial evs"
  using ex_inputs [of evs]
  by (simp add: capture_inputs_ok_def env_ok_def ex_env_def ex_plain_def filter_config_ok_def config_texts_ok_def
      config_init_defaults_def count_ok_def)

named_theorems run_simps \<open>what evaluates a run on a frame without a network layer\<close>

lemmas [run_simps] = capture_packet_def ex_plain_def ex_env_def ex_short_def parser_parse_packet_with_datalink_def Let_def
    select_network_layer_def ex_platform_def initialize_packet_info_def packet_info_zero_def capture_fragment_def
    set_packet_timestamp_def capture_effective_def capture_flow_def capture_decode_def config_init_defaults_def no_flow_def
    adopt_flow_status_def filters_match_def and_also_def protocol_filter_matches_def port_filter_matches_def host_filter_matches_def
    payload_text_filter_matches_def payload_hex_filter_matches_def app_filters_match_def app_filters_enabled_def
    display_packet_def announce_flow_def print_packet_def packet_info_print_def mem_simps csv_logger_write_packet_def
    capture_initial_def csv_logger_initial_def capture_step_def capture_loop_def keep_going_def

lemmas [run_simps] = capture_start_def capture_prepare_def ex_answers_def capture_source_def c_str_def parser_supports_datalink_def
  install_bpf_filter_def build_bpf_filter_expression_def bpf_step_def prepare_tables_def ipv4_fragment_table_init_def
  prepare_log_def 

lemmas [run_simps] = capture_finish_def csv_logger_close_def lit_def out_u_def when_out_def asc_def

definition ex_events_run :: "capture_event list" where
  "ex_events_run = [EV_TIMEOUT, EV_PACKET ex_short, EV_SIGNAL, EV_TIMEOUT, EV_PACKET ex_short]"

lemma ex_capture_run: "\<exists>s. capture_start ex_plain ex_answers capture_initial ex_events_run = Some (Some 0, s) \<and> length (cs_shown s) = 1"
  by (simp add: run_simps ex_events_run_def)

lemma ex_capture_inputs: "capture_inputs_ok ex_plain ex_answers capture_initial ex_events_run"
  using ex_events by (intro ex_plain_inputs) (simp add: ex_events_run_def)

text \<open>C1. A capture run never faults. For every configuration with terminated texts, whatever the operating
  system and libpcap answer, and whatever frames, timeouts, errors and signals arrive in whatever order,
  the run reads and writes only inside its buffers; when it returns, it returns 0 or 1 with both tables
  freed and the log closed.\<close>

theorem capture_never_faults:
  assumes "capture_inputs_ok E A s evs"
  shows "\<exists>r s'. capture_start E A s evs = Some (r, s') \<and>
    (\<forall>code. r = Some code \<longrightarrow> (code = 0 \<or> code = 1) \<and> cs_frags s' = frag_table_zero \<and> cs_flows s' = flow_table_zero \<and>
       \<not> log_file (cs_log s'))"
  using capture_start_ok [OF assms] by (auto simp: run_answer_def released_def)

lemma capture_never_faults_witness:
  "\<exists>r s'. capture_start ex_env ex_answers capture_initial [EV_PACKET ex_short, EV_TIMEOUT] = Some (r, s')"
  using capture_never_faults [OF ex_inputs, of "[EV_PACKET ex_short, EV_TIMEOUT]"] ex_events by auto

text \<open>C2. What a run displays. The displayed packets are numbered 1, 2, 3 and so on in the order they arrive,
  every one of them is accepted by the declarative reading of the filters on the metadata it was
  filtered with, and with \<open>--count n\<close> there are never more than n.\<close>

theorem capture_displays_accepted:
  assumes "capture_inputs_ok E A s evs" "capture_start E A s evs = Some (r, s')"
  shows "(\<forall>i < length (cs_shown s'). packet_number (sh_packet (cs_shown s' ! i)) = of_nat (Suc i) \<and>
      accepted (ce_idna E) (ce_config E) (sh_context (cs_shown s' ! i)) (sh_packet (cs_shown s' ! i))) \<and>
    (0 < max_packets (ce_config E) \<longrightarrow> int (length (cs_shown s')) \<le> max_packets (ce_config E))"
  using capture_start_ok [OF assms(1)] assms(2) by (auto simp: run_answer_def shown_inv_def shown_ok_def)

lemma capture_displays_accepted_witness:
  "\<exists>s'. capture_start ex_plain ex_answers capture_initial ex_events_run = Some (Some 0, s') \<and> length (cs_shown s') = 1 \<and>
     packet_number (sh_packet (cs_shown s' ! 0)) = 1 \<and> protocol (sh_packet (cs_shown s' ! 0)) = PROTO_OTHER"
proof -
  obtain s' where s: "capture_start ex_plain ex_answers capture_initial ex_events_run = Some (Some 0, s')" "length (cs_shown s') = 1"
    using ex_capture_run by blast
  then show ?thesis
    using capture_displays_accepted [OF ex_capture_inputs s(1)]
    by (auto simp: accepted_def ex_plain_def ex_env_def)
qed

text \<open>C3. Every packet is accounted for. Unless the run ends in an error, the packets seen are exactly the
  displayed and the filtered ones (the parser never rejects a frame), the displayed count is the number
  of packets displayed, and it is the sum of the protocol counters, all modulo the 32 bits of the counters.\<close>

theorem capture_accounts_exact:
  assumes "capture_inputs_ok E A s evs" "capture_start E A s evs = Some (r, s')" "r \<noteq> Some 1"
  shows "raw_packets_seen (cs_stats s') = total_packets (cs_stats s') + packets_filtered_out (cs_stats s') \<and>
    parse_failures (cs_stats s') = 0 \<and> total_packets (cs_stats s') = of_nat (length (cs_shown s')) \<and>
    protocols_balanced (cs_stats s')"
  using capture_start_ok [OF assms(1)] assms(2,3) by (auto simp: run_answer_def count_inv_def)

lemma capture_accounts_exact_witness:
  "\<exists>s'. capture_start ex_plain ex_answers capture_initial ex_events_run = Some (Some 0, s') \<and>
     total_packets (cs_stats s') = 1 \<and> parse_failures (cs_stats s') = 0"
proof -
  obtain s' where s: "capture_start ex_plain ex_answers capture_initial ex_events_run = Some (Some 0, s')" "length (cs_shown s') = 1"
    using ex_capture_run by blast
  then show ?thesis using capture_accounts_exact [OF ex_capture_inputs s(1)] by simp
qed

text \<open>C4. Memory stays bounded however long a run lasts. At every point where the loop waits for the next
  event there are at most \<open>--max-flows\<close> flows, their streams and pending segments together hold at most
  128 MiB, and the fragment table holds at most its configured datagrams and bytes.\<close>

theorem capture_memory_bounded:
  assumes "capture_inputs_ok E A s evs" "capture_start E A s evs = Some (None, s')"
  shows "sum_list (map flow_bytes (fl_flows (cs_flows s'))) \<le> 134217728 \<and>
    length (fl_flows (cs_flows s')) \<le> cfg_max_flows (ce_config E) \<and>
    length (ft_datagrams (cs_frags s')) \<le> ipv4_fragment_max_datagrams (ce_config E) \<and>
    sum_list (map (length \<circ> fd_data) (ft_datagrams (cs_frags s'))) \<le> ipv4_fragment_max_bytes (ce_config E)"
proof -
  have t: "table_inv E s'" using capture_start_ok [OF assms(1)] assms(2) by (simp add: run_answer_def)
  have f: "frag_table_ok (cs_frags s')" using t by (simp add: table_inv_def state_ok_def frags_ok_def)
  then have b: "sum_list (map (length \<circ> fd_data) (ft_datagrams (cs_frags s'))) = ft_used_bytes (cs_frags s')"
    by (auto simp: frag_table_ok_def frag_entry_ok_def cong: map_cong)
  show ?thesis
  proof (cases "reassemble (ce_config E)")
    case True
    then have "flow_table_ok (cs_flows s')" using t by (simp add: table_inv_def state_ok_def flows_ok_def)
    then show ?thesis using True flow_table_bytes_le t f b by (auto simp: table_inv_def flow_table_ok_def frag_table_ok_def)
  next
    case False
    then show ?thesis using t f b
      by (auto simp: table_inv_def state_ok_def flows_ok_def flow_table_zero_def frag_table_ok_def)
  qed
qed

lemma ex_waiting: "\<exists>s. capture_start ex_plain ex_answers capture_initial [EV_TIMEOUT, EV_PACKET ex_short] = Some (None, s)"
  by (simp add: run_simps)

lemma capture_memory_bounded_witness:
  "\<exists>s'. capture_start ex_plain ex_answers capture_initial [EV_TIMEOUT, EV_PACKET ex_short] = Some (None, s') \<and>
     length (ft_datagrams (cs_frags s')) \<le> 64"
proof -
  obtain s' where s: "capture_start ex_plain ex_answers capture_initial [EV_TIMEOUT, EV_PACKET ex_short] = Some (None, s')"
    using ex_waiting by blast
  have "capture_inputs_ok ex_plain ex_answers capture_initial [EV_TIMEOUT, EV_PACKET ex_short]"
    using ex_events by (intro ex_plain_inputs) simp
  from capture_memory_bounded [OF this s] s show ?thesis by (simp add: ex_plain_def config_init_defaults_def)
qed

text \<open>C5. When a run ends. Ctrl+C only sets a flag: a signal while \<open>pcap_next_ex\<close> waits does not end the wait,
  but whatever \<open>pcap_next_ex\<close> returns next, even a packet or a timeout, is the last thing handled. So the call has
  returned once a SIGINT arrived before the loop, or \<open>pcap_next_ex\<close> returned anything after a SIGINT, or it
  reported the end of a savefile or an error, whatever else arrived before or after; and while it waits, none of
  these has happened and, with \<open>--count n\<close>, fewer than n packets have been displayed.\<close>

theorem capture_run_ends:
  assumes "capture_inputs_ok E A s evs"
  shows "\<exists>r s'. capture_start E A s evs = Some (r, s') \<and>
    (an_early_signal A \<or> EV_EOF \<in> set evs \<or> EV_ERROR \<in> set evs \<or>
       (\<exists>before x after. evs = before @ EV_SIGNAL # after \<and> EV_RETURN x \<in> set after) \<longrightarrow> r \<noteq> None) \<and>
    (r = None \<longrightarrow> capture_start E A s (evs @ [EV_SIGNAL]) = Some (None, s'\<lparr>cs_stop := True\<rparr>)) \<and>
    (r = None \<and> 0 < max_packets (ce_config E) \<longrightarrow> int (length (cs_shown s')) < max_packets (ce_config E))"
proof -
  obtain r s' where a: "capture_start E A s evs = Some (r, s')" "run_answer E A (cs_stdout s) evs r s'"
    using capture_start_ok [OF assms] by blast
  have "count_ok (ce_config E)" using assms by (simp add: capture_inputs_ok_def)
  then show ?thesis using a count_room [of E "cs_stdout s" s'] start_signal [of E A s evs s']
    by (cases r) (auto simp: run_answer_def run_over_def)
qed

lemma capture_run_ends_witness:
  "\<exists>code s'. capture_start ex_env ex_answers capture_initial [EV_PACKET ex_short, EV_SIGNAL, EV_TIMEOUT] = Some (Some code, s')"
proof -
  have "capture_inputs_ok ex_env ex_answers capture_initial [EV_PACKET ex_short, EV_SIGNAL, EV_TIMEOUT]"
    using ex_events by (intro ex_inputs) simp
  moreover have "\<exists>before x after. [EV_PACKET ex_short, EV_SIGNAL, EV_TIMEOUT] = before @ EV_SIGNAL # after \<and> EV_RETURN x \<in> set after"
    by (intro exI [of _ "[EV_PACKET ex_short]"] exI [of _ NEXT_TIMEOUT] exI [of _ "[EV_TIMEOUT]"]) simp
  ultimately show ?thesis using capture_run_ends by fastforce
qed

text \<open>C6. JSON output is a stream of packets. In JSON mode everything a run writes to standard output, from
  its start to its end, is one line per displayed packet in order; each line is free of line breaks, and when the
  texts of its packet are UTF-8 a JSON reader gets from it exactly the members of that packet. A packet with a text
  that is not UTF-8 gives a line that a JSON reader rejects, and disturbs no other line.\<close>

theorem capture_json_stream:
  assumes "capture_inputs_ok E A s evs" "capture_start E A s evs = Some (r, s')" "json_output (ce_config E)"
  shows "\<exists>ls. cs_stdout s' = cs_stdout s @ concat (map (\<lambda>l. l @ [10]) ls) \<and>
    list_all2 (\<lambda>l x. 10 \<notin> set l \<and>
      json_read l = (let v = shown_json (ce_config E) x in if utf8_json v then Some v else None)) ls (cs_shown s')"
proof (intro exI conjI)
  let ?ls = "map (\<lambda>x. render (shown_json (ce_config E) x)) (cs_shown s')"
  show "cs_stdout s' = cs_stdout s @ concat (map (\<lambda>l. l @ [10]) ?ls)"
    using capture_start_ok [OF assms(1)] assms(2,3)
    by (auto simp: run_answer_def shown_inv_def json_text_def comp_def cong: map_cong)
  show "list_all2 (\<lambda>l x. 10 \<notin> set l \<and>
      json_read l = (let v = shown_json (ce_config E) x in if utf8_json v then Some v else None)) ?ls (cs_shown s')"
    using json_read_render render_line by (simp add: list_all2_map1 list_all2_same Let_def)
qed

lemma capture_json_stream_witness:
  "\<exists>r s' ls. capture_start ex_env ex_answers capture_initial [EV_PACKET ex_short, EV_EOF] = Some (r, s') \<and>
     cs_stdout s' = concat (map (\<lambda>l. l @ [10]) ls) \<and> length ls = length (cs_shown s')"
proof -
  have i: "capture_inputs_ok ex_env ex_answers capture_initial [EV_PACKET ex_short, EV_EOF]"
    using ex_events by (intro ex_inputs) simp
  obtain r s' where s: "capture_start ex_env ex_answers capture_initial [EV_PACKET ex_short, EV_EOF] = Some (r, s')"
    using capture_start_ok [OF i] by blast
  then show ?thesis
    using capture_json_stream [OF i s] by (auto simp: ex_env_def capture_initial_def dest: list_all2_lengthD)
qed

end
