(* ===== verification/Cli.thy ===== *)
theory Cli
  imports Text Parser
begin

text \<open>
  \<open>src/cli.c\<close>: the command line. An argument is the list of its bytes without the terminator; \<open>argv\<close> is
  the list of the arguments. A parser answers the parsed value, or \<open>None\<close> where the C function returns
  non-zero and leaves its destination alone. What an error prints on standard error is a list of bytes.
\<close>

section \<open>Numbers of the C library\<close>

text \<open>
  \<open>strtol\<close>, \<open>strtoul\<close> and \<open>strtoull\<close> in the C locale, with a 64-bit \<open>long\<close>: leading white space, a sign,
  for base 0 a prefix, and as many digits as there are. \<open>None\<close>: there is no number, and \<open>end\<close> is the
  text; otherwise the sign, the value and the rest.
\<close>

definition strto_digit :: "u8 \<Rightarrow> nat" where
  "strto_digit c = (if 48 \<le> c \<and> c \<le> 57 then unat c - 48
     else if 97 \<le> c \<and> c \<le> 122 then unat c - 87
     else if 65 \<le> c \<and> c \<le> 90 then unat c - 55 else 36)"

definition digits_number :: "nat \<Rightarrow> bytes \<Rightarrow> nat" where
  "digits_number base ds = foldl (\<lambda>n c. base * n + strto_digit c) 0 ds"

definition number_base :: "nat \<Rightarrow> bytes \<Rightarrow> nat \<times> bytes" where
  "number_base base t =
     (if base \<noteq> 0 then (base, t)
      else if 3 \<le> length t \<and> t ! 0 = 48 \<and> (t ! 1 = 120 \<or> t ! 1 = 88) \<and> strto_digit (t ! 2) < 16 then (16, drop 2 t)
      else if t \<noteq> [] \<and> hd t = 48 then (8, t)
      else (10, t))"

definition scan_number :: "nat \<Rightarrow> bytes \<Rightarrow> (bool \<times> nat \<times> bytes) option" where
  "scan_number base0 text =
     (let s = dropWhile isspace text;
          neg = (s \<noteq> [] \<and> hd s = 45);
          t = (if s \<noteq> [] \<and> (hd s = 45 \<or> hd s = 43) then tl s else s);
          (base, u) = number_base base0 t;
          ds = takeWhile (\<lambda>c. strto_digit c < base) u
      in if ds = [] then None else Some (neg, digits_number base ds, drop (length ds) u))"

text \<open>The value, whether \<open>errno\<close> is set, and the rest; an unsigned conversion negates modulo \<open>2 ^ 64\<close>.\<close>

definition strtol10 :: "bytes \<Rightarrow> (int \<times> bool \<times> bytes) option" where
  "strtol10 text =
     (case scan_number 10 text of None \<Rightarrow> None
      | Some (neg, n, rest) \<Rightarrow>
        let v = (if neg then - int n else int n) in
        Some (if v > 2 ^ 63 - 1 then (2 ^ 63 - 1, True, rest)
              else if v < - (2 ^ 63) then (- (2 ^ 63), True, rest) else (v, False, rest)))"

definition strtoul64 :: "nat \<Rightarrow> bytes \<Rightarrow> (nat \<times> bool \<times> bytes) option" where
  "strtoul64 base text =
     (case scan_number base text of None \<Rightarrow> None
      | Some (neg, n, rest) \<Rightarrow>
        Some (if n \<ge> 2 ^ 64 then (2 ^ 64 - 1, True, rest)
              else (if neg then (2 ^ 64 - n) mod 2 ^ 64 else n, False, rest)))"

section \<open>Values\<close>

definition parse_positive_int :: "bytes \<Rightarrow> int option" where
  "parse_positive_int text =
     (if text = [] then None
      else case strtol10 text of None \<Rightarrow> None
      | Some (parsed, range_error, rest) \<Rightarrow>
        if range_error \<or> rest \<noteq> [] \<or> parsed \<le> 0 \<or> parsed > 2147483647 then None else Some parsed)"

definition parse_positive_size :: "bytes \<Rightarrow> nat option" where
  "parse_positive_size text =
     (if text = [] \<or> hd text = 45 then None
      else case strtoul64 10 text of None \<Rightarrow> None
      | Some (parsed, range_error, rest) \<Rightarrow>
        if range_error \<or> rest \<noteq> [] \<or> parsed = 0 \<or> parsed > 2 ^ 64 - 1 then None else Some parsed)"

definition parse_positive_uint32 :: "bytes \<Rightarrow> u32 option" where
  "parse_positive_uint32 text =
     (case parse_positive_size text of None \<Rightarrow> None
      | Some parsed \<Rightarrow> if parsed > 4294967295 then None else Some (of_nat parsed))"

text \<open>The destination with the string and its terminator.\<close>

definition copy_arg :: "bytes \<Rightarrow> bytes \<Rightarrow> bytes option" where
  "copy_arg dst v =
     (if dst = [] then None
      else if length v \<ge> length dst then None
      else blit dst 0 (v @ [0]))"

definition parse_log_flush_mode :: "bytes \<Rightarrow> LogFlushMode option" where
  "parse_log_flush_mode text =
     (if text = asc ''always'' then Some LOG_FLUSH_ALWAYS
      else if text = asc ''line'' then Some LOG_FLUSH_LINE
      else if text = asc ''exit'' then Some LOG_FLUSH_EXIT
      else None)"

definition parse_app_protocol :: "bytes \<Rightarrow> AppProtocol option" where
  "parse_app_protocol text =
     (if text = asc ''http'' then Some APP_PROTO_HTTP
      else if text = asc ''dns'' then Some APP_PROTO_DNS
      else if text = asc ''tls'' then Some APP_PROTO_TLS
      else if text = asc ''dhcp'' then Some APP_PROTO_DHCP
      else if text = asc ''mdns'' then Some APP_PROTO_MDNS
      else if text = asc ''quic'' then Some APP_PROTO_QUIC
      else None)"

definition parse_dhcp_type :: "bytes \<Rightarrow> u8 option" where
  "parse_dhcp_type text =
     (if text = asc ''discover'' then Some 1
      else if text = asc ''offer'' then Some 2
      else if text = asc ''request'' then Some 3
      else if text = asc ''decline'' then Some 4
      else if text = asc ''ack'' then Some 5
      else if text = asc ''nak'' then Some 6
      else if text = asc ''release'' then Some 7
      else if text = asc ''inform'' then Some 8
      else case parse_positive_int text of None \<Rightarrow> None
      | Some n \<Rightarrow> if n > 255 then None else Some (of_int n))"

definition parse_quic_version :: "bytes \<Rightarrow> u32 option" where
  "parse_quic_version text =
     (if text = [] then None
      else case strtoul64 0 text of None \<Rightarrow> None
      | Some (parsed, range_error, rest) \<Rightarrow>
        if range_error \<or> rest \<noteq> [] \<or> parsed > 4294967295 then None else Some (of_nat parsed))"

text \<open>The return value 1 or 2, or the mode.\<close>

definition parse_domain_match_mode :: "bool \<Rightarrow> bytes \<Rightarrow> int + DomainMatchMode" where
  "parse_domain_match_mode with_libidn2 text =
     (if text = asc ''normalized'' then Inr DOMAIN_MATCH_NORMALIZED
      else if text = asc ''exact'' then Inr DOMAIN_MATCH_EXACT
      else if text = asc ''idna'' then if with_libidn2 then Inr DOMAIN_MATCH_IDNA else Inl 2
      else Inl 1)"

definition parse_dns_type :: "bytes \<Rightarrow> u16 option" where
  "parse_dns_type text =
     (if text = asc ''A'' \<or> text = asc ''a'' then Some 1
      else if text = asc ''NS'' \<or> text = asc ''ns'' then Some 2
      else if text = asc ''CNAME'' \<or> text = asc ''cname'' then Some 5
      else if text = asc ''AAAA'' \<or> text = asc ''aaaa'' then Some 28
      else case parse_positive_int text of None \<Rightarrow> None
      | Some n \<Rightarrow> if n > 65535 then None else Some (of_int n))"

text \<open>The address is written back in its canonical form.\<close>

definition parse_ip_host :: "platform \<Rightarrow> bytes \<Rightarrow> bytes \<Rightarrow> bytes option" where
  "parse_ip_host P text dst =
     (if dst = [] then None
      else case pton4 (net P) text of
        Some a \<Rightarrow> ntop_into dst (ipv4_text (a ! 0) (a ! 1) (a ! 2) (a ! 3))
      | None \<Rightarrow> (case pton6 (net P) text of
          Some a \<Rightarrow> ntop_into dst (ntop6 P a)
        | None \<Rightarrow> None))"

definition cli_hex_value :: "u8 \<Rightarrow> int" where
  "cli_hex_value c =
     (if 48 \<le> c \<and> c \<le> 57 then uint c - 48
      else if 97 \<le> c \<and> c \<le> 102 then uint c - 97 + 10
      else if 65 \<le> c \<and> c \<le> 70 then uint c - 65 + 10
      else -1)"

text \<open>
  The loop: the rest of the text, the pending nibble or -1, the bytes, and their number. The outer \<open>None\<close>
  is a write outside the array.
\<close>

fun hex_pattern_loop :: "bytes \<Rightarrow> int \<Rightarrow> bytes \<Rightarrow> nat \<Rightarrow> (bytes \<times> nat) option option" where
  "hex_pattern_loop [] high_nibble buf count =
     Some (if high_nibble \<ge> 0 \<or> count = 0 then None else Some (buf, count))"
| "hex_pattern_loop (c # text) high_nibble buf count =
     (if isspace c \<or> c = 58 \<or> c = 45 then hex_pattern_loop text high_nibble buf count
      else
        let v = cli_hex_value c in
        if v < 0 then Some None
        else if high_nibble < 0 then hex_pattern_loop text v buf count
        else if count \<ge> 128 then Some None
        else do {
          buf1 \<leftarrow> wr buf count (of_int (high_nibble * 16 + v));
          hex_pattern_loop text (-1) buf1 (count + 1)
        })"

definition parse_payload_hex_pattern :: "bytes \<Rightarrow> bytes \<Rightarrow> (bytes \<times> nat) option option" where
  "parse_payload_hex_pattern text buf = (if text = [] then Some None else hex_pattern_loop text (-1) buf 0)"



section \<open>Messages\<close>

definition usage_lines :: "string list" where
  "usage_lines = [
     ''       [--count <number>] [--quiet] [--verbose] [--no-color]'',
     ''       [--protocol <tcp|udp|icmp|arp|other>] [--port <number>]'',
     ''       [--host <ip>] [--payload] [--payload-bytes <number>]'',
     ''       [--payload-decode-bytes <number>] [--domain-match <mode>]'',
     ''       [--payload-contains <text>] [--payload-hex <hex>] [--log <file>]'',
     ''       [--read <file.pcap>] [--write <file.pcap>] [--no-bpf]'',
     ''       [--json] [--flush-log <always|line|exit>]'',
     ''       [--decode-app] [--reassemble] [--max-flows <number>]'',
     ''       [--stream-buffer-bytes <number>] [--flow-timeout <seconds>]'',
     ''       [--app <http|dns|tls|dhcp|mdns|quic>] [--http-host <host>]'',
     ''       [--http-method <method>] [--dns-query <name>] [--dns-type <type>]'',
     ''       [--tls-sni <host>] [--tls-alpn <protocol>]'',
     ''       [--dhcp-type <type>] [--quic-version <version>] [--stats]'']"

definition print_usage :: "bytes option \<Rightarrow> bytes" where
  "print_usage program_name =
     (let name = (case program_name of None \<Rightarrow> asc ''MiniSniffer'' | Some n \<Rightarrow> n) in
      asc ''Usage: '' @ name @ asc '' [--help] [--version] [--list-interfaces] [--interface <name>]'' @ [10] @
      concat (map (\<lambda>l. asc l @ [10]) usage_lines))"

definition cli_print_usage :: "bytes option \<Rightarrow> bytes" where
  "cli_print_usage program_name = print_usage program_name"

definition fail_with_error :: "bytes \<Rightarrow> string \<Rightarrow> bytes" where
  "fail_with_error prog message = asc ''Error: '' @ asc message @ [10] @ print_usage (Some prog)"

text \<open>The errors that quote the rejected value, and those with a number in their text.\<close>

definition fail_quoting :: "bytes \<Rightarrow> string \<Rightarrow> bytes \<Rightarrow> bytes" where
  "fail_quoting prog what v = asc ''Error: invalid '' @ asc what @ asc '': '' @ v @ asc ''.'' @ [10] @ print_usage (Some prog)"

definition fail_invalid_protocol :: "bytes \<Rightarrow> bytes \<Rightarrow> bytes" where
  "fail_invalid_protocol prog v = fail_quoting prog ''protocol'' v"

definition fail_invalid_port :: "bytes \<Rightarrow> bytes" where
  "fail_invalid_port prog = fail_with_error prog ''port must be between 1 and 65535.''"

definition fail_invalid_host :: "bytes \<Rightarrow> bytes" where
  "fail_invalid_host prog = fail_with_error prog ''host must be a valid IPv4 or IPv6 address.''"

definition fail_invalid_payload_bytes :: "bytes \<Rightarrow> bytes" where
  "fail_invalid_payload_bytes prog = fail_with_error prog ''payload byte preview must be between 1 and 256.''"

definition fail_invalid_payload_decode_bytes :: "bytes \<Rightarrow> bytes" where
  "fail_invalid_payload_decode_bytes prog = fail_with_error prog ''payload decode bytes must be between 1 and 65535.''"

definition fail_invalid_payload_text :: "bytes \<Rightarrow> bytes" where
  "fail_invalid_payload_text prog = fail_with_error prog ''payload text filter must be between 1 and 128 bytes.''"

definition fail_invalid_payload_hex :: "bytes \<Rightarrow> bytes" where
  "fail_invalid_payload_hex prog = fail_with_error prog ''payload hex filter must contain 1 to 128 bytes of hex.''"

definition fail_invalid_app :: "bytes \<Rightarrow> bytes \<Rightarrow> bytes" where
  "fail_invalid_app prog v = fail_quoting prog ''app protocol'' v"

definition fail_invalid_dns_type :: "bytes \<Rightarrow> bytes \<Rightarrow> bytes" where
  "fail_invalid_dns_type prog v = fail_quoting prog ''DNS type'' v"

definition fail_invalid_dhcp_type :: "bytes \<Rightarrow> bytes \<Rightarrow> bytes" where
  "fail_invalid_dhcp_type prog v = fail_quoting prog ''DHCP message type'' v"

definition fail_invalid_quic_version :: "bytes \<Rightarrow> bytes \<Rightarrow> bytes" where
  "fail_invalid_quic_version prog v = fail_quoting prog ''QUIC version'' v"

definition fail_invalid_positive_size :: "bytes \<Rightarrow> string \<Rightarrow> bytes" where
  "fail_invalid_positive_size prog option_name = fail_with_error prog (option_name @ '' must be a positive integer.'')"

section \<open>One option\<close>

record cli_state =
  cl_config :: app_config
  max_flows_was_set :: bool
  stream_buffer_was_set :: bool
  flow_timeout_was_set :: bool

abbreviation upd :: "(app_config \<Rightarrow> app_config) \<Rightarrow> cli_state \<Rightarrow> cli_state" where
  "upd f st \<equiv> st\<lparr>cl_config := f (cl_config st)\<rparr>"

text \<open>\<open>has_value\<close> on the arguments after the flag.\<close>

definition has_value :: "bytes list \<Rightarrow> bool" where
  "has_value rest \<longleftrightarrow> rest \<noteq> [] \<and> take 2 (hd rest) \<noteq> asc ''--''"

text \<open>The options without a value.\<close>

definition flag_option :: "bytes \<Rightarrow> (cli_state \<Rightarrow> cli_state) option" where
  "flag_option opt =
     (if opt = asc ''--version'' then Some (upd (\<lambda>c. c\<lparr>version_requested := True\<rparr>))
      else if opt = asc ''--list-interfaces'' then Some (upd (\<lambda>c. c\<lparr>list_interfaces := True\<rparr>))
      else if opt = asc ''--quiet'' then Some (upd (\<lambda>c. c\<lparr>quiet := True\<rparr>))
      else if opt = asc ''--verbose'' then Some (upd (\<lambda>c. c\<lparr>verbose := True\<rparr>))
      else if opt = asc ''--no-color'' then Some (upd (\<lambda>c. c\<lparr>color_enabled := False\<rparr>))
      else if opt = asc ''--json'' then Some (upd (\<lambda>c. c\<lparr>json_output := True\<rparr>))
      else if opt = asc ''--no-bpf'' then Some (upd (\<lambda>c. c\<lparr>no_bpf := True\<rparr>))
      else if opt = asc ''--payload'' then Some (upd (\<lambda>c. c\<lparr>payload_display_enabled := True\<rparr>))
      else if opt = asc ''--decode-app'' then Some (upd (\<lambda>c. c\<lparr>decode_app := True\<rparr>))
      else if opt = asc ''--reassemble'' then Some (upd (\<lambda>c. c\<lparr>reassemble := True\<rparr>))
      else if opt = asc ''--stats'' then Some (upd (\<lambda>c. c\<lparr>stats_mode := True\<rparr>))
      else None)"

text \<open>The options with a value, each with the message for a missing one.\<close>

definition value_options :: "(bytes \<times> string) list" where
  "value_options = [
     (asc ''--interface'', ''--interface requires a value.''), (asc ''--count'', ''--count requires a value.''),
     (asc ''--protocol'', ''--protocol requires a value.''), (asc ''--port'', ''--port requires a value.''),
     (asc ''--host'', ''--host requires a value.''), (asc ''--log'', ''--log requires a file path.''),
     (asc ''--read'', ''--read requires a file path.''), (asc ''--write'', ''--write requires a file path.''),
     (asc ''--flush-log'', ''--flush-log requires a value.''),
     (asc ''--payload-bytes'', ''--payload-bytes requires a value.''),
     (asc ''--payload-decode-bytes'', ''--payload-decode-bytes requires a value.''),
     (asc ''--domain-match'', ''--domain-match requires a value.''),
     (asc ''--payload-contains'', ''--payload-contains requires a value.''),
     (asc ''--payload-hex'', ''--payload-hex requires a value.''), (asc ''--app'', ''--app requires a value.''),
     (asc ''--http-host'', ''--http-host requires a value.''), (asc ''--http-method'', ''--http-method requires a value.''),
     (asc ''--dns-query'', ''--dns-query requires a value.''), (asc ''--dns-type'', ''--dns-type requires a value.''),
     (asc ''--tls-sni'', ''--tls-sni requires a value.''), (asc ''--tls-alpn'', ''--tls-alpn requires a value.''),
     (asc ''--dhcp-type'', ''--dhcp-type requires a value.''),
     (asc ''--quic-version'', ''--quic-version requires a value.''),
     (asc ''--max-flows'', ''--max-flows requires a value.''),
     (asc ''--stream-buffer-bytes'', ''--stream-buffer-bytes requires a value.''),
     (asc ''--flow-timeout'', ''--flow-timeout requires a value.'')]"

text \<open>One value: the error text, or the state with the setting.\<close>

definition set_or :: "bytes \<Rightarrow> 'a option \<Rightarrow> ('a \<Rightarrow> app_config \<Rightarrow> app_config) \<Rightarrow> cli_state \<Rightarrow> bytes + cli_state" where
  "set_or err parsed f st = (case parsed of None \<Rightarrow> Inl err | Some x \<Rightarrow> Inr (upd (f x) st))"

text \<open>Values that are copied as text into an array.\<close>

definition text_option :: "bytes \<Rightarrow> bytes \<Rightarrow> bytes \<Rightarrow> cli_state \<Rightarrow> (bytes + cli_state) option" where
  "text_option prog opt v st =
     (let c = cl_config st; long = (\<lambda>m. fail_with_error prog m) in
      if opt = asc ''--interface'' then Some (set_or (long ''interface name is too long.'')
        (copy_arg (interface_name c) v) (\<lambda>b c. c\<lparr>interface_name := b\<rparr>) st)
      else if opt = asc ''--log'' then Some (set_or (long ''log path is too long.'')
        (copy_arg (log_path c) v) (\<lambda>b c. c\<lparr>log_path := b, logging_enabled := True\<rparr>) st)
      else if opt = asc ''--read'' then Some (set_or (long ''read path is too long.'')
        (copy_arg (read_path c) v) (\<lambda>b c. c\<lparr>read_path := b, read_path_enabled := True\<rparr>) st)
      else if opt = asc ''--write'' then Some (set_or (long ''write path is too long.'')
        (copy_arg (write_path c) v) (\<lambda>b c. c\<lparr>write_path := b, write_path_enabled := True\<rparr>) st)
      else if opt = asc ''--http-host'' then Some (set_or (long ''HTTP host filter is too long.'')
        (copy_arg (filter_http_host c) v) (\<lambda>b c. c\<lparr>filter_http_host := b, filter_http_host_enabled := True\<rparr>) st)
      else if opt = asc ''--http-method'' then Some (set_or (long ''HTTP method filter is too long.'')
        (copy_arg (filter_http_method c) v) (\<lambda>b c. c\<lparr>filter_http_method := b, filter_http_method_enabled := True\<rparr>) st)
      else if opt = asc ''--dns-query'' then Some (set_or (long ''DNS query filter is too long.'')
        (copy_arg (filter_dns_query c) v) (\<lambda>b c. c\<lparr>filter_dns_query := b, filter_dns_query_enabled := True\<rparr>) st)
      else if opt = asc ''--tls-sni'' then Some (set_or (long ''TLS SNI filter is too long.'')
        (copy_arg (filter_tls_sni c) v) (\<lambda>b c. c\<lparr>filter_tls_sni := b, filter_tls_sni_enabled := True\<rparr>) st)
      else if opt = asc ''--tls-alpn'' then Some (set_or (long ''TLS ALPN filter is too long.'')
        (copy_arg (filter_tls_alpn c) v) (\<lambda>b c. c\<lparr>filter_tls_alpn := b, filter_tls_alpn_enabled := True\<rparr>) st)
      else None)"



text \<open>Values of the filters; the outer \<open>None\<close> of a payload pattern is a write outside its array.\<close>

definition set_text_pattern :: "bytes \<Rightarrow> bytes \<Rightarrow> cli_state \<Rightarrow> (bytes + cli_state) option" where
  "set_text_pattern prog v st =
     (if length v = 0 \<or> length v > 128 then Some (Inl (fail_invalid_payload_text prog))
      else do {
        buf \<leftarrow> blit (filter_payload_text (cl_config st)) 0 v;
        Some (Inr (upd (\<lambda>c. c\<lparr>filter_payload_text := buf, filter_payload_text_length := length v,
          filter_payload_text_enabled := True\<rparr>) st))
      })"

definition set_hex_pattern :: "bytes \<Rightarrow> bytes \<Rightarrow> cli_state \<Rightarrow> (bytes + cli_state) option" where
  "set_hex_pattern prog v st = do {
     parsed \<leftarrow> parse_payload_hex_pattern v (filter_payload_hex (cl_config st));
     Some (set_or (fail_invalid_payload_hex prog) parsed
       (\<lambda>(buf, n) c. c\<lparr>filter_payload_hex := buf, filter_payload_hex_length := n, filter_payload_hex_enabled := True\<rparr>) st)
   }"

definition set_domain_match :: "bytes \<Rightarrow> bool \<Rightarrow> bytes \<Rightarrow> cli_state \<Rightarrow> bytes + cli_state" where
  "set_domain_match prog with_libidn2 v st =
     (case parse_domain_match_mode with_libidn2 v of
        Inl r \<Rightarrow> Inl (fail_with_error prog (if r = 2 then ''--domain-match idna requires WITH_LIBIDN2=1.''
                   else ''--domain-match must be normalized, exact, or idna.''))
      | Inr m \<Rightarrow> Inr (upd (\<lambda>c. c\<lparr>domain_match_mode := m\<rparr>) st))"

text \<open>A value with an upper limit, which the option checks after parsing.\<close>

definition at_most :: "'a::linorder \<Rightarrow> 'a option \<Rightarrow> 'a option" where
  "at_most limit parsed = (case parsed of None \<Rightarrow> None | Some n \<Rightarrow> if n > limit then None else Some n)"

definition filter_option :: "platform \<Rightarrow> bool \<Rightarrow> bytes \<Rightarrow> bytes \<Rightarrow> bytes \<Rightarrow> cli_state \<Rightarrow> (bytes + cli_state) option option" where
  "filter_option P with_libidn2 prog opt v st =
     (if opt = asc ''--protocol'' then Some (Some (set_or (fail_invalid_protocol prog v) (protocol_from_string v)
        (\<lambda>x c. c\<lparr>filter_protocol := x, filter_protocol_enabled := True\<rparr>) st))
      else if opt = asc ''--port'' then Some (Some (set_or (fail_invalid_port prog) (at_most 65535 (parse_positive_int v))
        (\<lambda>n c. c\<lparr>filter_port_enabled := True, filter_port := of_int n\<rparr>) st))
      else if opt = asc ''--host'' then Some (Some (set_or (fail_invalid_host prog)
        (parse_ip_host P v (filter_host (cl_config st))) (\<lambda>b c. c\<lparr>filter_host := b, filter_host_enabled := True\<rparr>) st))
      else if opt = asc ''--payload-contains'' then Some (set_text_pattern prog v st)
      else if opt = asc ''--payload-hex'' then Some (set_hex_pattern prog v st)
      else if opt = asc ''--domain-match'' then Some (Some (set_domain_match prog with_libidn2 v st))
      else if opt = asc ''--app'' then Some (Some (set_or (fail_invalid_app prog v) (parse_app_protocol v)
        (\<lambda>x c. c\<lparr>filter_app_protocol := x, filter_app_enabled := True\<rparr>) st))
      else if opt = asc ''--dns-type'' then Some (Some (set_or (fail_invalid_dns_type prog v) (parse_dns_type v)
        (\<lambda>x c. c\<lparr>filter_dns_type := x, filter_dns_type_enabled := True\<rparr>) st))
      else if opt = asc ''--dhcp-type'' then Some (Some (set_or (fail_invalid_dhcp_type prog v) (parse_dhcp_type v)
        (\<lambda>x c. c\<lparr>filter_dhcp_type := x, filter_dhcp_type_enabled := True\<rparr>) st))
      else if opt = asc ''--quic-version'' then Some (Some (set_or (fail_invalid_quic_version prog v) (parse_quic_version v)
        (\<lambda>x c. c\<lparr>filter_quic_version := x, filter_quic_version_enabled := True\<rparr>) st))
      else None)"

definition limit_option :: "bytes \<Rightarrow> bytes \<Rightarrow> bytes \<Rightarrow> cli_state \<Rightarrow> (bytes + cli_state) option" where
  "limit_option prog opt v st =
     (if opt = asc ''--count'' then Some (set_or (fail_with_error prog ''count must be a positive integer.'')
        (parse_positive_int v) (\<lambda>n c. c\<lparr>max_packets := n\<rparr>) st)
      else if opt = asc ''--flush-log'' then Some (set_or (fail_with_error prog ''--flush-log must be always, line, or exit.'')
        (parse_log_flush_mode v) (\<lambda>m c. c\<lparr>log_flush_mode := m\<rparr>) st)
      else if opt = asc ''--payload-bytes'' then Some (set_or (fail_invalid_payload_bytes prog)
        (at_most 256 (parse_positive_int v)) (\<lambda>n c. c\<lparr>payload_preview_bytes := nat n\<rparr>) st)
      else if opt = asc ''--payload-decode-bytes'' then Some (set_or (fail_invalid_payload_decode_bytes prog)
        (at_most 65535 (parse_positive_size v)) (\<lambda>n c. c\<lparr>payload_decode_bytes := n\<rparr>) st)
      else if opt = asc ''--max-flows'' then Some (set_or (fail_invalid_positive_size prog ''--max-flows'')
        (parse_positive_size v) (\<lambda>n c. c\<lparr>cfg_max_flows := n\<rparr>) (st\<lparr>max_flows_was_set := True\<rparr>))
      else if opt = asc ''--stream-buffer-bytes'' then Some (set_or (fail_invalid_positive_size prog ''--stream-buffer-bytes'')
        (parse_positive_size v) (\<lambda>n c. c\<lparr>stream_buffer_bytes := n\<rparr>) (st\<lparr>stream_buffer_was_set := True\<rparr>))
      else if opt = asc ''--flow-timeout'' then Some (set_or (fail_invalid_positive_size prog ''--flow-timeout'')
        (parse_positive_uint32 v) (\<lambda>n c. c\<lparr>flow_timeout_seconds := n\<rparr>) (st\<lparr>flow_timeout_was_set := True\<rparr>))
      else None)"

text \<open>One round of the loop: the state and the arguments that are left, \<open>--help\<close>, or an error.\<close>

datatype cli_step = CLI_NEXT cli_state "bytes list" | CLI_HELP | CLI_FAIL bytes

definition value_step :: "platform \<Rightarrow> bool \<Rightarrow> bytes \<Rightarrow> bytes \<Rightarrow> bytes \<Rightarrow> cli_state \<Rightarrow> (bytes + cli_state) option" where
  "value_step P with_libidn2 prog opt v st =
     (case text_option prog opt v st of Some r \<Rightarrow> Some r
      | None \<Rightarrow> case filter_option P with_libidn2 prog opt v st of Some r \<Rightarrow> r
      | None \<Rightarrow> Some (case limit_option prog opt v st of Some r \<Rightarrow> r
      | None \<Rightarrow> Inl (fail_with_error prog ''unknown option.'')))"

definition cli_step :: "platform \<Rightarrow> bool \<Rightarrow> bytes \<Rightarrow> bytes \<Rightarrow> bytes list \<Rightarrow> cli_state \<Rightarrow> cli_step option" where
  "cli_step P with_libidn2 prog opt rest st =
     (if opt = asc ''--help'' then Some CLI_HELP
      else case flag_option opt of Some f \<Rightarrow> Some (CLI_NEXT (f st) rest)
      | None \<Rightarrow> case map_of value_options opt of
          None \<Rightarrow> Some (CLI_FAIL (fail_with_error prog ''unknown option.''))
        | Some missing \<Rightarrow>
          if \<not> has_value rest then Some (CLI_FAIL (fail_with_error prog missing))
          else do {
            r \<leftarrow> value_step P with_libidn2 prog opt (hd rest) st;
            Some (case r of Inl err \<Rightarrow> CLI_FAIL err | Inr st1 \<Rightarrow> CLI_NEXT st1 (tl rest))
          })"

section \<open>The command line\<close>

text \<open>The checks after the loop: an error, or 0; a division by zero would be the outer \<open>None\<close>.\<close>

definition cli_app_filters :: "app_config \<Rightarrow> bool" where
  "cli_app_filters c \<longleftrightarrow> filter_app_enabled c \<or> filter_http_host_enabled c \<or> filter_http_method_enabled c \<or>
     filter_dns_query_enabled c \<or> filter_dns_type_enabled c \<or> filter_tls_sni_enabled c \<or> filter_tls_alpn_enabled c \<or>
     filter_dhcp_type_enabled c \<or> filter_quic_version_enabled c"

definition cli_check :: "bytes \<Rightarrow> cli_state \<Rightarrow> bytes option option" where
  "cli_check prog st =
     (let c = cl_config st; failing = (\<lambda>m. Some (Some (fail_with_error prog m))) in
      if reassemble c \<and> \<not> decode_app c then failing ''--reassemble requires --decode-app.''
      else if \<not> reassemble c \<and> (max_flows_was_set st \<or> stream_buffer_was_set st \<or> flow_timeout_was_set st) then
        failing ''stream buffer and flow table settings require --reassemble.''
      else if reassemble c \<and> cfg_max_flows c > 1024 then failing ''--max-flows exceeds the supported safety limit.''
      else if reassemble c \<and> stream_buffer_bytes c > 1048576 then
        failing ''--stream-buffer-bytes exceeds the supported safety limit.''
      else do {
        per_flow \<leftarrow> (if \<not> reassemble c then Some 0
                    else if stream_buffer_bytes c = 0 then None else Some (134217728 div 4 div stream_buffer_bytes c));
        if reassemble c \<and> cfg_max_flows c > per_flow then
          failing ''requested flow buffers exceed the aggregate memory limit.''
        else if \<not> decode_app c \<and> cli_app_filters c then failing ''app filters require --decode-app.''
        else Some None
      })"

text \<open>
  The answer: \<open>Inl\<close> the text on standard error where the function returns 1, or \<open>Inr\<close> the text on standard
  output and the configuration where it returns 0.
\<close>

lemma cli_step_shorter:
  "cli_step P w prog opt rest st = Some (CLI_NEXT st' rest') \<Longrightarrow> length rest' \<le> length rest"
  by (auto simp: cli_step_def has_value_def split: if_splits option.splits Option.bind_splits sum.splits)

function cli_loop :: "platform \<Rightarrow> bool \<Rightarrow> bytes \<Rightarrow> bytes list \<Rightarrow> cli_state \<Rightarrow> (bytes + (bytes \<times> app_config)) option" where
  "cli_loop P w prog args st =
     (case args of
        [] \<Rightarrow> map_option (\<lambda>r. case r of Some err \<Rightarrow> Inl err | None \<Rightarrow> Inr ([], cl_config st)) (cli_check prog st)
      | opt # rest \<Rightarrow>
        (case cli_step P w prog opt rest st of
           None \<Rightarrow> None
         | Some CLI_HELP \<Rightarrow> Some (Inr (cli_print_usage (Some prog), cl_config st))
         | Some (CLI_FAIL err) \<Rightarrow> Some (Inl err)
         | Some (CLI_NEXT st1 rest1) \<Rightarrow> cli_loop P w prog rest1 st1))"
  by pat_completeness auto
termination
  by (relation "measure (\<lambda>(P, w, prog, args, st). length args)") (auto dest: cli_step_shorter)

declare cli_loop.simps [simp del]

definition cli_parse_args :: "platform \<Rightarrow> bool \<Rightarrow> bytes list \<Rightarrow> app_config option \<Rightarrow>
    (bytes + (bytes \<times> app_config)) option" where
  "cli_parse_args P with_libidn2 argv config =
     (let program_name = (case argv of [] \<Rightarrow> asc ''MiniSniffer'' | p # _ \<Rightarrow> p) in
      case config of None \<Rightarrow> Some (Inl (fail_with_error program_name ''internal configuration is unavailable.''))
      | Some c \<Rightarrow> cli_loop P with_libidn2 program_name (tl argv)
          \<lparr>cl_config = c, max_flows_was_set = False, stream_buffer_was_set = False, flow_timeout_was_set = False\<rparr>)"

end
