(* ===== verification/Cli_Safety.thy ===== *)
theory Cli_Safety
  imports Cli Capture_Start
begin

text \<open>
  What an accepted command line gives the capture: a configuration whose strings end in their arrays, whose
  patterns lie in theirs and whose numbers are within the limits of \<open>src/include/config.h\<close>. Every option keeps
  the invariant; the limits that need several options are established by the checks at the end.
\<close>

section \<open>The invariant of the options\<close>

definition config_ok :: "bool \<Rightarrow> app_config \<Rightarrow> bool" where
  "config_ok with_libidn2 c \<longleftrightarrow> filter_config_ok c \<and> config_texts_ok c \<and> count_ok c \<and>
     length (interface_name c) = 64 \<and> length (read_path c) = 256 \<and> length (write_path c) = 256 \<and> length (log_path c) = 256 \<and>
     length (filter_payload_text c) = 128 \<and> length (filter_payload_hex c) = 128 \<and>
     (filter_payload_text_enabled c \<longrightarrow> 0 < filter_payload_text_length c) \<and>
     (filter_payload_hex_enabled c \<longrightarrow> 0 < filter_payload_hex_length c) \<and>
     0 < payload_preview_bytes c \<and> payload_preview_bytes c \<le> 256 \<and>
     0 < payload_decode_bytes c \<and> payload_decode_bytes c \<le> 65535 \<and>
     0 < cfg_max_flows c \<and> 0 < stream_buffer_bytes c \<and>
     (domain_match_mode c = DOMAIN_MATCH_IDNA \<longrightarrow> with_libidn2)"

text \<open>What the checks after the options add.\<close>

definition config_limits :: "app_config \<Rightarrow> bool" where
  "config_limits c \<longleftrightarrow> (reassemble c \<longrightarrow> decode_app c \<and> cfg_max_flows c \<le> 1024 \<and> stream_buffer_bytes c \<le> 1048576 \<and>
       cfg_max_flows c * (4 * stream_buffer_bytes c) \<le> 134217728) \<and>
     (cli_app_filters c \<longrightarrow> decode_app c)"

lemmas config_ok_simps = config_ok_def filter_config_ok_def config_texts_ok_def count_ok_def

lemma defaults_ok: "config_ok w config_init_defaults"
  by (simp add: config_ok_simps config_init_defaults_def)

section \<open>Values\<close>

lemma copy_arg_ok: "copy_arg dst v = Some b \<Longrightarrow> terminated (length dst) b"
  by (auto simp: copy_arg_def terminated_def mem_simps split: if_splits)

lemma positive_int_ok: "parse_positive_int v = Some n \<Longrightarrow> 0 < n \<and> n < 2 ^ 31"
  by (auto simp: parse_positive_int_def split: if_splits option.splits prod.splits)

lemma positive_size_ok: "parse_positive_size v = Some n \<Longrightarrow> 0 < n"
  by (auto simp: parse_positive_size_def split: if_splits option.splits prod.splits)

lemma at_most_ok: "at_most l p = Some n \<longleftrightarrow> p = Some n \<and> n \<le> l"
  by (auto simp: at_most_def split: option.splits if_splits)

lemma parse_ip_host_ok: "platform_ok P \<Longrightarrow> length dst = 46 \<Longrightarrow> parse_ip_host P v dst = Some b \<Longrightarrow> terminated 46 b"
  by (auto simp: parse_ip_host_def ntop_into_def put_str_terminated split: option.splits if_splits)

lemma domain_match_ok: "parse_domain_match_mode w v = Inr m \<Longrightarrow> m = DOMAIN_MATCH_IDNA \<Longrightarrow> w"
  by (auto simp: parse_domain_match_mode_def split: if_splits)

lemma hex_loop_ok:
  assumes "length buf = 128" "n \<le> 128"
  shows "\<exists>r. hex_pattern_loop t h buf n = Some r \<and>
    (\<forall>b k. r = Some (b, k) \<longrightarrow> length b = 128 \<and> 0 < k \<and> k \<le> 128)"
  using assms
proof (induction t h buf n rule: hex_pattern_loop.induct)
  case (2 c t h buf n)
  then show ?case by (auto simp: Let_def mem_simps)
qed auto

section \<open>Every option keeps the invariant\<close>

lemma set_or_Inr: "set_or e p f st = Inr st' \<longleftrightarrow> (\<exists>x. p = Some x \<and> st' = upd (f x) st)"
  by (auto simp: set_or_def split: option.splits)

text \<open>Settings that the invariant does not speak of, and what it asks of the others.\<close>

named_theorems keeps \<open>settings that keep the invariant\<close>

lemma plain_settings [keeps]:
  "config_ok w (c\<lparr>version_requested := x0\<rparr>) = config_ok w c"
  "config_ok w (c\<lparr>list_interfaces := x1\<rparr>) = config_ok w c"
  "config_ok w (c\<lparr>quiet := x2\<rparr>) = config_ok w c"
  "config_ok w (c\<lparr>verbose := x3\<rparr>) = config_ok w c"
  "config_ok w (c\<lparr>color_enabled := x4\<rparr>) = config_ok w c"
  "config_ok w (c\<lparr>json_output := x5\<rparr>) = config_ok w c"
  "config_ok w (c\<lparr>no_bpf := x6\<rparr>) = config_ok w c"
  "config_ok w (c\<lparr>payload_display_enabled := x7\<rparr>) = config_ok w c"
  "config_ok w (c\<lparr>decode_app := x8\<rparr>) = config_ok w c"
  "config_ok w (c\<lparr>reassemble := x9\<rparr>) = config_ok w c"
  "config_ok w (c\<lparr>stats_mode := x10\<rparr>) = config_ok w c"
  "config_ok w (c\<lparr>logging_enabled := x11\<rparr>) = config_ok w c"
  "config_ok w (c\<lparr>read_path_enabled := x12\<rparr>) = config_ok w c"
  "config_ok w (c\<lparr>write_path_enabled := x13\<rparr>) = config_ok w c"
  "config_ok w (c\<lparr>filter_http_host_enabled := x14\<rparr>) = config_ok w c"
  "config_ok w (c\<lparr>filter_http_method_enabled := x15\<rparr>) = config_ok w c"
  "config_ok w (c\<lparr>filter_dns_query_enabled := x16\<rparr>) = config_ok w c"
  "config_ok w (c\<lparr>filter_tls_sni_enabled := x17\<rparr>) = config_ok w c"
  "config_ok w (c\<lparr>filter_tls_alpn_enabled := x18\<rparr>) = config_ok w c"
  "config_ok w (c\<lparr>filter_protocol := x19\<rparr>) = config_ok w c"
  "config_ok w (c\<lparr>filter_protocol_enabled := x20\<rparr>) = config_ok w c"
  "config_ok w (c\<lparr>filter_port := x21\<rparr>) = config_ok w c"
  "config_ok w (c\<lparr>filter_port_enabled := x22\<rparr>) = config_ok w c"
  "config_ok w (c\<lparr>filter_host_enabled := x23\<rparr>) = config_ok w c"
  "config_ok w (c\<lparr>filter_app_protocol := x24\<rparr>) = config_ok w c"
  "config_ok w (c\<lparr>filter_app_enabled := x25\<rparr>) = config_ok w c"
  "config_ok w (c\<lparr>filter_dns_type := x26\<rparr>) = config_ok w c"
  "config_ok w (c\<lparr>filter_dns_type_enabled := x27\<rparr>) = config_ok w c"
  "config_ok w (c\<lparr>filter_dhcp_type := x28\<rparr>) = config_ok w c"
  "config_ok w (c\<lparr>filter_dhcp_type_enabled := x29\<rparr>) = config_ok w c"
  "config_ok w (c\<lparr>filter_quic_version := x30\<rparr>) = config_ok w c"
  "config_ok w (c\<lparr>filter_quic_version_enabled := x31\<rparr>) = config_ok w c"
  "config_ok w (c\<lparr>log_flush_mode := x32\<rparr>) = config_ok w c"
  "config_ok w (c\<lparr>flow_timeout_seconds := x33\<rparr>) = config_ok w c"
  by (simp_all add: config_ok_simps)

lemma text_arrays:
  assumes "config_ok w c"
  shows "length (interface_name c) = 64"
    "length (log_path c) = 256"
    "length (read_path c) = 256"
    "length (write_path c) = 256"
    "length (filter_http_host c) = 256"
    "length (filter_http_method c) = 16"
    "length (filter_dns_query c) = 256"
    "length (filter_tls_sni c) = 256"
    "length (filter_tls_alpn c) = 256"
  using assms by (simp_all add: config_ok_simps terminated_def)

lemma text_settings_terminated:
  assumes "config_ok w c"
  shows
    "terminated 64 b \<Longrightarrow> config_ok w (c\<lparr>interface_name := b\<rparr>)"
    "terminated 256 b \<Longrightarrow> config_ok w (c\<lparr>log_path := b\<rparr>)"
    "terminated 256 b \<Longrightarrow> config_ok w (c\<lparr>read_path := b\<rparr>)"
    "terminated 256 b \<Longrightarrow> config_ok w (c\<lparr>write_path := b\<rparr>)"
    "terminated 256 b \<Longrightarrow> config_ok w (c\<lparr>filter_http_host := b\<rparr>)"
    "terminated 16 b \<Longrightarrow> config_ok w (c\<lparr>filter_http_method := b\<rparr>)"
    "terminated 256 b \<Longrightarrow> config_ok w (c\<lparr>filter_dns_query := b\<rparr>)"
    "terminated 256 b \<Longrightarrow> config_ok w (c\<lparr>filter_tls_sni := b\<rparr>)"
    "terminated 256 b \<Longrightarrow> config_ok w (c\<lparr>filter_tls_alpn := b\<rparr>)"
  using assms by (simp_all add: config_ok_simps terminated_def)

lemma text_settings [keeps]:
  assumes "config_ok w c"
  shows
    "copy_arg (interface_name c) v = Some b \<Longrightarrow> config_ok w (c\<lparr>interface_name := b\<rparr>)"
    "copy_arg (log_path c) v = Some b \<Longrightarrow> config_ok w (c\<lparr>log_path := b\<rparr>)"
    "copy_arg (read_path c) v = Some b \<Longrightarrow> config_ok w (c\<lparr>read_path := b\<rparr>)"
    "copy_arg (write_path c) v = Some b \<Longrightarrow> config_ok w (c\<lparr>write_path := b\<rparr>)"
    "copy_arg (filter_http_host c) v = Some b \<Longrightarrow> config_ok w (c\<lparr>filter_http_host := b\<rparr>)"
    "copy_arg (filter_http_method c) v = Some b \<Longrightarrow> config_ok w (c\<lparr>filter_http_method := b\<rparr>)"
    "copy_arg (filter_dns_query c) v = Some b \<Longrightarrow> config_ok w (c\<lparr>filter_dns_query := b\<rparr>)"
    "copy_arg (filter_tls_sni c) v = Some b \<Longrightarrow> config_ok w (c\<lparr>filter_tls_sni := b\<rparr>)"
    "copy_arg (filter_tls_alpn c) v = Some b \<Longrightarrow> config_ok w (c\<lparr>filter_tls_alpn := b\<rparr>)"
  using text_settings_terminated [OF assms, of b] copy_arg_ok [of _ v b] text_arrays [OF assms] by metis+

lemma value_settings [keeps]:
  assumes "config_ok w c"
  shows "0 < n \<Longrightarrow> n < 2 ^ 31 \<Longrightarrow> config_ok w (c\<lparr>max_packets := n\<rparr>)"
    "0 < k \<Longrightarrow> k \<le> 256 \<Longrightarrow> config_ok w (c\<lparr>payload_preview_bytes := k\<rparr>)"
    "0 < k \<Longrightarrow> k \<le> 65535 \<Longrightarrow> config_ok w (c\<lparr>payload_decode_bytes := k\<rparr>)"
    "0 < k \<Longrightarrow> config_ok w (c\<lparr>cfg_max_flows := k\<rparr>)" "0 < k \<Longrightarrow> config_ok w (c\<lparr>stream_buffer_bytes := k\<rparr>)"
    "terminated 46 b \<Longrightarrow> config_ok w (c\<lparr>filter_host := b\<rparr>)"
    "(m = DOMAIN_MATCH_IDNA \<Longrightarrow> w) \<Longrightarrow> config_ok w (c\<lparr>domain_match_mode := m\<rparr>)"
    "length b = 128 \<Longrightarrow> 0 < k \<Longrightarrow> k \<le> 128 \<Longrightarrow>
       config_ok w (c\<lparr>filter_payload_text := b, filter_payload_text_length := k, filter_payload_text_enabled := x\<rparr>)"
    "length b = 128 \<Longrightarrow> 0 < k \<Longrightarrow> k \<le> 128 \<Longrightarrow>
       config_ok w (c\<lparr>filter_payload_hex := b, filter_payload_hex_length := k, filter_payload_hex_enabled := x\<rparr>)"
  using assms by (simp_all add: config_ok_simps)

lemma flag_option_ok: "flag_option opt = Some f \<Longrightarrow> config_ok w (cl_config st) \<Longrightarrow> config_ok w (cl_config (f st))"
  by (auto simp: flag_option_def keeps split: if_splits)

lemma text_option_ok:
  assumes "text_option prog opt v st = Some (Inr st')" "config_ok w (cl_config st)"
  shows "config_ok w (cl_config st')"
  using assms(1) by (auto simp: text_option_def Let_def set_or_Inr keeps text_settings [OF assms(2)] split: if_splits)

lemma limit_option_ok:
  assumes "limit_option prog opt v st = Some (Inr st')" "config_ok w (cl_config st)"
  shows "config_ok w (cl_config st')"
  using assms(1)
  by (auto simp: limit_option_def set_or_Inr at_most_ok keeps assms(2) value_settings [OF assms(2)]
      dest!: positive_int_ok positive_size_ok split: if_splits)

lemma text_pattern_ok:
  assumes "config_ok w (cl_config st)"
  shows "\<exists>r. set_text_pattern prog v st = Some r \<and> (\<forall>st'. r = Inr st' \<longrightarrow> config_ok w (cl_config st'))"
proof -
  have "length (filter_payload_text (cl_config st)) = 128" using assms by (simp add: config_ok_def)
  then show ?thesis using value_settings(8) [OF assms] by (auto simp: set_text_pattern_def mem_simps)
qed

lemma hex_pattern_ok:
  assumes "config_ok w (cl_config st)"
  shows "\<exists>r. set_hex_pattern prog v st = Some r \<and> (\<forall>st'. r = Inr st' \<longrightarrow> config_ok w (cl_config st'))"
proof -
  have l: "length (filter_payload_hex (cl_config st)) = 128" using assms by (simp add: config_ok_def)
  have "\<exists>p. parse_payload_hex_pattern v (filter_payload_hex (cl_config st)) = Some p \<and>
    (\<forall>b k. p = Some (b, k) \<longrightarrow> length b = 128 \<and> 0 < k \<and> k \<le> 128)"
    using hex_loop_ok [OF l, of 0 v "-1"] by (simp add: parse_payload_hex_pattern_def)
  then show ?thesis using value_settings(9) [OF assms] by (auto simp: set_hex_pattern_def set_or_Inr)
qed

lemma domain_option_ok:
  assumes "set_domain_match prog w v st = Inr st'" "config_ok w (cl_config st)"
  shows "config_ok w (cl_config st')"
  using assms(1) domain_match_ok [of w v] value_settings(7) [OF assms(2)]
  by (auto simp: set_domain_match_def split: sum.splits)

lemma filter_option_ok:
  assumes "platform_ok P" "config_ok w (cl_config st)" "filter_option P w prog opt v st = Some r"
  shows "\<exists>x. r = Some x \<and> (\<forall>st'. x = Inr st' \<longrightarrow> config_ok w (cl_config st'))"
proof -
  have h: "length (filter_host (cl_config st)) = 46" using assms(2) by (simp add: config_ok_simps terminated_def)
  obtain t where t: "set_text_pattern prog v st = Some t" "\<forall>st'. t = Inr st' \<longrightarrow> config_ok w (cl_config st')"
    using text_pattern_ok [OF assms(2)] by blast
  obtain x where x: "set_hex_pattern prog v st = Some x" "\<forall>st'. x = Inr st' \<longrightarrow> config_ok w (cl_config st')"
    using hex_pattern_ok [OF assms(2)] by blast
  show ?thesis
    using assms(3) t(2) x(2) domain_option_ok [OF _ assms(2), of prog v] parse_ip_host_ok [OF assms(1) h]
    by (auto simp: filter_option_def set_or_Inr keeps assms(2) t(1) x(1) value_settings(6) [OF assms(2)] split: if_splits)
qed

lemma value_step_ok:
  assumes "platform_ok P" "config_ok w (cl_config st)"
  shows "\<exists>x. value_step P w prog opt v st = Some x \<and> (\<forall>st'. x = Inr st' \<longrightarrow> config_ok w (cl_config st'))"
proof (cases "text_option prog opt v st")
  case None
  note t = None
  show ?thesis
  proof (cases "filter_option P w prog opt v st")
    case None
    then show ?thesis using t limit_option_ok [OF _ assms(2), of prog opt v]
      by (cases "limit_option prog opt v st") (auto simp: value_step_def)
  next
    case (Some r)
    then show ?thesis using t filter_option_ok [OF assms Some] by (simp add: value_step_def)
  qed
next
  case (Some r)
  then show ?thesis using text_option_ok [OF _ assms(2), of prog opt v] by (auto simp: value_step_def)
qed

lemma cli_step_ok:
  assumes "platform_ok P" "config_ok w (cl_config st)"
  shows "\<exists>x. cli_step P w prog opt rest st = Some x \<and>
    (\<forall>st' rest'. x = CLI_NEXT st' rest' \<longrightarrow> config_ok w (cl_config st') \<and> set rest' \<subseteq> set rest) \<and>
    (x = CLI_HELP \<longrightarrow> opt = asc ''--help'')"
proof (cases "opt = asc ''--help''")
  case False
  show ?thesis
  proof (cases "flag_option opt")
    case (Some f)
    then show ?thesis using False flag_option_ok [OF Some assms(2)] by (simp add: cli_step_def)
  next
    case None
    obtain r where r: "value_step P w prog opt (hd rest) st = Some r" "\<forall>st'. r = Inr st' \<longrightarrow> config_ok w (cl_config st')"
      using value_step_ok [OF assms] by blast
    have "set (tl rest) \<subseteq> set rest" by (cases rest) auto
    then show ?thesis using False None r by (auto simp: cli_step_def split: option.splits sum.splits)
  qed
qed (simp add: cli_step_def)

lemma cli_check_ok:
  assumes "config_ok w (cl_config st)"
  shows "\<exists>r. cli_check prog st = Some r \<and> (r = None \<longrightarrow> config_limits (cl_config st))"
proof -
  let ?c = "cl_config st"
  have b: "stream_buffer_bytes ?c \<noteq> 0" using assms by (simp add: config_ok_def)
  have m: "cfg_max_flows ?c * (4 * stream_buffer_bytes ?c) \<le> 134217728"
    if "cfg_max_flows ?c \<le> 134217728 div 4 div stream_buffer_bytes ?c"
    using order_trans [OF mult_le_mono1 [OF that] div_times_less_eq_dividend] by simp
  show ?thesis using b m by (auto simp: cli_check_def Let_def config_limits_def)
qed

definition cli_result_ok :: "bool \<Rightarrow> bytes list \<Rightarrow> (bytes + (bytes \<times> app_config)) \<Rightarrow> bool" where
  "cli_result_ok w args r \<longleftrightarrow> (\<forall>out c. r = Inr (out, c) \<longrightarrow>
     config_ok w c \<and> (asc ''--help'' \<notin> set args \<longrightarrow> out = [] \<and> config_limits c))"

lemma cli_loop_ok:
  "platform_ok P \<Longrightarrow> config_ok w (cl_config st) \<Longrightarrow> \<exists>r. cli_loop P w prog args st = Some r \<and> cli_result_ok w args r"
proof (induction P w prog args st rule: cli_loop.induct)
  case (1 P w prog args st)
  show ?case
  proof (cases args)
    case Nil
    obtain r where "cli_check prog st = Some r" "r = None \<longrightarrow> config_limits (cl_config st)"
      using cli_check_ok [OF "1.prems"(2)] by blast
    then show ?thesis using Nil "1.prems"(2)
      by (subst cli_loop.simps) (auto simp: cli_result_ok_def split: option.splits)
  next
    case (Cons opt rest)
    obtain x where x: "cli_step P w prog opt rest st = Some x"
      "\<forall>st' rest'. x = CLI_NEXT st' rest' \<longrightarrow> config_ok w (cl_config st') \<and> set rest' \<subseteq> set rest"
      "x = CLI_HELP \<longrightarrow> opt = asc ''--help''"
      using cli_step_ok [OF "1.prems"] by blast
    note step = Cons cli_loop.simps [of P w prog "opt # rest" st] x(1)
    show ?thesis
    proof (cases x)
      case (CLI_NEXT st' rest')
      then obtain r where "cli_loop P w prog rest' st' = Some r" "cli_result_ok w rest' r"
        using "1.IH" [OF Cons x(1) CLI_NEXT "1.prems"(1)] x(2) by blast
      then show ?thesis using CLI_NEXT x(2) by (auto simp: step cli_result_ok_def)
    next
      case CLI_HELP
      then have "cli_loop P w prog args st = Some (Inr (cli_print_usage (Some prog), cl_config st))" by (simp add: step)
      then show ?thesis using CLI_HELP x(3) Cons "1.prems"(2) by (simp add: cli_result_ok_def)
    next
      case (CLI_FAIL err)
      then show ?thesis by (simp add: step cli_result_ok_def)
    qed
  qed
qed

text \<open>What an accepted command line establishes.\<close>

lemma parse_args_ok:
  assumes "platform_ok P" "config_ok w c"
  shows "\<exists>r. cli_parse_args P w argv (Some c) = Some r \<and> cli_result_ok w (tl argv) r"
proof -
  obtain r where "cli_loop P w (case argv of [] \<Rightarrow> asc ''MiniSniffer'' | p # _ \<Rightarrow> p) (tl argv)
      \<lparr>cl_config = c, max_flows_was_set = False, stream_buffer_was_set = False, flow_timeout_was_set = False\<rparr> = Some r"
    "cli_result_ok w (tl argv) r"
    using cli_loop_ok [OF assms(1), of w "\<lparr>cl_config = c, max_flows_was_set = False, stream_buffer_was_set = False, flow_timeout_was_set = False\<rparr>"]
      assms(2) by auto
  then show ?thesis by (simp add: cli_parse_args_def Let_def)
qed

text \<open>C0. Any command line is handled safely, and an accepted one gives a configuration the capture can use.
  For every list of arguments the parser stays inside the arrays of the configuration and never divides by zero. If it
  accepts them, every text ends in its array, every pattern is non-empty and lies in its array, the preview is 1 to 256 bytes
  and the decode limit 1 to 65535, and IDNA matching is chosen only when it is built in. Unless \<open>--help\<close> ended the
  parse, reassembly comes with decoding and stays within 1024 flows, 1 MiB for a buffer and 128 MiB in all, and a
  filter on application metadata comes with decoding.\<close>

theorem cli_config_safe:
  assumes "platform_ok P"
  shows "\<exists>r. cli_parse_args P with_libidn2 argv (Some config_init_defaults) = Some r \<and>
    (\<forall>out c. r = Inr (out, c) \<longrightarrow> config_ok with_libidn2 c \<and>
       (asc ''--help'' \<notin> set (tl argv) \<longrightarrow> out = [] \<and> config_limits c))"
  using parse_args_ok [OF assms defaults_ok, of with_libidn2 argv] by (simp add: cli_result_ok_def)

lemma cli_config_safe_witness:
  "\<exists>r. cli_parse_args ex_platform False (map asc [''MiniSniffer'', ''--max-flows'', ''8'', ''--reassemble'']) (Some config_init_defaults) = Some r"
  using cli_config_safe [OF ex_platform_ok, of False "map asc [''MiniSniffer'', ''--max-flows'', ''8'', ''--reassemble'']"] by blast

section \<open>Payload patterns\<close>

text \<open>A hexadecimal pattern in words: without its separators the text is an even number of hexadecimal digits, two for
  each byte.\<close>

definition is_separator :: "u8 \<Rightarrow> bool" where
  "is_separator c \<longleftrightarrow> isspace c \<or> c = 58 \<or> c = 45"

fun nibble_pairs :: "bytes \<Rightarrow> bytes option" where
  "nibble_pairs [] = Some []"
| "nibble_pairs [d] = None"
| "nibble_pairs (d # e # ds) =
     (if cli_hex_value d < 0 \<or> cli_hex_value e < 0 then None
      else map_option ((#) (of_int (cli_hex_value d * 16 + cli_hex_value e))) (nibble_pairs ds))"


definition pending_pairs :: "int \<Rightarrow> bytes \<Rightarrow> bytes option" where
  "pending_pairs h ds =
     (if h < 0 then nibble_pairs ds
      else case ds of [] \<Rightarrow> None
      | e # es \<Rightarrow> if cli_hex_value e < 0 then None
          else map_option ((#) (of_int (h * 16 + cli_hex_value e))) (nibble_pairs es))"

lemma pending_simps:
  "h < 0 \<Longrightarrow> cli_hex_value c < 0 \<Longrightarrow> pending_pairs h (c # ds) = None"
  "h < 0 \<Longrightarrow> \<not> cli_hex_value c < 0 \<Longrightarrow> pending_pairs h (c # ds) = pending_pairs (cli_hex_value c) ds"
  "\<not> h < 0 \<Longrightarrow> pending_pairs h (c # ds) = (if cli_hex_value c < 0 then None
      else map_option ((#) (of_int (h * 16 + cli_hex_value c))) (pending_pairs (-1) ds))"
  "pending_pairs h [] = (if h < 0 then Some [] else None)"
  by (cases ds; simp add: pending_pairs_def)+

text \<open>The bytes written from position \<open>n\<close> on, when they fit.\<close>

definition filled :: "bytes \<Rightarrow> nat \<Rightarrow> bytes option \<Rightarrow> (bytes \<times> nat) option" where
  "filled buf n parsed =
     (case parsed of None \<Rightarrow> None
      | Some bs \<Rightarrow> if n + length bs = 0 \<or> n + length bs > 128 then None
          else Some (take n buf @ bs @ drop (n + length bs) buf, n + length bs))"

lemma filled_write:
  assumes "length buf = 128" "n < 128"
  shows "filled (buf[n := x]) (Suc n) parsed = filled buf n (map_option ((#) x) parsed)"
  using assms by (auto simp: filled_def take_Suc_conv_app_nth split: option.split)

lemma hex_loop_exact:
  assumes "length buf = 128" "n \<le> 128"
  shows "hex_pattern_loop t h buf n = Some (filled buf n (pending_pairs h (filter (\<lambda>c. \<not> is_separator c) t)))"
  using assms
proof (induction t h buf n rule: hex_pattern_loop.induct)
  case (1 h buf n)
  then show ?case by (simp add: pending_simps filled_def)
next
  case (2 c t h buf n)
  show ?case
  proof (cases "is_separator c")
    case True
    then show ?thesis using 2 by (auto simp: is_separator_def)
  next
    case False
    then have ns: "\<not> (isspace c \<or> c = 58 \<or> c = 45)" by (simp add: is_separator_def)
    show ?thesis
    proof (cases "cli_hex_value c < 0 \<or> h < 0")
      case True
      then show ?thesis using "2.prems" "2.IH"(2) [OF ns refl] ns False
        by (auto simp: Let_def pending_simps filled_def)
    next
      case go: False
      show ?thesis
      proof (cases "n < 128")
        case True
        then show ?thesis using "2.IH"(3) [OF ns refl, of "buf[n := of_int (h * 16 + cli_hex_value c)]"] go ns False "2.prems"
          by (simp add: Let_def pending_simps mem_simps filled_write)
      next
        case False
        then show ?thesis using go ns \<open>\<not> is_separator c\<close> "2.prems"
          by (auto simp: Let_def pending_simps filled_def split: option.split)
      qed
    qed
  qed
qed

text \<open>C0. A payload pattern is what it says. For every argument, the hexadecimal digits that remain when the separators (white space, colons,
  hyphens) are left out are read in pairs; the pattern is accepted exactly when there is an even number of digits, nothing else, and between
  1 and 128 bytes, and then the array starts with exactly these bytes and nothing is written outside it.\<close>

theorem hex_pattern_exact:
  assumes "length buf = 128"
  shows "parse_payload_hex_pattern t buf =
    Some (case nibble_pairs (filter (\<lambda>c. \<not> is_separator c) t) of None \<Rightarrow> None
      | Some bs \<Rightarrow> if bs = [] \<or> length bs > 128 then None else Some (bs @ drop (length bs) buf, length bs))"
  using hex_loop_exact [OF assms, of 0 t "-1"]
  by (auto simp: parse_payload_hex_pattern_def pending_pairs_def filled_def split: option.split)

lemma hex_pattern_exact_witness:
  "\<exists>b. parse_payload_hex_pattern (asc ''47:45-5 4'') (replicate 128 0) = Some (Some (b, 3)) \<and> take 3 b = [0x47, 0x45, 0x54]"
  using hex_pattern_exact [of "replicate 128 0" "asc ''47:45-5 4''"]
  by (simp add: asc_def is_separator_def isspace_def cli_hex_value_def)

end
