(* ===== verification/Main_Program.thy ===== *)
theory Main_Program
  imports Cli_Safety
begin

text \<open>
  \<open>src/main.c\<close>: the program. The build has libidn2 exactly when the environment has a lookup function.
  The answer of \<open>main_run\<close> is the exit status (\<open>None\<close> while a capture waits for its next event) and the
  state, whose \<open>cs_stdout\<close> is everything written to standard output.
\<close>

section \<open>The startup summary\<close>

definition app_filter_protocol_name :: "AppProtocol \<Rightarrow> string" where
  "app_filter_protocol_name p = (case p of
      APP_PROTO_HTTP \<Rightarrow> ''http'' | APP_PROTO_DNS \<Rightarrow> ''dns'' | APP_PROTO_TLS \<Rightarrow> ''tls''
    | APP_PROTO_DHCP \<Rightarrow> ''dhcp'' | APP_PROTO_MDNS \<Rightarrow> ''mdns'' | APP_PROTO_QUIC \<Rightarrow> ''quic''
    | APP_PROTO_UNKNOWN \<Rightarrow> ''unknown'')"

definition args_requested_help :: "bytes list \<Rightarrow> bool" where
  "args_requested_help argv \<longleftrightarrow> asc ''--help'' \<in> set (tl argv)"

definition summary_line :: "string \<Rightarrow> bytes option \<Rightarrow> bytes option" where
  "summary_line label v = cat [lit label, v, Some [10]]"

definition enabled_text :: "bool \<Rightarrow> bytes option" where
  "enabled_text b = lit (if b then ''enabled'' else ''disabled'')"

definition out_bytes :: "nat \<Rightarrow> bytes option" where
  "out_bytes n = cat [out_u n, lit '' bytes'']"

definition verbose_summary :: "app_config \<Rightarrow> bytes option" where
  "verbose_summary c = cat [
     summary_line ''Stats mode: '' (enabled_text (stats_mode c)),
     summary_line ''App decoding: '' (enabled_text (decode_app c)),
     summary_line ''TCP reassembly: '' (enabled_text (reassemble c)),
     summary_line ''Payload decode cap: '' (out_bytes (payload_decode_bytes c)),
     summary_line ''Max flows: '' (out_u (cfg_max_flows c)),
     summary_line ''Stream buffer cap: '' (out_bytes (stream_buffer_bytes c)),
     summary_line ''Flow timeout: '' (cat [out_u (unat (flow_timeout_seconds c)), lit '' seconds'']),
     when_out (filter_protocol_enabled c) (summary_line ''Protocol filter: '' (lit (protocol_to_string (filter_protocol c)))),
     when_out (filter_port_enabled c) (summary_line ''Port filter: '' (out_u (unat (filter_port c)))),
     when_out (filter_host_enabled c) (summary_line ''Host filter: '' (c_str (filter_host c))),
     when_out (filter_payload_text_enabled c) (summary_line ''Payload text filter: '' (out_bytes (filter_payload_text_length c))),
     when_out (filter_payload_hex_enabled c) (summary_line ''Payload hex filter: '' (out_bytes (filter_payload_hex_length c))),
     when_out (payload_display_enabled c) (summary_line ''Payload preview: '' (out_bytes (payload_preview_bytes c))),
     when_out (filter_app_enabled c) (summary_line ''App filter: '' (lit (app_filter_protocol_name (filter_app_protocol c)))),
     when_out (filter_http_host_enabled c) (summary_line ''HTTP host filter: '' (c_str (filter_http_host c))),
     when_out (filter_http_method_enabled c) (summary_line ''HTTP method filter: '' (c_str (filter_http_method c))),
     when_out (filter_dns_query_enabled c) (summary_line ''DNS query filter: '' (c_str (filter_dns_query c))),
     when_out (filter_dns_type_enabled c) (summary_line ''DNS type filter: '' (out_u (unat (filter_dns_type c)))),
     when_out (filter_tls_sni_enabled c) (summary_line ''TLS SNI filter: '' (c_str (filter_tls_sni c))),
     when_out (filter_tls_alpn_enabled c) (summary_line ''TLS ALPN filter: '' (c_str (filter_tls_alpn c))),
     when_out (filter_dhcp_type_enabled c) (summary_line ''DHCP type filter: '' (out_u (unat (filter_dhcp_type c)))),
     when_out (filter_quic_version_enabled c)
       (summary_line ''QUIC version filter: 0x'' (Some (hex_fixed 8 (unat (filter_quic_version c))))),
     when_out (logging_enabled c) (summary_line ''Log file: '' (c_str (log_path c)))]"

definition print_startup_summary :: "app_config option \<Rightarrow> bytes option" where
  "print_startup_summary config =
     (case config of None \<Rightarrow> Some []
      | Some c \<Rightarrow>
        if quiet c \<or> json_output c then Some []
        else do {
          first \<leftarrow> rd (interface_name c) 0;
          cat [lit ''MiniSniffer starting...'', Some [10],
            (if read_path_enabled c then summary_line ''Input pcap: '' (c_str (read_path c))
             else summary_line ''Interface: '' (if first = 0 then lit ''default'' else c_str (interface_name c))),
            (if max_packets c = 0 then cat [lit ''Max packets: unlimited'', Some [10]]
             else summary_line ''Max packets: '' (Some (out_ld (max_packets c)))),
            when_out (verbose c) (verbose_summary c)]
        })"

section \<open>The program\<close>

definition say :: "bytes \<Rightarrow> capture_state \<Rightarrow> capture_state" where
  "say out s = s\<lparr>cs_stdout := cs_stdout s @ out\<rparr>"

definition main_run :: "capture_env \<Rightarrow> capture_answers \<Rightarrow> bytes list \<Rightarrow> capture_event list \<Rightarrow>
    (int option \<times> capture_state) option" where
  "main_run E A argv evs = do {
     parsed \<leftarrow> cli_parse_args (ce_platform E) (ce_idna E \<noteq> None) argv (Some config_init_defaults);
     case parsed of
       Inl err \<Rightarrow> Some (Some 1, capture_initial)
     | Inr (out, config) \<Rightarrow>
       let s0 = say out capture_initial in
       if args_requested_help argv then Some (Some 0, s0)
       else if version_requested config then Some (Some 0, say (asc ''MiniSniffer 0.2.0'' @ [10]) s0)
       else if list_interfaces config then
         let (r, listing) = capture_list_interfaces (net (ce_platform E)) (an_devices A) in Some (Some r, say listing s0)
       else do {
         startup \<leftarrow> print_startup_summary (Some config);
         let s1 = say startup (s0\<lparr>cs_stats := stats_init (cs_stats s0)\<rparr>);
         (capture_result, s2) \<leftarrow> capture_start (E\<lparr>ce_config := config\<rparr>) A s1 evs;
         Some (capture_result,
           if capture_result \<noteq> None \<and> stats_mode config \<and> \<not> json_output config
           then say (stats_print (cs_stats s2)) s2 else s2)
       }
   }"



section \<open>What is written before the capture\<close>

declare cat.simps(2) [simp del]

lemma written_summary [writes]: "written v \<Longrightarrow> written (summary_line l v)"
  by (simp add: summary_line_def writes)

lemma written_values [writes]: "written (out_bytes n)" "written (enabled_text b)"
  by (simp_all add: out_bytes_def enabled_text_def writes)

lemma written_verbose [writes]:
  assumes "config_ok w c"
  shows "written (verbose_summary c)"
proof -
  have "0 \<in> set (filter_host c)" "0 \<in> set (filter_http_host c)" "0 \<in> set (filter_http_method c)" "0 \<in> set (filter_dns_query c)"
    "0 \<in> set (filter_tls_sni c)" "0 \<in> set (filter_tls_alpn c)" "0 \<in> set (log_path c)"
    using assms by (simp_all add: config_ok_simps terminated_def)
  then show ?thesis by (simp add: verbose_summary_def writes)
qed

lemma startup_written:
  assumes "config_ok w c"
  shows "\<exists>b. print_startup_summary (Some c) = Some b"
proof -
  have z: "0 \<in> set (interface_name c)" "0 \<in> set (read_path c)" using assms by (simp_all add: config_ok_simps)
  obtain f where f: "rd (interface_name c) 0 = Some f" using first_byte [OF z(1)] by blast
  have "written (summary_line ''Interface: '' (if f = 0 then lit ''default'' else c_str (interface_name c)))"
    "written (summary_line ''Input pcap: '' (c_str (read_path c)))" using z by (auto simp: writes)
  then have "written (print_startup_summary (Some c))"
    using written_verbose [OF assms] by (auto simp: print_startup_summary_def f writes)
  then show ?thesis by (rule writtenD)
qed

section \<open>The whole program\<close>

lemma accepted_inputs:
  assumes "platform_ok (ce_platform E)" "allocator_ok (ce_alloc E)" "answers_ok A" "\<forall>ev \<in> set evs. event_ok ev" "config_ok w c"
  shows "capture_inputs_ok (E\<lparr>ce_config := c\<rparr>) A (say out (capture_initial\<lparr>cs_stats := stats_init st\<rparr>)) evs"
  using assms
  by (simp add: capture_inputs_ok_def env_ok_def config_ok_def fresh_state_def say_def capture_initial_def csv_logger_initial_def
      stats_init_def)

lemma say_nothing: "say [] s = s"
  by (simp add: say_def)

lemma listing_code: "capture_list_interfaces N found = (r, t) \<Longrightarrow> r = 0 \<or> r = 1"
  by (auto simp: capture_list_interfaces_def split: option.splits)

text \<open>C0. The program as a whole. For every command line, whatever the operating system and libpcap answer and whatever
  frames, timeouts, errors and signals arrive, \<open>main\<close> stays inside its buffers. A command line that is not accepted ends
  with status 1 and nothing on standard output; \<open>--help\<close> in an accepted one ends with status 0 and captures nothing.
  In every other case the status, once there is one, is 0 or 1, and by then both tables are freed and the log is closed.\<close>

theorem main_never_faults:
  assumes "platform_ok (ce_platform E)" "allocator_ok (ce_alloc E)" "answers_ok A" "\<forall>ev \<in> set evs. event_ok ev"
  shows "\<exists>parsed status s. cli_parse_args (ce_platform E) (ce_idna E \<noteq> None) argv (Some config_init_defaults) = Some parsed \<and>
    main_run E A argv evs = Some (status, s) \<and>
    ((\<exists>err. parsed = Inl err) \<longrightarrow> status = Some 1 \<and> cs_stdout s = [] \<and> cs_shown s = []) \<and>
    ((\<exists>x. parsed = Inr x) \<and> asc ''--help'' \<in> set (tl argv) \<longrightarrow> status = Some 0 \<and> cs_shown s = []) \<and>
    (\<forall>code. status = Some code \<longrightarrow> (code = 0 \<or> code = 1) \<and> cs_frags s = frag_table_zero \<and> cs_flows s = flow_table_zero \<and>
       \<not> log_file (cs_log s))"
proof -
  let ?w = "ce_idna E \<noteq> None"
  obtain parsed where p: "cli_parse_args (ce_platform E) ?w argv (Some config_init_defaults) = Some parsed"
    "cli_result_ok ?w (tl argv) parsed"
    using parse_args_ok [OF assms(1) defaults_ok, of ?w argv] by blast
  have z: "cs_frags capture_initial = frag_table_zero" "cs_flows capture_initial = flow_table_zero" "\<not> log_file (cs_log capture_initial)"
    "cs_stdout capture_initial = []" "cs_shown capture_initial = []"
    by (simp_all add: capture_initial_def csv_logger_initial_def)
  show ?thesis
  proof (cases parsed)
    case (Inl err)
    then show ?thesis using p z by (intro exI [of _ parsed] exI [of _ "Some 1"] exI [of _ capture_initial]) (simp add: main_run_def)
  next
    case (Inr x)
    obtain out c where x: "x = (out, c)" by fastforce
    have c: "config_ok ?w c" using p(2) Inr x by (simp add: cli_result_ok_def)
    define s0 where "s0 = say out capture_initial"
    have s0: "cs_frags s0 = frag_table_zero" "cs_flows s0 = flow_table_zero" "\<not> log_file (cs_log s0)" "cs_shown s0 = []"
      using z by (simp_all add: s0_def say_def)
    have tl: "(asc ''--help'' \<in> set (tl argv)) = args_requested_help argv" by (simp add: args_requested_help_def)
    define early where "early = (args_requested_help argv \<or> version_requested c \<or> list_interfaces c)"
    show ?thesis
    proof (cases early)
      case True
      obtain r t where l: "capture_list_interfaces (net (ce_platform E)) (an_devices A) = (r, t)" by fastforce
      define code where "code = (if args_requested_help argv \<or> version_requested c then 0 else r)"
      define shown where "shown = (if args_requested_help argv then [] else if version_requested c then asc ''MiniSniffer 0.2.0'' @ [10] else t)"
      have "main_run E A argv evs = Some (Some code, say shown s0)"
        using p(1) Inr x l True
        by (auto simp: main_run_def early_def Let_def s0_def [symmetric] say_nothing code_def shown_def)
      moreover have "(code = 0 \<or> code = 1) \<and> (args_requested_help argv \<longrightarrow> code = 0)"
        using listing_code [OF l] by (simp add: code_def)
      ultimately show ?thesis using p(1) Inr s0 by (auto simp: tl say_def)
    next
      case False
      obtain startup where st: "print_startup_summary (Some c) = Some startup" using startup_written [OF c] by blast
      define s1 where "s1 = say startup (s0\<lparr>cs_stats := stats_init (cs_stats s0)\<rparr>)"
      have "s1 = say (out @ startup) (capture_initial\<lparr>cs_stats := stats_init (cs_stats capture_initial)\<rparr>)"
        by (simp add: s1_def s0_def say_def)
      then have "capture_inputs_ok (E\<lparr>ce_config := c\<rparr>) A s1 evs" using accepted_inputs [OF assms c] by simp
      then obtain r s2 where run: "capture_start (E\<lparr>ce_config := c\<rparr>) A s1 evs = Some (r, s2)"
        "run_answer (E\<lparr>ce_config := c\<rparr>) A (cs_stdout s1) evs r s2" using capture_start_ok by blast
      have "main_run E A argv evs = Some (r, if r \<noteq> None \<and> stats_mode c \<and> \<not> json_output c then say (stats_print (cs_stats s2)) s2 else s2)"
        using p(1) Inr x False st run(1) by (simp add: main_run_def early_def Let_def s0_def [symmetric] s1_def [symmetric])
      then show ?thesis using p(1) Inr run(2) False by (auto simp: tl early_def run_answer_def released_def say_def)
    qed
  qed
qed

definition ex_argv :: "bytes list" where
  "ex_argv = map asc [''MiniSniffer'', ''--read'', ''x.pcap'', ''--json'', ''--count'', ''2'']"

lemma main_never_faults_witness:
  "\<exists>status s. main_run ex_env ex_answers ex_argv [EV_PACKET ex_short, EV_EOF] = Some (status, s)"
  using main_never_faults [of ex_env ex_answers "[EV_PACKET ex_short, EV_EOF]" ex_argv] ex_events
  by (auto simp: ex_env_def ex_platform_ok answers_ok_def ex_answers_def)

end
