(* ===== verification/Spec2Isabelle.thy ===== *)
theory Spec2Isabelle
  imports Tcp_Reassembly Byte_Reader Ipv4_Frag Flow App_Decoder Parser Filters Stats Csv_Logger Output Json_Output Capture_Setup Capture Capture_Run Printing Capture_Start Cli Main_Program Cli_Safety
begin

text \<open>
  MiniSniffer. This header is completed as the development grows.
\<close>

end
